(* ===== verification/Gateway_Prelude.thy ===== *)
theory Gateway_Prelude
  imports Main "HOL-Library.Word" "HOL-Library.Sublist"
begin

text \<open>
  Shared vocabulary of the gateway development: the machine integer types of the Rust
  sources, the standard-library integer operations they call (saturating subtraction and
  addition, clamping, narrowing casts), the string operations of \<open>str\<close>, and the generic
  lemmas on words, lists and runs that the component theories rely on.

  The crate is built in release mode without overflow checks, so \<open>+\<close>, \<open>-\<close> and \<open>*\<close> on
  integers wrap around, exactly as \<open>+\<close>, \<open>-\<close> and \<open>*\<close> on words do. \<open>usize\<close> is 64 bits
  wide (the x86-64 and arm64 targets of the container image).
  A Rust \<open>str\<close> is the list of its UTF-8 bytes.
\<close>

unbundle bit_operations_syntax

type_synonym u8 = "8 word"
type_synonym u16 = "16 word"
type_synonym u32 = "32 word"
type_synonym u64 = "64 word"
type_synonym usize = "64 word"

named_theorems gw_defs \<open>definitions of the model that proofs unfold\<close>
named_theorems gw_inv \<open>operations keep their component's invariant\<close>

section \<open>Integer operations of the standard library\<close>

definition sat_sub :: "'a::len word \<Rightarrow> 'a word \<Rightarrow> 'a word" where
  "sat_sub a b = (if b \<le> a then a - b else 0)"

definition sat_add :: "'a::len word \<Rightarrow> 'a word \<Rightarrow> 'a word" where
  "sat_add a b = (if unat a + unat b < 2 ^ LENGTH('a) then a + b else - 1)"

definition clamp :: "'a::linorder \<Rightarrow> 'a \<Rightarrow> 'a \<Rightarrow> 'a" where
  "clamp lo hi x = (if x < lo then lo else if hi < x then hi else x)"

lemma clamp_ge [simp, intro]: "lo \<le> hi \<Longrightarrow> lo \<le> clamp lo hi x"
  by (auto simp: clamp_def)

lemma clamp_le [simp, intro]: "lo \<le> hi \<Longrightarrow> clamp lo hi x \<le> hi"
  by (auto simp: clamp_def)

lemma clamp_id: "lo \<le> x \<Longrightarrow> x \<le> hi \<Longrightarrow> clamp lo hi x = x"
  by (auto simp: clamp_def)

lemma unat_sat_sub: "unat (sat_sub a b) = unat a - unat b"
  by (simp add: sat_sub_def unat_sub word_le_nat_alt)

lemma sat_sub_le: "sat_sub a b \<le> a"
  by (simp add: word_le_nat_alt unat_sat_sub)

lemma unat_sat_add:
  "unat (sat_add (a :: 'a::len word) b) = min (2 ^ LENGTH('a) - 1) (unat a + unat b)"
proof (cases "unat a + unat b < 2 ^ LENGTH('a)")
  case True
  then show ?thesis by (simp add: sat_add_def unat_word_ariths)
next
  case False
  then show ?thesis by (simp add: sat_add_def unsigned_minus_1_eq_mask mask_eq_exp_minus_1)
qed

lemma unat_Suc_word:
  "unat (w :: 'a::len word) + 1 < 2 ^ LENGTH('a) \<Longrightarrow> unat (w + 1) = unat w + 1"
  by (simp add: unat_word_ariths)

lemma word_inc_le: "(w :: 'a::len word) < m \<Longrightarrow> w + 1 \<le> m"
  by (rule inc_le)

lemma word_less_inc_unat: "(w :: 'a::len word) < m \<Longrightarrow> unat (w + 1) = unat w + 1"
proof -
  assume "w < m"
  moreover have "unat m < 2 ^ LENGTH('a)" by (rule unsigned_less)
  ultimately have "unat w + 1 < 2 ^ LENGTH('a)" unfolding word_less_nat_alt by linarith
  then show ?thesis by (rule unat_Suc_word)
qed

lemma unat_ucast_small:
  "unat (w :: 'a::len word) < 2 ^ LENGTH('b) \<Longrightarrow> unat (ucast w :: 'b::len word) = unat w"
  by (simp add: unsigned_ucast_eq take_bit_nat_eq_self)

lemma unat_of_nat_small: "n < 2 ^ LENGTH('a) \<Longrightarrow> unat (of_nat n :: 'a::len word) = n"
  by (simp add: unsigned_of_nat take_bit_nat_eq_self)

lemma same_slot_close:
  assumes "a mod n = b mod n" and "a \<le> b" and "b < a + n"
  shows "a = (b :: nat)"
proof -
  have "n dvd b - a" using assms(1,2) by (metis mod_eq_dvd_iff_nat)
  moreover have "b - a < n" using assms(2,3) by linarith
  ultimately have "b - a = 0" by (meson dvd_imp_le not_less gr0I)
  with assms(2) show ?thesis by simp
qed

section \<open>Runs of a step function\<close>

text \<open>The state after a list of events, and the invariant rule every state machine uses.\<close>

fun run :: "('s \<Rightarrow> 'e \<Rightarrow> 's) \<Rightarrow> 's \<Rightarrow> 'e list \<Rightarrow> 's" where
  "run f s [] = s"
| "run f s (e # es) = run f (f s e) es"

lemma run_append: "run f s (xs @ ys) = run f (run f s xs) ys"
  by (induction xs arbitrary: s) auto

lemma run_inv:
  assumes "\<And>s e. I s \<Longrightarrow> e \<in> set es \<Longrightarrow> I (f s e)" and "I s"
  shows "I (run f s es)"
  using assms by (induction es arbitrary: s) auto

lemma run_replicate_Suc: "run f s (replicate (Suc n) e) = f (run f s (replicate n e)) e"
proof -
  have "replicate (Suc n) e = replicate n e @ [e]"
    by (simp add: replicate_append_same)
  then show ?thesis by (simp add: run_append del: replicate_Suc)
qed

section \<open>Interference\<close>

text \<open>
  The shared-memory components are read and written by several workers. An operation that
  makes several atomic accesses is modelled with an interference: what the other workers did
  to the object before its access number \<open>k\<close>. The sequential operation is the one with the
  quiet interference.
\<close>

type_synonym 's interference = "nat \<Rightarrow> 's \<Rightarrow> 's"

definition quiet :: "'s interference" where
  "quiet = (\<lambda>_. id)"

lemma quiet_apply [simp]: "quiet k s = s"
  by (simp add: quiet_def)

text \<open>
  A compare-exchange loop retries until its exchange succeeds. What happens to the location
  before each attempt is an event: nothing, a spurious failure of the weak exchange, or a value
  written by another worker. A finite list of events describes one run of the loop; after the
  list nothing interferes any more, so the next attempt is the last.
\<close>

datatype 'a cas_event = Calm | Spurious | Overwrite 'a

fun cas_seen :: "'a cas_event \<Rightarrow> 'a \<Rightarrow> 'a" where
  "cas_seen (Overwrite v) _ = v"
| "cas_seen _ v = v"

section \<open>Strings\<close>

definition starts_with :: "string \<Rightarrow> string \<Rightarrow> bool" where
  "starts_with s p = prefix p s"

definition ends_with :: "string \<Rightarrow> string \<Rightarrow> bool" where
  "ends_with s p = suffix p s"

text \<open>\<open>str::contains\<close> with a string pattern.\<close>

fun contains_str :: "string \<Rightarrow> string \<Rightarrow> bool" where
  "contains_str [] p = (p = [])"
| "contains_str (c # cs) p = (prefix p (c # cs) \<or> contains_str cs p)"

lemma contains_str_iff: "contains_str s p \<longleftrightarrow> sublist p s"
  by (induction s) (auto simp: sublist_Cons_right)

definition strip_prefix :: "string \<Rightarrow> string \<Rightarrow> string option" where
  "strip_prefix p s = (if prefix p s then Some (drop (length p) s) else None)"

lemma strip_prefix_Some: "strip_prefix p s = Some t \<longleftrightarrow> s = p @ t"
  by (auto simp: strip_prefix_def prefix_def)

definition ascii_lower :: "char \<Rightarrow> char" where
  "ascii_lower c =
     (if 65 \<le> (of_char c :: nat) \<and> (of_char c :: nat) \<le> 90
      then char_of ((of_char c :: nat) + 32) else c)"

definition to_ascii_lowercase :: "string \<Rightarrow> string" where
  "to_ascii_lowercase = map ascii_lower"

definition eq_ignore_ascii_case :: "string \<Rightarrow> string \<Rightarrow> bool" where
  "eq_ignore_ascii_case a b = (to_ascii_lowercase a = to_ascii_lowercase b)"

lemma eq_ignore_ascii_case_refl [simp]: "eq_ignore_ascii_case a a"
  by (simp add: eq_ignore_ascii_case_def)

lemma eq_ignore_ascii_case_sym: "eq_ignore_ascii_case a b = eq_ignore_ascii_case b a"
  by (auto simp: eq_ignore_ascii_case_def)

lemma eq_ignore_ascii_case_trans:
  "eq_ignore_ascii_case a b \<Longrightarrow> eq_ignore_ascii_case b c \<Longrightarrow> eq_ignore_ascii_case a c"
  by (simp add: eq_ignore_ascii_case_def)

text \<open>The environment of the process: \<open>std::env::var\<close> is \<open>Err\<close> where the map is \<open>None\<close>.\<close>

type_synonym env = "string \<Rightarrow> string option"

text \<open>
  The flag idiom of the sources: a variable that is \<open>1\<close> or \<open>true\<close> in any case.
\<close>

definition env_flag :: "env \<Rightarrow> string \<Rightarrow> bool" where
  "env_flag env name =
     (case env name of Some v \<Rightarrow> v = ''1'' \<or> eq_ignore_ascii_case v ''true'' | None \<Rightarrow> False)"

text \<open>\<open>Option::filter\<close> on non-empty strings and \<open>Option::unwrap_or\<close>.\<close>

definition non_empty :: "string option \<Rightarrow> string option" where
  "non_empty v = (case v of Some s \<Rightarrow> if s = [] then None else Some s | None \<Rightarrow> None)"

definition unwrap_or :: "'a option \<Rightarrow> 'a \<Rightarrow> 'a" where
  "unwrap_or v d = (case v of Some x \<Rightarrow> x | None \<Rightarrow> d)"

end
