(* ===== verification/Gauge_Spec.thy ===== *)
theory Gauge_Spec
  imports Gateway_Prelude
begin

text \<open>
  The contract of a concurrency gauge: a counter that \<open>acquire\<close> raises only below a limit and
  that \<open>release\<close> lowers. The global backpressure slot counter (theory \<open>Backpressure\<close>) and
  the adaptive limiter of one upstream (theory \<open>Adaptive_Concurrency\<close>) provide it. A client
  that releases only what it acquired never holds more than the limit, and the counter is
  exactly the number of slots it holds: no slot leaks and none is released twice.
\<close>

datatype gauge_event = Acquire | Release

fun gauge_client :: "('s \<Rightarrow> bool \<times> 's) \<Rightarrow> ('s \<Rightarrow> 's) \<Rightarrow> 's \<times> nat \<Rightarrow> gauge_event \<Rightarrow> 's \<times> nat" where
  "gauge_client acq rel (s, held) Acquire =
     (snd (acq s), if fst (acq s) then held + 1 else held)"
| "gauge_client acq rel (s, held) Release =
     (if held = 0 then (s, held) else (rel s, held - 1))"

locale gauge =
  fixes count :: "'s \<Rightarrow> int"
    and limit :: "'s \<Rightarrow> int"
    and acquire :: "'s \<Rightarrow> bool \<times> 's"
    and release :: "'s \<Rightarrow> 's"
  assumes acquire_ok: "fst (acquire s) \<Longrightarrow> count s < limit s"
    and acquire_count: "count (snd (acquire s)) = (if fst (acquire s) then count s + 1 else count s)"
    and acquire_limit: "limit (snd (acquire s)) = limit s"
    and release_count: "0 < count s \<Longrightarrow> count (release s) = count s - 1"
    and release_limit: "limit (release s) = limit s"
begin

lemma client_step:
  assumes "count (fst p) = int (snd p)" and "int (snd p) \<le> m" and "limit (fst p) \<le> m"
  shows "count (fst (gauge_client acquire release p e)) = int (snd (gauge_client acquire release p e))
       \<and> int (snd (gauge_client acquire release p e)) \<le> m
       \<and> limit (fst (gauge_client acquire release p e)) \<le> m"
proof (cases p)
  case (Pair s h)
  then show ?thesis
    using assms acquire_ok [of s] acquire_count [of s] acquire_limit [of s]
      release_count [of s] release_limit [of s]
    by (cases e) auto
qed

lemma client_balanced:
  assumes "count s = int h" and "int h \<le> m" and "limit s \<le> m"
  shows "count (fst (run (gauge_client acquire release) (s, h) es))
           = int (snd (run (gauge_client acquire release) (s, h) es))
       \<and> int (snd (run (gauge_client acquire release) (s, h) es)) \<le> m"
proof -
  let ?I = "\<lambda>p. count (fst p) = int (snd p) \<and> int (snd p) \<le> m \<and> limit (fst p) \<le> m"
  have "?I (run (gauge_client acquire release) (s, h) es)"
  proof (rule run_inv [where I = ?I])
    fix p e assume "?I p"
    then show "?I (gauge_client acquire release p e)" using client_step [of p m e] by blast
  qed (use assms in simp)
  then show ?thesis by blast
qed

end

end
