(* ===== verification/Breaker_Spec.thy ===== *)
theory Breaker_Spec
  imports Gateway_Prelude
begin

text \<open>
  The contract that the two circuit breakers of the gateway share: the cross-worker upstream
  breaker (theory \<open>Circuit_Breaker\<close>) and the Redis breaker (theory \<open>Redis_CB\<close>).
  A breaker is in one of three modes; it leaves \<open>Open\<close> only for \<open>HalfOpen\<close>, only by an event
  that finds the cooldown elapsed, and it leaves \<open>HalfOpen\<close> for \<open>Closed\<close> only by a reported
  success. From these laws alone, every recovery is a cooldown followed by a successful probe.
\<close>

datatype breaker_mode = Closed | Open | HalfOpen

locale breaker =
  fixes mode :: "'s \<Rightarrow> breaker_mode"
    and step :: "'s \<Rightarrow> 'e \<Rightarrow> 's"
    and inv :: "'s \<Rightarrow> bool"
    and cooled :: "'s \<Rightarrow> 'e \<Rightarrow> bool"
    and success :: "'e \<Rightarrow> bool"
  assumes inv_step: "inv s \<Longrightarrow> inv (step s e)"
    and open_step: "inv s \<Longrightarrow> mode s = Open \<Longrightarrow>
          mode (step s e) = Open \<or> mode (step s e) = HalfOpen \<and> cooled s e"
    and half_open_step: "inv s \<Longrightarrow> mode s = HalfOpen \<Longrightarrow> mode (step s e) = Closed \<Longrightarrow> success e"
begin

lemma inv_run: "inv s \<Longrightarrow> inv (run step s es)"
  by (rule run_inv) (auto intro: inv_step)

lemma open_stays_open:
  assumes "inv s" and "mode s = Open"
    and "\<And>i. i < length es \<Longrightarrow> \<not> cooled (run step s (take i es)) (es ! i)"
  shows "mode (run step s es) = Open"
  using assms(3)
proof (induction es rule: rev_induct)
  case Nil
  then show ?case using assms(2) by simp
next
  case (snoc e es)
  have "mode (run step s es) = Open"
  proof (rule snoc.IH)
    fix i assume "i < length es"
    then show "\<not> cooled (run step s (take i es)) (es ! i)"
      using snoc.prems [of i] by (simp add: nth_append)
  qed
  moreover have "\<not> cooled (run step s es) e"
    using snoc.prems [of "length es"] by simp
  ultimately show ?case
    using open_step [OF inv_run [OF assms(1)]] by (fastforce simp: run_append)
qed

lemma recovery_needs_probe_success:
  assumes "inv s" and "mode s = Open" and "mode (run step s es) = Closed"
  shows "\<exists>j < length es. mode (run step s (take j es)) = HalfOpen \<and> success (es ! j)"
  using assms(3)
proof (induction es rule: rev_induct)
  case Nil
  then show ?case using assms(2) by simp
next
  case (snoc e es)
  let ?t = "run step s es"
  have it: "inv ?t" by (rule inv_run [OF assms(1)])
  show ?case
  proof (cases "mode ?t = Closed")
    case True
    from snoc.IH [OF this] obtain j where
      "j < length es" "mode (run step s (take j es)) = HalfOpen" "success (es ! j)" by blast
    then have "j < length (es @ [e])" "mode (run step s (take j (es @ [e]))) = HalfOpen"
      "success ((es @ [e]) ! j)" by (simp_all add: nth_append)
    then show ?thesis by blast
  next
    case False
    have c: "mode (step ?t e) = Closed" using snoc.prems by (simp add: run_append)
    have "mode ?t = HalfOpen"
      using False c open_step [OF it, of e] by (cases "mode ?t") auto
    then have "mode (run step s (take (length es) (es @ [e]))) = HalfOpen"
      and "success ((es @ [e]) ! length es)"
      using half_open_step [OF it _ c] by simp_all
    then show ?thesis by (intro exI [of _ "length es"]) simp
  qed
qed

text \<open>A recovery takes an event that found the cooldown elapsed and, later, a success.\<close>

lemma recovery_needs_cooldown_then_success:
  assumes inv: "inv s" and op: "mode s = Open" and cl: "mode (run step s es) = Closed"
  shows "\<exists>i j. i < j \<and> j < length es \<and> cooled (run step s (take i es)) (es ! i)
           \<and> mode (run step s (take j es)) = HalfOpen \<and> success (es ! j)"
proof -
  obtain j where j: "j < length es" "mode (run step s (take j es)) = HalfOpen" "success (es ! j)"
    using recovery_needs_probe_success [OF inv op cl] by blast
  have "\<exists>i < j. cooled (run step s (take i es)) (es ! i)"
  proof (rule ccontr)
    assume "\<not> (\<exists>i < j. cooled (run step s (take i es)) (es ! i))"
    then have "mode (run step s (take j es)) = Open"
      using j(1) by (intro open_stays_open [OF inv op]) (auto simp: min_def)
    with j(2) show False by simp
  qed
  with j show ?thesis by blast
qed

end

end
