(* ===== verification/Circuit_Breaker.thy ===== *)
theory Circuit_Breaker
  imports Breaker_Spec
begin

text \<open>
  The passive upstream circuit breaker, \<open>rust-ext/src/load_balancing/circuit_breaker.rs\<close>.

  One \<open>UpstreamCB\<close> per slot of a memory-mapped file shared by all workers; the slot of a name
  is its Fx hash modulo the number of slots. The hasher belongs to the \<open>rustc-hash\<close> crate and
  is the parameter \<open>fx\<close>. The mapped file is a function from slot numbers to breakers; a new
  file is all zero bytes. The clock is a parameter of each operation that reads it.

  The methods of \<open>UpstreamCB\<close> come twice: with an interference (what other workers do between
  the atomic accesses), so that the lost compare-exchange branches of the source are there,
  and in the sequential form.
\<close>

definition STATE_CLOSED :: usize where [simp]: "STATE_CLOSED = 0"
definition STATE_OPEN :: usize where [simp]: "STATE_OPEN = 1"
definition STATE_HALF_OPEN :: usize where [simp]: "STATE_HALF_OPEN = 2"

definition FAILURE_THRESHOLD :: usize where [simp]: "FAILURE_THRESHOLD = 50"
definition RESET_TIMEOUT_SECS :: u64 where [simp]: "RESET_TIMEOUT_SECS = 10"
definition CB_SHM_SLOTS :: usize where [simp]: "CB_SHM_SLOTS = 4096"

record UpstreamCB =
  cb_state :: usize
  cb_failures :: usize
  cb_last_failure_time :: u64

definition fresh_cb :: UpstreamCB where
  "fresh_cb = \<lparr>cb_state = 0, cb_failures = 0, cb_last_failure_time = 0\<rparr>"

section \<open>The methods of one breaker\<close>

definition is_open_env :: "UpstreamCB interference \<Rightarrow> u64 \<Rightarrow> UpstreamCB \<Rightarrow> bool \<times> UpstreamCB" where
  "is_open_env intf now cb =
     (if cb_state cb = STATE_CLOSED then (False, cb)
      else if cb_state cb = STATE_OPEN then
        (let cb1 = intf 0 cb in
         if now \<le> cb_last_failure_time cb1 + RESET_TIMEOUT_SECS then (True, cb1)
         else
           let cb2 = intf 1 cb1 in
           if cb_state cb2 = STATE_OPEN then (False, cb2\<lparr>cb_state := STATE_HALF_OPEN\<rparr>)
           else (cb_state cb2 \<noteq> STATE_HALF_OPEN, cb2))
      else (False, cb))"

definition cb_record_success_env :: "UpstreamCB interference \<Rightarrow> UpstreamCB \<Rightarrow> UpstreamCB" where
  "cb_record_success_env intf cb =
     (if cb_state cb = STATE_HALF_OPEN then
        (intf 1 ((intf 0 cb)\<lparr>cb_state := STATE_CLOSED\<rparr>))\<lparr>cb_failures := 0\<rparr>
      else if cb_state cb = STATE_CLOSED then (intf 0 cb)\<lparr>cb_failures := 0\<rparr>
      else cb)"

definition cb_record_failure_env ::
    "UpstreamCB interference \<Rightarrow> u64 \<Rightarrow> UpstreamCB \<Rightarrow> UpstreamCB" where
  "cb_record_failure_env intf now cb =
     (if cb_state cb = STATE_HALF_OPEN then
        (intf 1 ((intf 0 cb)\<lparr>cb_state := STATE_OPEN\<rparr>))\<lparr>cb_last_failure_time := now\<rparr>
      else if cb_state cb = STATE_CLOSED then
        (let cb1 = intf 0 cb;
             fails = cb_failures cb1 + 1;
             cb2 = cb1\<lparr>cb_failures := fails\<rparr> in
         if FAILURE_THRESHOLD \<le> fails then
           (let cb3 = intf 1 cb2 in
            if cb_state cb3 = STATE_CLOSED
            then (intf 2 (cb3\<lparr>cb_state := STATE_OPEN\<rparr>))\<lparr>cb_last_failure_time := now\<rparr>
            else cb3)
         else cb2)
      else cb)"

definition cb_is_open :: "u64 \<Rightarrow> UpstreamCB \<Rightarrow> bool \<times> UpstreamCB" where
  "cb_is_open = is_open_env quiet"

definition cb_record_success :: "UpstreamCB \<Rightarrow> UpstreamCB" where
  "cb_record_success = cb_record_success_env quiet"

definition cb_record_failure :: "u64 \<Rightarrow> UpstreamCB \<Rightarrow> UpstreamCB" where
  "cb_record_failure = cb_record_failure_env quiet"

definition state_value :: "UpstreamCB \<Rightarrow> usize" where
  "state_value cb = cb_state cb"

section \<open>The shared table and the functions of the module\<close>

type_synonym cb_shm = "nat \<Rightarrow> UpstreamCB"

definition cb_init_shm :: cb_shm where
  "cb_init_shm = (\<lambda>_. fresh_cb)"

definition cb_index :: "(string \<Rightarrow> u64) \<Rightarrow> string \<Rightarrow> nat" where
  "cb_index fx name = unat (fx name mod CB_SHM_SLOTS)"

definition get_cb :: "(string \<Rightarrow> u64) \<Rightarrow> cb_shm \<Rightarrow> string \<Rightarrow> UpstreamCB" where
  "get_cb fx shm name = shm (cb_index fx name)"

definition set_cb :: "(string \<Rightarrow> u64) \<Rightarrow> string \<Rightarrow> UpstreamCB \<Rightarrow> cb_shm \<Rightarrow> cb_shm" where
  "set_cb fx name cb shm = shm(cb_index fx name := cb)"

definition GLOBAL_NAME :: string where "GLOBAL_NAME = ''__GLOBAL__''"

definition is_upstream_open :: "(string \<Rightarrow> u64) \<Rightarrow> u64 \<Rightarrow> string \<Rightarrow> cb_shm \<Rightarrow> bool \<times> cb_shm" where
  "is_upstream_open fx now upstream shm =
     (let (b, cb) = cb_is_open now (get_cb fx shm upstream) in (b, set_cb fx upstream cb shm))"

definition record_success :: "(string \<Rightarrow> u64) \<Rightarrow> cb_shm \<Rightarrow> cb_shm" where
  "record_success fx shm = set_cb fx GLOBAL_NAME (cb_record_success (get_cb fx shm GLOBAL_NAME)) shm"

definition record_failure :: "(string \<Rightarrow> u64) \<Rightarrow> u64 \<Rightarrow> cb_shm \<Rightarrow> cb_shm" where
  "record_failure fx now shm =
     set_cb fx GLOBAL_NAME (cb_record_failure now (get_cb fx shm GLOBAL_NAME)) shm"

definition record_success_for :: "(string \<Rightarrow> u64) \<Rightarrow> string \<Rightarrow> cb_shm \<Rightarrow> cb_shm" where
  "record_success_for fx upstream shm =
     record_success fx (set_cb fx upstream (cb_record_success (get_cb fx shm upstream)) shm)"

definition record_failure_for :: "(string \<Rightarrow> u64) \<Rightarrow> u64 \<Rightarrow> u64 \<Rightarrow> string \<Rightarrow> cb_shm \<Rightarrow> cb_shm" where
  "record_failure_for fx now now' upstream shm =
     record_failure fx now' (set_cb fx upstream (cb_record_failure now (get_cb fx shm upstream)) shm)"

definition global_state :: "(string \<Rightarrow> u64) \<Rightarrow> cb_shm \<Rightarrow> usize" where
  "global_state fx shm = state_value (get_cb fx shm GLOBAL_NAME)"

text \<open>\<open>f as u32 * 4\<close> truncates \<open>f\<close> to 32 bits and multiplies with wrap-around.\<close>

definition cb_confidence :: "UpstreamCB \<Rightarrow> u8" where
  "cb_confidence cb =
     (if cb_state cb = STATE_OPEN then 5
      else if cb_state cb = STATE_HALF_OPEN then 40
      else ucast (clamp 30 100 (sat_sub (100 :: u32) (ucast (cb_failures cb) * 4))))"

definition get_confidence :: "(string \<Rightarrow> u64) \<Rightarrow> cb_shm \<Rightarrow> string \<Rightarrow> u8" where
  "get_confidence fx shm upstream = cb_confidence (get_cb fx shm upstream)"

lemma get_set_cb:
  "get_cb fx (set_cb fx n cb shm) m =
     (if cb_index fx n = cb_index fx m then cb else get_cb fx shm m)"
  by (simp add: get_cb_def set_cb_def)

lemma cb_index_less: "cb_index fx name < 4096"
proof -
  have "fx name mod CB_SHM_SLOTS < 4096"
    by (simp add: word_less_nat_alt unat_mod)
  then show ?thesis by (simp add: cb_index_def word_less_nat_alt)
qed

section \<open>The state machine of one breaker\<close>

datatype cb_event = EvIsOpen u64 | EvSuccess | EvFailure u64

fun cb_step :: "UpstreamCB \<Rightarrow> cb_event \<Rightarrow> UpstreamCB" where
  "cb_step cb (EvIsOpen now) = snd (cb_is_open now cb)"
| "cb_step cb EvSuccess = cb_record_success cb"
| "cb_step cb (EvFailure now) = cb_record_failure now cb"

text \<open>What the fields promise each other between sequential operations.\<close>

definition cb_inv :: "UpstreamCB \<Rightarrow> bool" where
  "cb_inv cb \<longleftrightarrow>
     cb_state cb = STATE_CLOSED \<and> cb_failures cb < FAILURE_THRESHOLD
   \<or> (cb_state cb = STATE_OPEN \<or> cb_state cb = STATE_HALF_OPEN) \<and> cb_failures cb = FAILURE_THRESHOLD"

inductive cb_reachable :: "UpstreamCB \<Rightarrow> bool" where
  cb_start: "cb_reachable fresh_cb"
| cb_next: "cb_reachable cb \<Longrightarrow> cb_reachable (cb_step cb e)"

lemma cb_inv_fresh: "cb_inv fresh_cb"
  by (simp add: cb_inv_def fresh_cb_def)

lemma cb_is_open_cases:
  "snd (cb_is_open now cb) =
     (if cb_state cb = STATE_OPEN \<and> cb_last_failure_time cb + RESET_TIMEOUT_SECS < now
      then cb\<lparr>cb_state := STATE_HALF_OPEN\<rparr> else cb)"
  by (simp add: cb_is_open_def is_open_env_def Let_def not_le)

lemma cb_record_failure_cases:
  "cb_record_failure now cb =
     (if cb_state cb = STATE_HALF_OPEN
      then cb\<lparr>cb_state := STATE_OPEN, cb_last_failure_time := now\<rparr>
      else if cb_state cb \<noteq> STATE_CLOSED then cb
      else if FAILURE_THRESHOLD \<le> cb_failures cb + 1
      then cb\<lparr>cb_state := STATE_OPEN, cb_failures := cb_failures cb + 1,
              cb_last_failure_time := now\<rparr>
      else cb\<lparr>cb_failures := cb_failures cb + 1\<rparr>)"
  by (simp add: cb_record_failure_def cb_record_failure_env_def Let_def)

lemma cb_record_success_cases:
  "cb_record_success cb =
     (if cb_state cb = STATE_HALF_OPEN \<or> cb_state cb = STATE_CLOSED
      then cb\<lparr>cb_state := STATE_CLOSED, cb_failures := 0\<rparr> else cb)"
  by (simp add: cb_record_success_def cb_record_success_env_def)

lemmas cb_cases = cb_is_open_cases cb_record_failure_cases cb_record_success_cases

lemma threshold_exact:
  "(w :: usize) < FAILURE_THRESHOLD \<Longrightarrow> FAILURE_THRESHOLD \<le> w + 1 \<longleftrightarrow> w + 1 = FAILURE_THRESHOLD"
  using word_inc_le [of w FAILURE_THRESHOLD] by auto

lemma cb_inv_cases:
  assumes "cb_inv cb"
  obtains (closed) "cb_state cb = STATE_CLOSED" "cb_failures cb < FAILURE_THRESHOLD"
  | (opened) "cb_state cb = STATE_OPEN" "cb_failures cb = FAILURE_THRESHOLD"
  | (half) "cb_state cb = STATE_HALF_OPEN" "cb_failures cb = FAILURE_THRESHOLD"
  using assms unfolding cb_inv_def by blast

lemma cb_step_inv [gw_inv]: "cb_inv cb \<Longrightarrow> cb_inv (cb_step cb e)"
proof (cases e)
  case (EvFailure now)
  assume "cb_inv cb"
  then show ?thesis
  proof (cases rule: cb_inv_cases)
    case closed
    with threshold_exact [OF closed(2)] show ?thesis
      by (cases "FAILURE_THRESHOLD \<le> cb_failures cb + 1")
        (simp_all add: EvFailure cb_cases cb_inv_def not_le)
  qed (simp_all add: EvFailure cb_cases cb_inv_def)
qed (auto simp: cb_inv_def cb_cases)

lemma cb_reachable_inv: "cb_reachable cb \<Longrightarrow> cb_inv cb"
  by (induction rule: cb_reachable.induct) (auto intro: cb_inv_fresh cb_step_inv)

definition cb_mode :: "UpstreamCB \<Rightarrow> breaker_mode" where
  "cb_mode cb = (if cb_state cb = STATE_OPEN then Open
                 else if cb_state cb = STATE_HALF_OPEN then HalfOpen else Closed)"

fun cb_cooled :: "UpstreamCB \<Rightarrow> cb_event \<Rightarrow> bool" where
  "cb_cooled cb (EvIsOpen now) = (cb_last_failure_time cb + RESET_TIMEOUT_SECS < now)"
| "cb_cooled cb _ = False"

interpretation ucb: breaker cb_mode cb_step cb_inv cb_cooled "\<lambda>e. e = EvSuccess"
proof unfold_locales
  fix s e assume "cb_inv s"
  then show "cb_inv (cb_step s e)" by (rule cb_step_inv)
next
  fix s e assume "cb_inv s" and "cb_mode s = Open"
  then show "cb_mode (cb_step s e) = Open \<or> cb_mode (cb_step s e) = HalfOpen \<and> cb_cooled s e"
    by (cases e) (auto simp: cb_mode_def cb_cases split: if_splits)
next
  fix s e assume "cb_inv s" "cb_mode s = HalfOpen" "cb_mode (cb_step s e) = Closed"
  then show "e = EvSuccess"
    by (cases e) (auto simp: cb_mode_def cb_cases split: if_splits)
qed

section \<open>The breaker as a specification\<close>

text \<open>
  What the module promises, without the encoding: a closed breaker counts consecutive
  failures, an open one remembers when it opened, a half-open one waits for one report.
\<close>

datatype cb_spec = SClosed nat | SOpen u64 | SHalfOpen

fun cb_spec_step :: "cb_spec \<Rightarrow> cb_event \<Rightarrow> cb_spec" where
  "cb_spec_step (SClosed n) (EvIsOpen _) = SClosed n"
| "cb_spec_step (SClosed n) EvSuccess = SClosed 0"
| "cb_spec_step (SClosed n) (EvFailure t) = (if 50 \<le> n + 1 then SOpen t else SClosed (n + 1))"
| "cb_spec_step (SOpen t) (EvIsOpen now) = (if now \<le> t + 10 then SOpen t else SHalfOpen)"
| "cb_spec_step (SOpen t) _ = SOpen t"
| "cb_spec_step SHalfOpen (EvIsOpen _) = SHalfOpen"
| "cb_spec_step SHalfOpen EvSuccess = SClosed 0"
| "cb_spec_step SHalfOpen (EvFailure t) = SOpen t"

fun cb_spec_blocks :: "cb_spec \<Rightarrow> u64 \<Rightarrow> bool" where
  "cb_spec_blocks (SOpen t) now = (now \<le> t + 10)"
| "cb_spec_blocks _ now = False"

definition cb_abs :: "UpstreamCB \<Rightarrow> cb_spec" where
  "cb_abs cb = (case cb_mode cb of Closed \<Rightarrow> SClosed (unat (cb_failures cb))
                | Open \<Rightarrow> SOpen (cb_last_failure_time cb) | HalfOpen \<Rightarrow> SHalfOpen)"

lemma cb_step_refines: "cb_inv cb \<Longrightarrow> cb_abs (cb_step cb e) = cb_spec_step (cb_abs cb) e"
proof (cases e)
  case (EvFailure now)
  assume "cb_inv cb"
  then show ?thesis
  proof (cases rule: cb_inv_cases)
    case closed
    have u: "unat (cb_failures cb + 1) = unat (cb_failures cb) + 1"
      by (rule word_less_inc_unat [OF closed(2)])
    have "FAILURE_THRESHOLD \<le> cb_failures cb + 1 \<longleftrightarrow> 50 \<le> unat (cb_failures cb) + 1"
      unfolding word_le_nat_alt u by simp
    then show ?thesis
      using closed u by (auto simp: EvFailure cb_cases cb_abs_def cb_mode_def)
  qed (simp_all add: EvFailure cb_cases cb_abs_def cb_mode_def)
next
  case (EvIsOpen now)
  assume "cb_inv cb"
  then show ?thesis
    by (cases rule: cb_inv_cases) (auto simp: EvIsOpen cb_cases cb_abs_def cb_mode_def)
next
  case EvSuccess
  assume "cb_inv cb"
  then show ?thesis
    by (cases rule: cb_inv_cases) (simp_all add: EvSuccess cb_cases cb_abs_def cb_mode_def)
qed

lemma cb_run_refines:
  "cb_inv cb \<Longrightarrow> cb_abs (run cb_step cb es) = run cb_spec_step (cb_abs cb) es"
  by (induction es arbitrary: cb) (simp_all add: cb_step_refines cb_step_inv)

lemma cb_abs_fresh [simp]: "cb_abs fresh_cb = SClosed 0"
  by (simp add: cb_abs_def cb_mode_def fresh_cb_def)

lemma cb_is_open_spec: "cb_inv cb \<Longrightarrow> fst (cb_is_open now cb) = cb_spec_blocks (cb_abs cb) now"
  by (erule cb_inv_cases)
    (simp_all add: cb_is_open_def is_open_env_def Let_def cb_abs_def cb_mode_def)

lemma cb_run_inv: "cb_inv (run cb_step fresh_cb es)"
  by (rule run_inv) (auto intro: cb_step_inv cb_inv_fresh)

text \<open>(C11)
  Refinement: after every sequence of operations on a zeroed slot, the breaker is in the state
  the specification machine is in, and \<open>is_open\<close> answers what the specification answers.
\<close>
theorem upstream_breaker_refines_spec:
  "cb_abs (run cb_step fresh_cb es) = run cb_spec_step (SClosed 0) es
   \<and> fst (cb_is_open now (run cb_step fresh_cb es))
       = cb_spec_blocks (run cb_spec_step (SClosed 0) es) now"
  using cb_run_refines [OF cb_inv_fresh, of es] cb_is_open_spec [OF cb_run_inv, of now es]
  by simp

lemma spec_failures:
  "run cb_spec_step (SClosed n) (map EvFailure ts) =
     (if n + length ts < 50 then SClosed (n + length ts)
      else if n < 50 then SOpen (ts ! (49 - n)) else run cb_spec_step (SClosed n) (map EvFailure ts))"
proof (induction ts arbitrary: n)
  case Nil
  then show ?case by simp
next
  case (Cons t ts)
  have op: "run cb_spec_step (SOpen u) (map EvFailure us) = SOpen u" for u us
    by (induction us) auto
  show ?case
  proof (cases "50 \<le> n + 1")
    case True
    then show ?thesis by (auto simp: op)
  next
    case False
    then show ?thesis using Cons.IH [of "n + 1"] by (auto simp: nth_Cons')
  qed
qed

lemma cb_failures_spec:
  "cb_abs (run cb_step fresh_cb (map EvFailure ts)) =
     (if length ts < 50 then SClosed (length ts) else SOpen (ts ! 49))"
  using cb_run_refines [OF cb_inv_fresh, of "map EvFailure ts"] spec_failures [of 0 ts]
  by auto

text \<open>A fresh breaker trips exactly at the 50th consecutive failure, with the time of that failure
  as the start of its cooldown; further failures leave it untouched.
\<close>
lemma upstream_breaker_trips_at_threshold:
  "cb_abs (run cb_step fresh_cb (map EvFailure ts)) =
     (if length ts < 50 then SClosed (length ts) else SOpen (ts ! 49))"
  by (rule cb_failures_spec)

text \<open>Recovery: an upstream breaker that is open and later closed has seen an \<open>is_open\<close> call after
  the cooldown of ten seconds and, after that, a success reported while it was half-open.
\<close>
lemma upstream_recovery_needs_probe:
  assumes "cb_reachable cb" and "cb_mode cb = Open" and "cb_mode (run cb_step cb es) = Closed"
  shows "\<exists>i j. i < j \<and> j < length es \<and> cb_cooled (run cb_step cb (take i es)) (es ! i)
           \<and> cb_mode (run cb_step cb (take j es)) = HalfOpen \<and> es ! j = EvSuccess"
  using ucb.recovery_needs_cooldown_then_success [OF cb_reachable_inv] assms by blast

lemma cb_reachable_run: "cb_reachable (run cb_step fresh_cb es)"
  by (rule run_inv [where I = cb_reachable]) (auto intro: cb_reachable.intros)

definition tripped_cb :: UpstreamCB where
  "tripped_cb = run cb_step fresh_cb (replicate 50 (EvFailure 100))"

lemma tripped_cb_eval: "cb_abs tripped_cb = SOpen 100"
  using cb_failures_spec [of "replicate 50 100"]
  by (simp add: tripped_cb_def)

lemma upstream_recovery_needs_probe_witness:
  "\<exists>i j. i < j \<and> j < length [EvIsOpen 111, EvSuccess]
     \<and> cb_cooled (run cb_step tripped_cb (take i [EvIsOpen 111, EvSuccess])) ([EvIsOpen 111, EvSuccess] ! i)
     \<and> cb_mode (run cb_step tripped_cb (take j [EvIsOpen 111, EvSuccess])) = HalfOpen
     \<and> [EvIsOpen 111, EvSuccess] ! j = EvSuccess"
proof (rule upstream_recovery_needs_probe)
  show "cb_reachable tripped_cb" unfolding tripped_cb_def by (rule cb_reachable_run)
  show "cb_mode tripped_cb = Open"
    using tripped_cb_eval by (simp add: cb_abs_def split: breaker_mode.splits)
  have "cb_inv tripped_cb" unfolding tripped_cb_def by (rule cb_run_inv)
  then have "cb_abs (run cb_step tripped_cb [EvIsOpen 111, EvSuccess]) = SClosed 0"
    by (subst cb_run_refines) (simp_all add: tripped_cb_eval)
  then show "cb_mode (run cb_step tripped_cb [EvIsOpen 111, EvSuccess]) = Closed"
    by (simp add: cb_abs_def split: breaker_mode.splits)
qed

text \<open>
  The confidence score is a function of the specification state on reachable breakers: the
  32-bit truncation and the wrapping product of the source cannot be seen there.
\<close>

fun cb_spec_confidence :: "cb_spec \<Rightarrow> nat" where
  "cb_spec_confidence (SOpen _) = 5"
| "cb_spec_confidence SHalfOpen = 40"
| "cb_spec_confidence (SClosed f) = max 30 (100 - f * 4)"

lemma unat_confidence_closed:
  fixes f :: usize
  assumes "unat f < 50"
  shows "unat (ucast (clamp 30 100 (sat_sub (100 :: u32) (ucast f * 4))) :: u8)
       = max 30 (100 - unat f * 4)"
proof -
  have "unat (ucast f :: u32) = unat f"
    using assms by (simp add: unsigned_ucast_eq take_bit_nat_eq_self)
  then have "unat ((ucast f :: u32) * 4) = unat f * 4"
    using assms by (simp add: unat_word_ariths)
  then have s: "unat (sat_sub (100 :: u32) (ucast f * 4)) = 100 - unat f * 4"
    by (simp add: unat_sat_sub)
  have c: "unat (clamp 30 100 (sat_sub (100 :: u32) (ucast f * 4))) = max 30 (100 - unat f * 4)"
    using s by (simp add: clamp_def word_less_nat_alt)
  then have "unat (clamp 30 100 (sat_sub (100 :: u32) (ucast f * 4))) < 2 ^ 8" by simp
  then show ?thesis
    using c by (simp add: unsigned_ucast_eq take_bit_nat_eq_self)
qed

text \<open>Soft breaker: on every reachable breaker the confidence score is 5 when open, 40 when
  half-open, and slides from 100 to 30 by four points per consecutive failure when closed.
\<close>
lemma confidence_score:
  "unat (cb_confidence (run cb_step fresh_cb es))
     = cb_spec_confidence (run cb_spec_step (SClosed 0) es)"
proof -
  let ?cb = "run cb_step fresh_cb es"
  have "cb_inv ?cb" by (rule cb_run_inv)
  then have "unat (cb_confidence ?cb) = cb_spec_confidence (cb_abs ?cb)"
  proof (cases rule: cb_inv_cases)
    case closed
    have "unat (cb_failures ?cb) < 50" using closed(2) by (simp add: word_less_nat_alt)
    from unat_confidence_closed [OF this] closed show ?thesis
      by (simp add: cb_confidence_def cb_abs_def cb_mode_def)
  qed (simp_all add: cb_confidence_def cb_abs_def cb_mode_def)
  then show ?thesis using cb_run_refines [OF cb_inv_fresh, of es] by simp
qed

section \<open>Two workers and one compare-exchange\<close>

text \<open>
  Another worker that, between this worker's reads and its compare-exchange, wins the
  transition to half-open; or that wins it and already reports the probe's success.
\<close>

definition other_probes :: "u64 \<Rightarrow> UpstreamCB interference" where
  "other_probes now = (\<lambda>k. if k = 1 then (\<lambda>cb. snd (cb_is_open now cb)) else id)"

definition other_recovers :: "u64 \<Rightarrow> UpstreamCB interference" where
  "other_recovers now =
     (\<lambda>k. if k = 1 then (\<lambda>cb. cb_record_success (snd (cb_is_open now cb))) else id)"

text \<open>Lost races after the cooldown. A worker that loses the compare-exchange to a worker that
  started probing lets its request through. A worker that loses it to a worker whose probe has
  already closed the breaker refuses its request, although the breaker is then closed.
\<close>
lemma lost_cas_outcomes:
  assumes "cb_state cb = STATE_OPEN" and "cb_last_failure_time cb + RESET_TIMEOUT_SECS < now"
  shows "is_open_env (other_probes now) now cb = (False, cb\<lparr>cb_state := STATE_HALF_OPEN\<rparr>)
       \<and> is_open_env (other_recovers now) now cb
           = (True, cb\<lparr>cb_state := STATE_CLOSED, cb_failures := 0\<rparr>)"
  using assms
  by (simp add: is_open_env_def other_probes_def other_recovers_def cb_cases Let_def not_le)

lemma lost_cas_outcomes_witness:
  "is_open_env (other_probes 111) 111 \<lparr>cb_state = 1, cb_failures = 50, cb_last_failure_time = 100\<rparr>
     = (False, \<lparr>cb_state = 2, cb_failures = 50, cb_last_failure_time = 100\<rparr>)
   \<and> is_open_env (other_recovers 111) 111 \<lparr>cb_state = 1, cb_failures = 50, cb_last_failure_time = 100\<rparr>
     = (True, \<lparr>cb_state = 0, cb_failures = 0, cb_last_failure_time = 100\<rparr>)"
  using lost_cas_outcomes [of "\<lparr>cb_state = 1, cb_failures = 50, cb_last_failure_time = 100\<rparr>" 111]
  by simp

end
