(* ===== verification/Backpressure.thy ===== *)
theory Backpressure
  imports Gauge_Spec Circuit_Breaker
begin

text \<open>
  The global in-flight gauge, \<open>rust-ext/src/backpressure.rs\<close>. The state is the \<open>AtomicI64\<close>
  counter together with the two values \<open>acquire\<close> reads from elsewhere: the configured ceiling
  and the state of the global circuit breaker. The counter is an \<open>int\<close>: an \<open>i64\<close> would wrap
  only with more than \<open>2^63\<close> requests in flight. The ceiling is a \<open>usize\<close> cast to \<open>i64\<close>, so a
  ceiling of \<open>2^63\<close> or more is read as a negative number (\<open>sint\<close>).
\<close>

record bp_state =
  bp_max_concurrency :: usize
  bp_cb :: usize
  IN_FLIGHT :: int

definition bp_limit :: "usize \<Rightarrow> usize \<Rightarrow> int option" where
  "bp_limit max_conc cb =
     (if cb = STATE_HALF_OPEN then Some (sint (max (max_conc div 10) 1))
      else if cb = STATE_CLOSED then Some (sint max_conc)
      else None)"

definition bp_acquire :: "bp_state \<Rightarrow> bool \<times> bp_state" where
  "bp_acquire s =
     (case bp_limit (bp_max_concurrency s) (bp_cb s) of
        None \<Rightarrow> (False, s)
      | Some limit \<Rightarrow>
          (let current = IN_FLIGHT s; s1 = s\<lparr>IN_FLIGHT := current + 1\<rparr> in
           if limit \<le> current then (False, s1\<lparr>IN_FLIGHT := IN_FLIGHT s1 - 1\<rparr>)
           else (True, s1)))"

definition bp_release :: "bp_state \<Rightarrow> bp_state" where
  "bp_release s = s\<lparr>IN_FLIGHT := IN_FLIGHT s - 1\<rparr>"

definition current_in_flight :: "bp_state \<Rightarrow> int" where
  "current_in_flight s = IN_FLIGHT s"

text \<open>The limit in force; an open global breaker admits nothing.\<close>

definition bp_limit_value :: "bp_state \<Rightarrow> int" where
  "bp_limit_value s = (case bp_limit (bp_max_concurrency s) (bp_cb s) of None \<Rightarrow> 0 | Some l \<Rightarrow> l)"

lemma bp_acquire_cases:
  "bp_acquire s =
     (case bp_limit (bp_max_concurrency s) (bp_cb s) of
        None \<Rightarrow> (False, s)
      | Some l \<Rightarrow> if IN_FLIGHT s < l then (True, s\<lparr>IN_FLIGHT := IN_FLIGHT s + 1\<rparr>) else (False, s))"
  by (simp add: bp_acquire_def Let_def split: option.split)

interpretation bp: gauge current_in_flight bp_limit_value bp_acquire bp_release
  by unfold_locales
    (auto simp: bp_acquire_cases bp_release_def bp_limit_value_def current_in_flight_def
          split: option.splits if_splits)

lemma bp_acquire_frame:
  "bp_max_concurrency (snd (bp_acquire s)) = bp_max_concurrency s"
  "bp_cb (snd (bp_acquire s)) = bp_cb s"
  by (auto simp: bp_acquire_cases split: option.split)

lemma bp_acquire_fails: "\<not> fst (bp_acquire s) \<Longrightarrow> snd (bp_acquire s) = s"
  by (auto simp: bp_acquire_cases split: option.splits if_splits)

lemma bp_release_acquire: "fst (bp_acquire s) \<Longrightarrow> bp_release (snd (bp_acquire s)) = s"
  by (auto simp: bp_acquire_cases bp_release_def split: option.splits if_splits)

text \<open>Backpressure, one request at a time: whatever sequence of acquires and matching releases the
  requests perform, the gauge is the number of slots held and never exceeds the limit in force.
\<close>
lemma in_flight_counts_held_slots:
  assumes "IN_FLIGHT s = 0" and "0 \<le> bp_limit_value s"
  shows "IN_FLIGHT (fst (run (gauge_client bp_acquire bp_release) (s, 0) es))
           = int (snd (run (gauge_client bp_acquire bp_release) (s, 0) es))
       \<and> int (snd (run (gauge_client bp_acquire bp_release) (s, 0) es)) \<le> bp_limit_value s"
  using bp.client_balanced [of s 0 "bp_limit_value s" es] assms
  by (simp add: current_in_flight_def)

lemma in_flight_counts_held_slots_witness:
  "let s = \<lparr>bp_max_concurrency = 2, bp_cb = 0, IN_FLIGHT = 0\<rparr>;
       r = run (gauge_client bp_acquire bp_release) (s, 0) [Acquire, Acquire, Acquire, Release]
   in IN_FLIGHT (fst r) = int (snd r) \<and> int (snd r) \<le> 2"
  using in_flight_counts_held_slots
    [of "\<lparr>bp_max_concurrency = 2, bp_cb = 0, IN_FLIGHT = 0\<rparr>" "[Acquire, Acquire, Acquire, Release]"]
  by (simp add: bp_limit_value_def bp_limit_def Let_def)

section \<open>Interleaved workers\<close>

text \<open>
  \<open>acquire\<close> is a \<open>fetch_add\<close> and, when it finds the gauge at the limit, a later \<open>fetch_sub\<close>.
  Between the two the gauge is one too high and every other worker sees it so. A state of the
  interleaved system is the gauge, the number of admitted requests and the number of requests
  between their two accesses; each step is one atomic access of one request. The limit may
  change from step to step (a configuration reload, a transition of the global breaker).
\<close>

record bp_sys =
  gauge_now :: int
  admitted :: nat
  rejecting :: nat

inductive bp_sys_step :: "int \<Rightarrow> bp_sys \<Rightarrow> bp_sys \<Rightarrow> bool" where
  admit: "gauge_now s < limit \<Longrightarrow>
     bp_sys_step limit s (s\<lparr>gauge_now := gauge_now s + 1, admitted := admitted s + 1\<rparr>)"
| overload: "limit \<le> gauge_now s \<Longrightarrow>
     bp_sys_step limit s (s\<lparr>gauge_now := gauge_now s + 1, rejecting := rejecting s + 1\<rparr>)"
| undo: "0 < rejecting s \<Longrightarrow>
     bp_sys_step limit s (s\<lparr>gauge_now := gauge_now s - 1, rejecting := rejecting s - 1\<rparr>)"
| finish: "0 < admitted s \<Longrightarrow>
     bp_sys_step limit s (s\<lparr>gauge_now := gauge_now s - 1, admitted := admitted s - 1\<rparr>)"

inductive_cases bp_sys_stepE: "bp_sys_step limit s t"

inductive bp_sys_reach :: "int \<Rightarrow> bp_sys \<Rightarrow> bool" where
  bp_sys_init: "bp_sys_reach cap \<lparr>gauge_now = 0, admitted = 0, rejecting = 0\<rparr>"
| bp_sys_next: "bp_sys_reach cap s \<Longrightarrow> limit \<le> cap \<Longrightarrow> bp_sys_step limit s t \<Longrightarrow> bp_sys_reach cap t"

lemma bp_sys_inv:
  "bp_sys_reach cap s \<Longrightarrow> 0 \<le> cap \<Longrightarrow>
     gauge_now s = int (admitted s) + int (rejecting s) \<and> int (admitted s) \<le> cap"
  by (induction rule: bp_sys_reach.induct) (auto elim!: bp_sys_stepE)

text \<open>(C19)
  Backpressure under interleaving: in every reachable state of any number of concurrent
  requests the gauge is the admitted requests plus those about to undo their increment, is
  never negative, and the admitted requests never exceed the largest limit that was in force.
\<close>
theorem interleaved_admission_bounded:
  assumes "bp_sys_reach cap s" and "0 \<le> cap"
  shows "gauge_now s = int (admitted s) + int (rejecting s) \<and> 0 \<le> gauge_now s
       \<and> int (admitted s) \<le> cap"
  using bp_sys_inv [OF assms] by simp

theorem interleaved_admission_bounded_witness:
  "gauge_now \<lparr>gauge_now = 2, admitted = 1, rejecting = 1\<rparr> = 1 + 1
     \<and> (0::int) \<le> 2 \<and> int 1 \<le> 1"
proof -
  have "bp_sys_reach 1 \<lparr>gauge_now = 1, admitted = 1, rejecting = 0\<rparr>"
    using bp_sys_next [OF bp_sys_init [of 1], of 1] admit [of "\<lparr>gauge_now = 0, admitted = 0, rejecting = 0\<rparr>" 1]
    by simp
  then have "bp_sys_reach 1 \<lparr>gauge_now = 2, admitted = 1, rejecting = 1\<rparr>"
    using bp_sys_next [of 1 _ 1] overload [of 1 "\<lparr>gauge_now = 1, admitted = 1, rejecting = 0\<rparr>"]
    by fastforce
  from interleaved_admission_bounded [OF this] show ?thesis by simp
qed

end
