(* ===== verification/Window_Counter.thy ===== *)
theory Window_Counter
  imports Gateway_Prelude
begin

text \<open>
  The one-second window counter that the per-user rate limiter (\<open>rate_limit.rs\<close>) and the
  per-address limiter of the firewall (\<open>waf.rs\<close>) both keep in a 64-bit word of shared memory:
  the second in the upper half, the count in the lower half, updated by a compare-exchange
  loop. The contract of such a counter is the locale \<open>fixed_window\<close>; from it follows how many
  hits of one second are admitted, and that no interleaving admits more.
\<close>

section \<open>The packed word\<close>

definition pack_window :: "u32 \<Rightarrow> u32 \<Rightarrow> u64" where
  "pack_window now count = (push_bit 32 (ucast now) OR ucast count)"

definition window_ts_of :: "u64 \<Rightarrow> u32" where
  "window_ts_of current = ucast (drop_bit 32 current)"

definition window_count_of :: "u64 \<Rightarrow> u32" where
  "window_count_of current = ucast (current AND 0xFFFFFFFF)"

lemma mask32: "(0xFFFFFFFF :: u64) = mask 32"
  by (simp add: mask_eq_exp_minus_1)

lemma window_ts_pack [simp]: "window_ts_of (pack_window now c) = now"
  unfolding window_ts_of_def pack_window_def
  by (rule bit_word_eqI) (auto simp: bit_simps dest: bit_imp_le_length)

lemma window_count_pack [simp]: "window_count_of (pack_window now c) = c"
  unfolding window_count_of_def pack_window_def mask32
  by (rule bit_word_eqI) (auto simp: bit_simps)

lemma pack_unpack: "pack_window (window_ts_of v) (window_count_of v) = v"
  unfolding window_ts_of_def window_count_of_def pack_window_def mask32
  by (rule bit_word_eqI) (auto simp: bit_simps)

section \<open>The exchange loop\<close>

text \<open>
  One iteration's decision on the value it saw: \<open>None\<close> when the window is full, otherwise the
  word to store.
\<close>

definition window_next :: "u32 \<Rightarrow> u32 \<Rightarrow> u64 \<Rightarrow> u64 option" where
  "window_next now limit current =
     (if window_ts_of current \<noteq> now then Some (pack_window now 1)
      else if limit \<le> window_count_of current then None
      else Some (pack_window now (window_count_of current + 1)))"

text \<open>
  The loop with the limit read anew in each iteration (the firewall does; the limiter's is
  constant) and a list of events before the exchanges. The result is the word it stored, if
  any, and the word in the slot.
\<close>

fun window_loop :: "u64 cas_event list \<Rightarrow> u32 \<Rightarrow> (nat \<Rightarrow> u32) \<Rightarrow> nat \<Rightarrow> u64 \<Rightarrow> u64 \<Rightarrow> u64 option \<times> u64" where
  "window_loop [] now limit k current slot =
     (case window_next now (limit k) current of
        None \<Rightarrow> (None, slot)
      | Some v \<Rightarrow> if slot = current then (Some v, v)
                  else (case window_next now (limit (Suc k)) slot of
                          None \<Rightarrow> (None, slot) | Some v' \<Rightarrow> (Some v', v')))"
| "window_loop (e # es) now limit k current slot =
     (case window_next now (limit k) current of
        None \<Rightarrow> (None, slot)
      | Some v \<Rightarrow>
          (let slot' = cas_seen e slot in
           if e \<noteq> Spurious \<and> slot' = current then (Some v, v)
           else window_loop es now limit (Suc k) slot' slot'))"

definition window_hit :: "u32 \<Rightarrow> u32 \<Rightarrow> u64 \<Rightarrow> bool \<times> u64" where
  "window_hit limit now v =
     (case window_next now limit v of None \<Rightarrow> (False, v) | Some v' \<Rightarrow> (True, v'))"

lemma window_loop_calm:
  "window_loop [] now limit k v v = (window_next now (limit k) v, snd (window_hit (limit k) now v))"
  by (simp add: window_hit_def split: option.splits)

text \<open>Every run of the loop is one atomic hit on the value the slot held at its last attempt.\<close>

lemma window_loop_atomic:
  "\<exists>w k'. (w = v \<or> Overwrite w \<in> set es)
     \<and> window_loop es now limit k v v = (window_next now (limit k') w, snd (window_hit (limit k') now w))"
proof (induction es arbitrary: k v)
  case Nil
  then show ?case by (auto simp: window_hit_def split: option.splits)
next
  case (Cons e es)
  show ?case
  proof (cases "window_next now (limit k) v")
    case None
    then show ?thesis by (intro exI [of _ v] exI [of _ k]) (simp add: window_hit_def)
  next
    case (Some x)
    show ?thesis
    proof (cases "e \<noteq> Spurious \<and> cas_seen e v = v")
      case True
      with Some show ?thesis by (intro exI [of _ v] exI [of _ k]) (simp add: window_hit_def Let_def)
    next
      case False
      then have l: "window_loop (e # es) now limit k v v
          = window_loop es now limit (Suc k) (cas_seen e v) (cas_seen e v)"
        using Some by (auto simp: Let_def)
      have "cas_seen e v = v \<or> Overwrite (cas_seen e v) \<in> set (e # es)" by (cases e) simp_all
      with Cons.IH [where v = "cas_seen e v" and k = "Suc k"] show ?thesis
        unfolding l by (metis insert_iff list.set(2))
    qed
  qed
qed

section \<open>The contract of a fixed-window counter\<close>

fun count_hits :: "('s \<Rightarrow> bool \<times> 's) \<Rightarrow> nat \<Rightarrow> 's \<Rightarrow> nat \<times> 's" where
  "count_hits h 0 s = (0, s)"
| "count_hits h (Suc n) s =
     (case h s of (ok, s') \<Rightarrow> case count_hits h n s' of (m, s'') \<Rightarrow> ((if ok then 1 else 0) + m, s''))"

locale fixed_window =
  fixes win :: "'s \<Rightarrow> u32"
    and cnt :: "'s \<Rightarrow> u32"
    and hit :: "u32 \<Rightarrow> 's \<Rightarrow> bool \<times> 's"
    and limit :: u32
  assumes new_window: "win s \<noteq> now \<Longrightarrow>
      fst (hit now s) \<and> win (snd (hit now s)) = now \<and> cnt (snd (hit now s)) = 1"
    and below: "win s = now \<Longrightarrow> cnt s < limit \<Longrightarrow>
      fst (hit now s) \<and> win (snd (hit now s)) = now \<and> cnt (snd (hit now s)) = cnt s + 1"
    and full: "win s = now \<Longrightarrow> limit \<le> cnt s \<Longrightarrow> hit now s = (False, s)"
begin

lemma hits_in_window:
  assumes "win s = now" and "cnt s \<le> limit"
  shows "fst (count_hits (hit now) n s) = min n (unat limit - unat (cnt s))
       \<and> win (snd (count_hits (hit now) n s)) = now
       \<and> unat (cnt (snd (count_hits (hit now) n s))) = min (unat limit) (unat (cnt s) + n)"
  using assms
proof (induction n arbitrary: s)
  case 0
  then show ?case by (simp add: word_le_nat_alt)
next
  case (Suc n)
  show ?case
  proof (cases "cnt s < limit")
    case True
    obtain s' where h: "hit now s = (True, s')" "win s' = now" "cnt s' = cnt s + 1"
      using below [OF Suc.prems(1) True] by (cases "hit now s") auto
    have u: "unat (cnt s') = unat (cnt s) + 1" unfolding h(3) by (rule word_less_inc_unat [OF True])
    have "cnt s' \<le> limit" unfolding h(3) by (rule word_inc_le [OF True])
    from Suc.IH [OF h(2) this] u h(1) True show ?thesis
      by (auto simp: word_less_nat_alt split: prod.splits)
  next
    case False
    then have lim: "cnt s = limit" using Suc.prems(2) by simp
    then have "hit now s = (False, s)" using full [OF Suc.prems(1)] by simp
    with Suc.IH [OF Suc.prems] lim show ?thesis by (simp split: prod.splits)
  qed
qed

text \<open>\<open>n\<close> hits that open a window: exactly the first \<open>limit\<close> of them are admitted.\<close>

lemma hits_from_new_window:
  assumes "win s \<noteq> now" and "0 < limit"
  shows "fst (count_hits (hit now) n s) = min n (unat limit)"
proof (cases n)
  case (Suc m)
  obtain s' where h: "hit now s = (True, s')" "win s' = now" "cnt s' = 1"
    using new_window [OF assms(1)] by (cases "hit now s") auto
  have "cnt s' \<le> limit" unfolding h(3) using assms(2) by (simp add: word_le_nat_alt word_less_nat_alt)
  from hits_in_window [OF h(2) this, of m] h assms(2) show ?thesis
    by (auto simp: Suc word_less_nat_alt split: prod.splits)
qed simp

end

text \<open>The packed word with its exchange loop provides the contract.\<close>

interpretation packed: fixed_window window_ts_of window_count_of "window_hit limit" limit for limit
  by unfold_locales (auto simp: window_hit_def window_next_def not_le)

end
