(* ===== verification/Ring_Buffer.thy ===== *)
theory Ring_Buffer
  imports Gateway_Prelude "HOL-Library.Multiset"
begin

text \<open>
  The ring of recent observations that the baselines of the sentinel (\<open>baselines.rs\<close>, 256 values)
  and the entropy windows (\<open>entropy.rs\<close>, 32 values) keep: a vector of fixed size and the index of
  the next write. The contract says what a client may rely on: the contents are, in some order,
  the most recent values.
\<close>

lemma mset_rotate: "mset (rotate n xs) = mset xs"
proof -
  have "mset (rotate n xs) = mset (take (n mod length xs) xs @ drop (n mod length xs) xs)"
    by (simp only: rotate_drop_take mset_append add.commute)
  then show ?thesis by simp
qed

locale ring =
  fixes cap :: nat
    and contents :: "'s \<Rightarrow> 'a list"
    and pos :: "'s \<Rightarrow> nat"
    and put :: "'s \<Rightarrow> 'a \<Rightarrow> 's"
  assumes cap_pos: "0 < cap"
    and put_contents: "contents (put s v) = (contents s)[pos s := v]"
    and put_pos: "pos (put s v) = (pos s + 1) mod cap"
begin

lemma pos_run:
  assumes "pos s = 0"
  shows "pos (run put s vs) = length vs mod cap"
proof (induction vs rule: rev_induct)
  case Nil
  then show ?case by (simp add: assms)
next
  case (snoc v vs)
  then show ?case by (simp add: run_append put_pos mod_Suc_eq)
qed

text \<open>Slot \<open>j\<close> holds the last value whose number is \<open>j\<close> modulo the capacity.\<close>

lemma contents_run:
  assumes "pos s = 0" and "length (contents s) = cap" and "j < cap"
  shows "contents (run put s vs) ! j =
    (if length vs \<le> j then contents s ! j
     else vs ! (j + ((length vs - 1 - j) div cap) * cap))"
    and "length (contents (run put s vs)) = cap"
  using assms
proof (induction vs rule: rev_induct)
  case Nil
  { case 1 then show ?case by simp }
  { case 2 then show ?case by simp }
next
  case (snoc v vs)
  let ?n = "length vs"
  have p: "pos (run put s vs) = ?n mod cap" by (rule pos_run [OF assms(1)])
  { case 2
    then show ?case using snoc.IH(2) by (simp add: run_append put_contents) }
  { case 1
    have len: "length (contents (run put s vs)) = cap" using 1 snoc.IH(2) by simp
    have c: "contents (run put s (vs @ [v])) ! j = (if j = ?n mod cap then v else contents (run put s vs) ! j)"
      using 1(3) len by (simp add: run_append put_contents p nth_list_update)
    show ?case
    proof (cases "j = ?n mod cap")
      case True
      then have jn: "j \<le> ?n" by simp
      have "?n - j = ?n div cap * cap" using True by (simp add: minus_mod_eq_div_mult)
      then have "j + (length (vs @ [v]) - 1 - j) div cap * cap = ?n" using jn cap_pos by simp
      moreover have "\<not> length (vs @ [v]) \<le> j" using jn by simp
      ultimately show ?thesis using c True by (simp only: simp_thms if_False if_True nth_append_length)
    next
      case False
      show ?thesis
      proof (cases "?n \<le> j")
        case True
        then have "?n < j" using False 1(3) by (cases "?n = j") auto
        then show ?thesis using c False 1 snoc.IH(1) by simp
      next
        case jn: False
        have "\<not> cap dvd ?n - j"
        proof
          assume "cap dvd ?n - j"
          then have "?n mod cap = j mod cap" using jn by (simp add: mod_eq_dvd_iff_nat)
          then show False using False 1(3) by simp
        qed
        then have d: "(?n - j) div cap = (?n - 1 - j) div cap"
          using jn div_Suc [of "?n - 1 - j" cap] by (auto simp: dvd_eq_mod_eq_0 Suc_diff_Suc split: if_splits)
        have "j + (?n - 1 - j) div cap * cap \<le> ?n - 1"
          using jn div_times_less_eq_dividend [of "?n - 1 - j" cap] by linarith
        then have "j + (?n - 1 - j) div cap * cap < ?n" using jn by linarith
        then show ?thesis using c False jn d 1 snoc.IH(1) by (simp add: nth_append)
      qed
    qed }
qed

text \<open>Once full, the ring holds the last \<open>cap\<close> values and nothing older.\<close>

lemma contents_recent:
  assumes "pos s = 0" and "length (contents s) = cap" and "cap \<le> length vs"
  shows "contents (run put s vs)
    = rotate (cap - length vs mod cap) (drop (length vs - cap) vs)"
proof (rule nth_equalityI)
  let ?n = "length vs" and ?r = "length vs mod cap"
  show "length (contents (run put s vs)) = length (rotate (cap - ?r) (drop (?n - cap) vs))"
    using contents_run(2) [OF assms(1,2) cap_pos] assms(3) by simp
  fix j assume "j < length (contents (run put s vs))"
  then have j: "j < cap" using contents_run(2) [OF assms(1,2) cap_pos] by simp
  let ?i = "j + ((?n - 1 - j) div cap) * cap" and ?k = "?n - cap + (cap - ?r + j) mod cap"
  have "(?n - 1 - j) div cap * cap \<le> ?n - 1 - j" "?n - 1 - j < (?n - 1 - j) div cap * cap + cap"
    using cap_pos dividend_less_div_times [of cap "?n - 1 - j"] by (simp_all add: div_times_less_eq_dividend add.commute)
  then have i: "?i < ?n" "?n \<le> ?i + cap" using j assms(3) by linarith+
  have kb: "?k < ?n" "?n \<le> ?k + cap" using assms(3) cap_pos by (simp_all add: mod_less_divisor less_diff_conv2 Nat.le_diff_conv2)
  have "?k mod cap = (?n - cap + (cap - ?r + j)) mod cap" by (simp add: mod_add_right_eq)
  also have "?n - cap + (cap - ?r + j) = ?n - ?r + j"
    using assms(3) cap_pos mod_less_divisor [OF cap_pos, of ?n] by linarith
  also have "(?n - ?r + j) mod cap = j mod cap" by (simp add: minus_mod_eq_div_mult)
  finally have m: "?i mod cap = ?k mod cap" by simp
  have "?i = ?k"
  proof (cases "?i \<le> ?k")
    case True
    then show ?thesis using same_slot_close [OF m] i kb by linarith
  next
    case False
    then show ?thesis using same_slot_close [OF m [symmetric]] i kb by linarith
  qed
  then show "contents (run put s vs) ! j = rotate (cap - ?r) (drop (?n - cap) vs) ! j"
    using contents_run(1) [OF assms(1,2) j, of vs] assms(3) j by (simp add: nth_rotate)
qed

lemma mset_recent:
  assumes "pos s = 0" and "length (contents s) = cap" and "cap \<le> length vs"
  shows "mset (contents (run put s vs)) = mset (drop (length vs - cap) vs)"
  unfolding contents_recent [OF assms]
  by (rule mset_rotate)

lemma contents_filling:
  assumes "pos s = 0" and "length (contents s) = cap" and "length vs \<le> cap"
  shows "take (length vs) (contents (run put s vs)) = vs"
proof (rule nth_equalityI)
  show "length (take (length vs) (contents (run put s vs))) = length vs"
    using contents_run(2) [OF assms(1,2) cap_pos] assms(3) by simp
  fix j assume "j < length (take (length vs) (contents (run put s vs)))"
  then have j: "j < length vs" "j < cap" using assms(3) by auto
  then have "(length vs - 1 - j) div cap = 0" using assms(3) by (intro div_less) linarith
  then show "take (length vs) (contents (run put s vs)) ! j = vs ! j"
    using contents_run(1) [OF assms(1,2) j(2), of vs] j by simp
qed

end

end
