(* ===== verification/F64.thy ===== *)
theory F64
  imports Gateway_Prelude "HOL-Library.Log_Nat"
begin

text \<open>
  The \<open>f64\<close> arithmetic of the sources: IEEE 754 binary64 with round-to-nearest-even, written
  out on rationals so that the model computes. A value is finite (its exact rational), an
  infinity or not-a-number; the sign of a zero is not kept, since no operation of the sources
  can observe it. Every arithmetic operation rounds its exact result with \<open>fl\<close>, overflows
  included; casts between \<open>f64\<close> and integers are Rust's (\<open>as\<close> rounds to nearest one way and
  truncates with saturation the other way).

  The laws of rounding that the components use are the locale \<open>rounding\<close> below: monotone, odd,
  exact on the integers up to \<open>2^53\<close>. The rounding \<open>fl\<close> provides them.
\<close>

section \<open>Rounding\<close>

text \<open>Round to the nearest integer, ties to even.\<close>

definition rne :: "rat \<Rightarrow> int" where
  "rne x = (let f = \<lfloor>x\<rfloor>; d = x - of_int f in
            if d < 1 / 2 then f else if 1 / 2 < d then f + 1 else if even f then f else f + 1)"

text \<open>The binary exponent of a positive rational.\<close>

definition ilog2 :: "rat \<Rightarrow> int" where
  "ilog2 x = (if 1 \<le> x then bitlen \<lfloor>x\<rfloor> - 1 else - bitlen (\<lceil>1 / x\<rceil> - 1))"

text \<open>The spacing of the binary64 values around a number with the given exponent.\<close>

definition ulp :: "int \<Rightarrow> rat" where
  "ulp e = 2 powi (max (e - 52) (- 1074))"

definition fl :: "rat \<Rightarrow> rat" where
  "fl x = (if x = 0 then 0
           else let u = ulp (ilog2 \<bar>x\<bar>) in sgn x * (of_int (rne (\<bar>x\<bar> / u)) * u))"

lemma rne_of_int [simp]: "rne (of_int k) = k"
  by (simp add: rne_def)

lemma rne_bounds: "of_int \<lfloor>x\<rfloor> \<le> (of_int (rne x) :: rat) \<and> rne x \<le> \<lfloor>x\<rfloor> + 1"
  by (auto simp: rne_def Let_def)

lemma rne_mono: "x \<le> y \<Longrightarrow> rne x \<le> rne y"
proof (cases "\<lfloor>x\<rfloor> = \<lfloor>y\<rfloor>")
  case True
  assume "x \<le> y"
  with True show ?thesis by (auto simp: rne_def Let_def)
next
  case False
  assume "x \<le> y"
  then have "\<lfloor>x\<rfloor> + 1 \<le> \<lfloor>y\<rfloor>" using False floor_mono [of x y] by simp
  moreover have "rne x \<le> \<lfloor>x\<rfloor> + 1" "\<lfloor>y\<rfloor> \<le> rne y"
    using rne_bounds [of x] rne_bounds [of y] by auto
  ultimately show ?thesis by linarith
qed

lemma powi_add2: "(2 :: rat) powi (a + b) = 2 powi a * 2 powi b"
  by (rule power_int_add) simp

lemma powi_nat2: "0 \<le> a \<Longrightarrow> (2 :: rat) powi a = of_int (2 ^ nat a)"
  by (simp add: power_int_def)

lemma powi_mono2: "a \<le> b \<Longrightarrow> (2 :: rat) powi a \<le> 2 powi b"
  by (rule power_int_increasing) simp_all

lemma powi_less2: "(2 :: rat) powi a < 2 powi b \<Longrightarrow> a < b"
  using powi_mono2 [of b a] by (meson leD linorder_not_less)

lemma bitlen_pos: "0 < n \<Longrightarrow> 0 < bitlen n"
  by (simp add: bitlen_alt_def)

lemma bitlen_powi:
  assumes "0 < n"
  shows "2 powi (bitlen n - 1) \<le> (of_int n :: rat) \<and> (of_int n :: rat) < 2 powi bitlen n"
proof -
  have b: "2 ^ nat (bitlen n - 1) \<le> n" "n < 2 ^ nat (bitlen n)" "0 < bitlen n"
    using bitlen_bounds [OF assms] bitlen_pos [OF assms] by auto
  have "(of_int (2 ^ nat (bitlen n - 1)) :: rat) \<le> of_int n"
    using b(1) of_int_le_iff by blast
  moreover have "(of_int n :: rat) < of_int (2 ^ nat (bitlen n))"
    using b(2) of_int_less_iff by blast
  ultimately show ?thesis using b(3) by (simp add: powi_nat2)
qed

lemma ilog2_bounds:
  assumes "0 < x"
  shows "2 powi (ilog2 x) \<le> x \<and> x < 2 powi (ilog2 x + 1)"
proof (cases "1 \<le> x")
  case True
  let ?n = "\<lfloor>x\<rfloor>"
  have n: "0 < ?n" using True by linarith
  have b: "0 < bitlen ?n" using n by (rule bitlen_pos)
  have "(2 :: rat) powi bitlen ?n = of_int (2 ^ nat (bitlen ?n))" using b by (intro powi_nat2) simp
  moreover have "?n < 2 ^ nat (bitlen ?n)" using bitlen_bounds [OF n] by simp
  ultimately have "x < 2 powi bitlen ?n"
    by (metis floor_less_iff)
  moreover have "2 powi (bitlen ?n - 1) \<le> x"
    using bitlen_powi [OF n] of_int_floor_le [of x] by linarith
  ultimately show ?thesis using True by (simp add: ilog2_def)
next
  case False
  let ?n = "\<lceil>1 / x\<rceil> - 1"
  have gt: "1 < 1 / x" using assms False by simp
  then have n: "0 < ?n" by linarith
  have lo: "of_int ?n < 1 / x" and hi: "1 / x \<le> of_int ?n + 1" by linarith+
  have nn: "(2 :: rat) powi bitlen ?n = of_int (2 ^ nat (bitlen ?n))"
    by (intro powi_nat2 bitlen_nonneg)
  have "?n + 1 \<le> 2 ^ nat (bitlen ?n)" using bitlen_bounds [OF n] by simp
  then have "of_int (?n + 1) \<le> (2 :: rat) powi bitlen ?n" unfolding nn by (simp only: of_int_le_iff)
  with hi have a: "1 / x \<le> 2 powi bitlen ?n" by linarith
  have b: "2 powi (bitlen ?n - 1) < 1 / x" using bitlen_powi [OF n] lo by linarith
  have "2 powi (- bitlen ?n) \<le> x"
    using a assms by (simp add: power_int_minus field_simps)
  moreover have "x < 2 powi (- bitlen ?n + 1)"
  proof -
    have "x * 2 powi (bitlen ?n - 1) < 1" using b assms by (simp add: field_simps)
    then have "x < 1 / 2 powi (bitlen ?n - 1)" by (simp add: field_simps)
    also have "1 / 2 powi (bitlen ?n - 1) = (2 :: rat) powi (- bitlen ?n + 1)"
      using power_int_minus [of "2 :: rat" "bitlen ?n - 1"] by (simp add: field_simps)
    finally show ?thesis .
  qed
  ultimately show ?thesis using False by (simp add: ilog2_def)
qed

lemma ulp_pos [simp]: "0 < ulp e"
  by (simp add: ulp_def)

lemma fl_0 [simp]: "fl 0 = 0"
  by (simp add: fl_def)

lemma fl_minus: "fl (- x) = - fl x"
  by (simp add: fl_def Let_def sgn_minus)

lemma fl_pos: "0 < x \<Longrightarrow> fl x = of_int (rne (x / ulp (ilog2 x))) * ulp (ilog2 x)"
  by (simp add: fl_def Let_def)

lemma fl_nonneg: "0 \<le> x \<Longrightarrow> 0 \<le> fl x"
proof (cases "x = 0")
  case False
  assume "0 \<le> x"
  with False have x: "0 < x" by simp
  have "0 \<le> x / ulp (ilog2 x)" using x by (intro divide_nonneg_nonneg) (simp_all add: less_imp_le)
  then have "rne 0 \<le> rne (x / ulp (ilog2 x))" by (rule rne_mono)
  moreover have "rne 0 = 0" by (simp add: rne_def)
  ultimately show ?thesis unfolding fl_pos [OF x] by (intro mult_nonneg_nonneg) (simp_all add: less_imp_le)
qed simp

text \<open>A number on the grid of \<open>x\<close> bounds the rounding of \<open>x\<close> from the same side.\<close>

lemma fl_le_grid:
  assumes "0 < x" and "x \<le> of_int k * ulp (ilog2 x)"
  shows "fl x \<le> of_int k * ulp (ilog2 x)"
proof -
  have "x / ulp (ilog2 x) \<le> of_int k" using assms(2) by (simp add: pos_divide_le_eq)
  then have "rne (x / ulp (ilog2 x)) \<le> k" using rne_mono [of _ "of_int k"] by fastforce
  then show ?thesis unfolding fl_pos [OF assms(1)] by (intro mult_right_mono) (simp_all add: less_imp_le)
qed

lemma fl_ge_grid:
  assumes "0 < x" and "of_int k * ulp (ilog2 x) \<le> x"
  shows "of_int k * ulp (ilog2 x) \<le> fl x"
proof -
  have "of_int k \<le> x / ulp (ilog2 x)" using assms(2) by (simp add: pos_le_divide_eq)
  then have "k \<le> rne (x / ulp (ilog2 x))" using rne_mono [of "of_int k"] by fastforce
  then show ?thesis unfolding fl_pos [OF assms(1)] by (intro mult_right_mono) (simp_all add: less_imp_le)
qed

lemma powi_on_grid:
  assumes "max (e - 52) (- 1074) \<le> t"
  shows "\<exists>k. (2 :: rat) powi t = of_int k * ulp e"
proof -
  let ?g = "max (e - 52) (- 1074)"
  have "(2 :: rat) powi t = 2 powi (t - ?g) * 2 powi ?g" by (simp add: powi_add2 [symmetric])
  also have "2 powi (t - ?g) = (of_int (2 ^ nat (t - ?g)) :: rat)" using assms by (intro powi_nat2) simp
  finally show ?thesis by (auto simp: ulp_def)
qed

lemma fl_mono_pos:
  assumes "0 < x" and "x \<le> y"
  shows "fl x \<le> fl y"
proof -
  have y: "0 < y" using assms by simp
  have ex: "2 powi ilog2 x \<le> x" "x < 2 powi (ilog2 x + 1)" using ilog2_bounds [OF assms(1)] by auto
  have ey: "2 powi ilog2 y \<le> y" "y < 2 powi (ilog2 y + 1)" using ilog2_bounds [OF y] by auto
  have "2 powi ilog2 x < (2 :: rat) powi (ilog2 y + 1)" using ex(1) ey(2) assms(2) by linarith
  then have le: "ilog2 x \<le> ilog2 y" using powi_less2 by force
  show ?thesis
  proof (cases "ulp (ilog2 x) = ulp (ilog2 y)")
    case True
    have "rne (x / ulp (ilog2 x)) \<le> rne (y / ulp (ilog2 y))"
      unfolding True using assms(2) by (intro rne_mono divide_right_mono) (simp_all add: less_imp_le)
    then show ?thesis
      unfolding fl_pos [OF assms(1)] fl_pos [OF y] True
      by (intro mult_right_mono) (simp_all add: less_imp_le)
  next
    case False
    then have lt: "ilog2 x < ilog2 y" and g: "- 1074 < ilog2 y - 52"
      using le by (cases "ilog2 x = ilog2 y"; auto simp: ulp_def max_def split: if_splits)+
    have "x \<le> 2 powi ilog2 y"
      using ex(2) powi_mono2 [of "ilog2 x + 1" "ilog2 y"] lt by linarith
    moreover obtain k where k: "(2 :: rat) powi ilog2 y = of_int k * ulp (ilog2 x)"
      using powi_on_grid [of "ilog2 x" "ilog2 y"] lt g by auto
    ultimately have "fl x \<le> 2 powi ilog2 y" using fl_le_grid [OF assms(1)] by simp
    moreover obtain m where m: "(2 :: rat) powi ilog2 y = of_int m * ulp (ilog2 y)"
      using powi_on_grid [of "ilog2 y" "ilog2 y"] g by auto
    then have "2 powi ilog2 y \<le> fl y" using fl_ge_grid [OF y] ey(1) by simp
    ultimately show ?thesis by linarith
  qed
qed

lemma fl_mono: "x \<le> y \<Longrightarrow> fl x \<le> fl y"
proof -
  assume xy: "x \<le> y"
  consider "0 < x" | "x \<le> 0" "0 \<le> y" | "y < 0" using xy by linarith
  then show ?thesis
  proof cases
    case 1
    then show ?thesis using xy by (rule fl_mono_pos)
  next
    case 2
    then have "0 \<le> fl (- x)" and "0 \<le> fl y" by (simp_all add: fl_nonneg)
    then show ?thesis by (simp add: fl_minus)
  next
    case 3
    then have "fl (- y) \<le> fl (- x)" using xy by (intro fl_mono_pos) simp_all
    then show ?thesis by (simp add: fl_minus)
  qed
qed

text \<open>Numbers with a significand of at most 53 bits are not changed.\<close>

lemma fl_exact_pos:
  assumes "0 < m" and "m \<le> 2 ^ 53" and "- 1074 \<le> t"
  shows "fl (of_int m * 2 powi t) = of_int m * 2 powi t"
proof -
  let ?x = "(of_int m :: rat) * 2 powi t"
  have x: "0 < ?x" using assms(1) by simp
  have grid: "\<exists>k. ?x = of_int k * ulp (ilog2 ?x)"
  proof (cases "m = 2 ^ 53")
    case True
    have "?x = 2 powi (t + 53)" using True by (simp add: powi_add2)
    moreover have "max (ilog2 ?x - 52) (- 1074) \<le> t + 53"
      using ilog2_bounds [OF x] powi_less2 [of "ilog2 ?x" "t + 54"] assms(3) True
      by (simp add: powi_add2)
    ultimately show ?thesis using powi_on_grid by metis
  next
    case False
    have "of_int m < (2 :: rat) powi 53"
      using False assms(2) of_int_less_iff [of m "2 ^ 53", where ?'a = rat] by simp
    then have "?x < 2 powi (t + 53)" by (simp add: powi_add2)
    then have "2 powi ilog2 ?x < (2 :: rat) powi (t + 53)" using ilog2_bounds [OF x] by linarith
    then have "ilog2 ?x < t + 53" by (rule powi_less2)
    then obtain k where "(2 :: rat) powi t = of_int k * ulp (ilog2 ?x)"
      using powi_on_grid [of "ilog2 ?x" t] assms(3) by auto
    then have "?x = of_int (m * k) * ulp (ilog2 ?x)" by simp
    then show ?thesis by blast
  qed
  then obtain k where k: "?x = of_int k * ulp (ilog2 ?x)" by blast
  have "?x / ulp (ilog2 ?x) = of_int k"
    using k ulp_pos [of "ilog2 ?x"] by (metis nonzero_mult_div_cancel_right less_irrefl)
  then show ?thesis using fl_pos [OF x] k by simp
qed

lemma fl_of_int_exact: "\<bar>m\<bar> \<le> 2 ^ 53 \<Longrightarrow> fl (of_int m) = of_int m"
proof -
  assume m: "\<bar>m\<bar> \<le> 2 ^ 53"
  have pos: "fl (of_int k) = of_int k" if "0 < k" "k \<le> 2 ^ 53" for k
    using fl_exact_pos [OF that, of 0] by simp
  consider "m = 0" | "0 < m" | "m < 0" by linarith
  then show ?thesis
  proof cases
    case 3
    then have "fl (of_int (- m)) = of_int (- m)" using m by (intro pos) auto
    then show ?thesis by (simp add: fl_minus)
  qed (use pos m in auto)
qed

section \<open>The type and its operations\<close>

datatype f64 = Fin rat | PInf | NInf | NaN

text \<open>Rounding an exact result, with overflow to the infinities.\<close>

definition f64_of :: "rat \<Rightarrow> f64" where
  "f64_of x = (let r = fl x in
     if 2 ^ 1024 \<le> r then PInf else if r \<le> - (2 ^ 1024) then NInf else Fin r)"

definition F64_MAX :: f64 where
  "F64_MAX = Fin ((2 ^ 53 - 1) * 2 ^ 971)"

definition F64_EPSILON :: f64 where
  "F64_EPSILON = Fin (1 / 2 ^ 52)"

fun f_lt :: "f64 \<Rightarrow> f64 \<Rightarrow> bool" where
  "f_lt (Fin x) (Fin y) = (x < y)"
| "f_lt NaN _ = False"
| "f_lt _ NaN = False"
| "f_lt PInf _ = False"
| "f_lt _ NInf = False"
| "f_lt NInf _ = True"
| "f_lt (Fin _) PInf = True"

fun f_eq :: "f64 \<Rightarrow> f64 \<Rightarrow> bool" where
  "f_eq NaN _ = False"
| "f_eq x y = (x = y)"

definition f_le :: "f64 \<Rightarrow> f64 \<Rightarrow> bool" where
  "f_le x y = (f_lt x y \<or> f_eq x y)"

fun f_add :: "f64 \<Rightarrow> f64 \<Rightarrow> f64" where
  "f_add (Fin x) (Fin y) = f64_of (x + y)"
| "f_add NaN _ = NaN"
| "f_add _ NaN = NaN"
| "f_add PInf NInf = NaN"
| "f_add NInf PInf = NaN"
| "f_add PInf _ = PInf"
| "f_add NInf _ = NInf"
| "f_add _ y = y"

fun f_neg :: "f64 \<Rightarrow> f64" where
  "f_neg (Fin x) = Fin (- x)"
| "f_neg PInf = NInf"
| "f_neg NInf = PInf"
| "f_neg NaN = NaN"

definition f_sub :: "f64 \<Rightarrow> f64 \<Rightarrow> f64" where
  "f_sub x y = f_add x (f_neg y)"

text \<open>An infinity times a value of the given sign.\<close>

definition f_inf_sgn :: "rat \<Rightarrow> f64" where
  "f_inf_sgn s = (if 0 < s then PInf else if s < 0 then NInf else NaN)"

fun f_mul :: "f64 \<Rightarrow> f64 \<Rightarrow> f64" where
  "f_mul (Fin x) (Fin y) = f64_of (x * y)"
| "f_mul NaN _ = NaN"
| "f_mul _ NaN = NaN"
| "f_mul (Fin x) PInf = f_inf_sgn x"
| "f_mul (Fin x) NInf = f_inf_sgn (- x)"
| "f_mul PInf (Fin y) = f_inf_sgn y"
| "f_mul NInf (Fin y) = f_inf_sgn (- y)"
| "f_mul PInf PInf = PInf"
| "f_mul NInf NInf = PInf"
| "f_mul _ _ = NInf"

fun f_div :: "f64 \<Rightarrow> f64 \<Rightarrow> f64" where
  "f_div (Fin x) (Fin y) = (if y = 0 then f_inf_sgn x else f64_of (x / y))"
| "f_div NaN _ = NaN"
| "f_div _ NaN = NaN"
| "f_div (Fin x) _ = Fin 0"
| "f_div PInf (Fin y) = (if y < 0 then NInf else PInf)"
| "f_div NInf (Fin y) = (if y < 0 then PInf else NInf)"
| "f_div _ _ = NaN"

fun f_abs :: "f64 \<Rightarrow> f64" where
  "f_abs (Fin x) = Fin \<bar>x\<bar>"
| "f_abs NInf = PInf"
| "f_abs x = x"

text \<open>\<open>f64::max\<close> and \<open>f64::min\<close> return the other operand when one is not-a-number.\<close>

definition f_max :: "f64 \<Rightarrow> f64 \<Rightarrow> f64" where
  "f_max x y = (if x = NaN then y else if y = NaN then x else if f_lt x y then y else x)"

definition f_min :: "f64 \<Rightarrow> f64 \<Rightarrow> f64" where
  "f_min x y = (if x = NaN then y else if y = NaN then x else if f_lt y x then y else x)"

definition f_clamp :: "f64 \<Rightarrow> f64 \<Rightarrow> f64 \<Rightarrow> f64" where
  "f_clamp lo hi x = (if f_lt x lo then lo else if f_lt hi x then hi else x)"

fun f_is_finite :: "f64 \<Rightarrow> bool" where
  "f_is_finite (Fin _) = True"
| "f_is_finite _ = False"

fun f_ceil :: "f64 \<Rightarrow> f64" where
  "f_ceil (Fin x) = Fin (of_int \<lceil>x\<rceil>)"
| "f_ceil x = x"

text \<open>Casts. \<open>n as f64\<close> rounds; \<open>x as u64\<close> truncates towards zero and saturates.\<close>

definition f_of_nat :: "nat \<Rightarrow> f64" where
  "f_of_nat n = f64_of (of_nat n)"

definition f_of_int :: "int \<Rightarrow> f64" where
  "f_of_int n = f64_of (of_int n)"

definition f_of_word :: "'a::len word \<Rightarrow> f64" where
  "f_of_word w = f_of_nat (unat w)"

fun f_to_word :: "f64 \<Rightarrow> 'a::len word" where
  "f_to_word (Fin x) =
     (if x \<le> 0 then 0 else if 2 ^ LENGTH('a) \<le> x then - 1 else of_int \<lfloor>x\<rfloor>)"
| "f_to_word PInf = - 1"
| "f_to_word NInf = 0"
| "f_to_word NaN = 0"

text \<open>A decimal literal of the source denotes the nearest binary64 value.\<close>

definition lit :: "rat \<Rightarrow> f64" where
  "lit x = f64_of x"

section \<open>The laws of rounding, as an interface\<close>

text \<open>
  The numerical lemmas of the components rest on these laws only. \<open>top\<close> is the bound up to
  which integers are represented exactly.
\<close>

locale rounding =
  fixes rnd :: "rat \<Rightarrow> rat" and top :: int
  assumes mono: "x \<le> y \<Longrightarrow> rnd x \<le> rnd y"
    and odd_sym: "rnd (- x) = - rnd x"
    and exact_int: "\<bar>m\<bar> \<le> top \<Longrightarrow> rnd (of_int m) = of_int m"
    and top_pos: "1 \<le> top"
begin

lemma zero [simp]: "rnd 0 = 0"
  using exact_int [of 0] top_pos by simp

lemma one [simp]: "rnd 1 = 1"
  using exact_int [of 1] top_pos by simp

lemma exact_nat: "int n \<le> top \<Longrightarrow> rnd (of_nat n) = of_nat n"
  using exact_int [of "int n"] by simp

lemma nonneg: "0 \<le> x \<Longrightarrow> 0 \<le> rnd x"
  using mono [of 0 x] by simp

lemma le_nat: "x \<le> of_nat n \<Longrightarrow> int n \<le> top \<Longrightarrow> rnd x \<le> of_nat n"
  using mono [of x "of_nat n"] by (simp add: exact_nat)

lemma ge_nat: "of_nat n \<le> x \<Longrightarrow> int n \<le> top \<Longrightarrow> of_nat n \<le> rnd x"
  using mono [of "of_nat n" x] by (simp add: exact_nat)

lemma ratio_le_one: "0 \<le> a \<Longrightarrow> a \<le> b \<Longrightarrow> 0 \<le> rnd (a / b) \<and> rnd (a / b) \<le> 1"
proof -
  assume a: "0 \<le> a" "a \<le> b"
  have "0 \<le> a / b" using a by (intro divide_nonneg_nonneg) auto
  moreover have "a / b \<le> 1" using a by (auto simp: divide_le_eq_1 dual_order.order_iff_strict)
  ultimately have "0 \<le> a / b" "a / b \<le> 1" by auto
  then show ?thesis using nonneg mono [of "a / b" 1] by simp
qed

text \<open>A rounded weighted mean stays between the bounds of its parts.\<close>

lemma between: "of_nat lo \<le> x \<Longrightarrow> x \<le> of_nat hi \<Longrightarrow> int hi \<le> top \<Longrightarrow> lo \<le> hi \<Longrightarrow>
    of_nat lo \<le> rnd x \<and> rnd x \<le> of_nat hi"
  using le_nat [of x hi] ge_nat [of lo x] by simp

end

interpretation f64r: rounding fl "2 ^ 53"
  by unfold_locales (simp_all add: fl_mono fl_minus fl_of_int_exact)

lemma fl_lt_max: "\<bar>x\<bar> \<le> 2 ^ 100 \<Longrightarrow> \<bar>fl x\<bar> < 2 ^ 1024"
proof -
  assume x: "\<bar>x\<bar> \<le> 2 ^ 100"
  have e: "fl (2 ^ 100) = 2 ^ 100" using fl_exact_pos [of 1 100] by simp
  have "fl x \<le> 2 ^ 100" using fl_mono [of x "2 ^ 100"] x e by simp
  moreover have "- (2 ^ 100) \<le> fl x" using fl_mono [of "- (2 ^ 100)" x] x e by (simp add: fl_minus)
  ultimately have "\<bar>fl x\<bar> \<le> 2 ^ 100" by (simp add: abs_le_iff)
  also have "(2 ^ 100 :: rat) < 2 ^ 1024" by (rule power_strict_increasing) simp_all
  finally show ?thesis .
qed

lemma f64_of_small: "\<bar>x\<bar> \<le> 2 ^ 100 \<Longrightarrow> f64_of x = Fin (fl x)"
  using fl_lt_max [of x] by (auto simp: f64_of_def Let_def abs_less_iff)

lemma f_of_word_small:
  assumes "LENGTH('a) \<le> 100"
  shows "f_of_word (w :: 'a::len word) = Fin (fl (of_nat (unat w)))"
proof -
  have "unat w < 2 ^ LENGTH('a)" by (rule unsigned_less)
  also have "(2 :: nat) ^ LENGTH('a) \<le> 2 ^ 100" using assms by (rule power_increasing) simp
  finally have "(of_nat (unat w) :: rat) \<le> of_nat (2 ^ 100)" by (simp only: of_nat_le_iff less_imp_le)
  then have "\<bar>of_nat (unat w) :: rat\<bar> \<le> 2 ^ 100" by (simp only: abs_of_nat of_nat_power of_nat_numeral)
  then show ?thesis unfolding f_of_word_def f_of_nat_def by (rule f64_of_small)
qed

lemma f_of_u64: "f_of_word (w :: u64) = Fin (fl (of_nat (unat w)))"
  by (rule f_of_word_small) simp

lemma f_of_nat_exact: "n \<le> 2 ^ 53 \<Longrightarrow> f_of_nat n = Fin (of_nat n)"
proof -
  assume n: "n \<le> 2 ^ 53"
  have "(2 :: nat) ^ 53 \<le> 2 ^ 100" by (rule power_increasing) simp_all
  then have "(of_nat n :: rat) \<le> of_nat (2 ^ 100)" using n by (simp only: of_nat_le_iff)
  then have "f_of_nat n = Fin (fl (of_nat n))" by (simp add: f_of_nat_def f64_of_small)
  moreover have "fl (of_nat n) = of_nat n" using n by (intro f64r.exact_nat) simp
  ultimately show ?thesis by simp
qed

text \<open>Clamping keeps not-a-number: nothing else escapes the bounds.\<close>

definition f_within :: "rat \<Rightarrow> rat \<Rightarrow> f64 \<Rightarrow> bool" where
  "f_within lo hi x \<longleftrightarrow> (case x of Fin q \<Rightarrow> lo \<le> q \<and> q \<le> hi | _ \<Rightarrow> False)"

lemma f_clamp_within: "lo \<le> hi \<Longrightarrow> x \<noteq> NaN \<Longrightarrow> f_within lo hi (f_clamp (Fin lo) (Fin hi) x)"
  by (cases x) (auto simp: f_clamp_def f_within_def)

lemma f_clamp_NaN [simp]: "f_clamp lo hi NaN = NaN"
  by (cases lo; cases hi) (simp_all add: f_clamp_def)

lemma f_le_trans: "f_le x y \<Longrightarrow> f_le y z \<Longrightarrow> f_le x z"
  by (cases x; cases y; cases z) (auto simp: f_le_def)

lemma f_le_Fin [simp]: "f_le (Fin x) (Fin y) = (x \<le> y)"
  by (auto simp: f_le_def)

lemma f64_of_mono: "x \<le> y \<Longrightarrow> f_le (f64_of x) (f64_of y)"
  using fl_mono [of x y] by (auto simp: f64_of_def Let_def f_le_def not_le)

end
