(* ===== verification/Baselines.thy ===== *)
theory Baselines
  imports Ring_Buffer F64 "HOL-Library.Product_Lexorder"
begin

text \<open>
  Robust statistics on rings of observations: the self-calibrating baselines of
  \<open>rust-ext/src/baselines.rs\<close> (median and median absolute deviation of the last 256 values) and the
  entropy windows of \<open>rust-ext/src/entropy.rs\<close> (median of the last 32). Both rings are
  interpretations of the contract \<open>ring\<close>. The binary logarithm of the standard library is the
  parameter \<open>log2f\<close>.
\<close>

section \<open>Baselines\<close>

definition RING_CAP :: nat where [simp]: "RING_CAP = 256"

record MadBaseline =
  mb_buf :: "f64 list"
  mb_idx :: nat
  mb_filled :: nat

definition MadBaseline_new :: MadBaseline where
  "MadBaseline_new = \<lparr>mb_buf = replicate RING_CAP (Fin 0), mb_idx = 0, mb_filled = 0\<rparr>"

definition mb_observe :: "MadBaseline \<Rightarrow> f64 \<Rightarrow> MadBaseline" where
  "mb_observe b v =
     b\<lparr>mb_buf := (mb_buf b)[mb_idx b := v], mb_idx := (mb_idx b + 1) mod RING_CAP,
       mb_filled := min (mb_filled b + 1) RING_CAP\<rparr>"

definition mb_len :: "MadBaseline \<Rightarrow> nat" where
  "mb_len b = mb_filled b"

definition mb_is_empty :: "MadBaseline \<Rightarrow> bool" where
  "mb_is_empty b = (mb_filled b = 0)"

text \<open>
  \<open>sort_by(partial_cmp)\<close>: a stable sort in the order of the values. A not-a-number would compare
  equal to everything; none occurs among the values that are sorted.
\<close>

fun f_key :: "f64 \<Rightarrow> int \<times> rat" where
  "f_key NInf = (- 1, 0)"
| "f_key (Fin q) = (0, q)"
| "f_key PInf = (1, 0)"
| "f_key NaN = (2, 0)"

definition f_sort :: "f64 list \<Rightarrow> f64 list" where
  "f_sort = sort_key f_key"

text \<open>The middle of a sorted vector, or the mean of the two middle elements.\<close>

definition middle :: "f64 list \<Rightarrow> f64" where
  "middle vals =
     (if vals = [] then Fin 0
      else let mid = length vals div 2 in
        if length vals mod 2 = 1 then vals ! mid
        else f_div (f_add (vals ! (mid - 1)) (vals ! mid)) (Fin 2))"

definition median_of :: "f64 list \<Rightarrow> f64" where
  "median_of xs = middle (f_sort (filter f_is_finite xs))"

definition mad_of :: "f64 list \<Rightarrow> f64" where
  "mad_of xs = (let med = median_of xs in
     middle (f_sort (map (\<lambda>v. f_abs (f_sub v med)) (filter f_is_finite xs))))"

definition mb_median :: "MadBaseline \<Rightarrow> f64" where
  "mb_median b = median_of (take (mb_filled b) (mb_buf b))"

definition mb_mad :: "MadBaseline \<Rightarrow> f64" where
  "mb_mad b = mad_of (take (mb_filled b) (mb_buf b))"

definition mb_is_anomalous :: "MadBaseline \<Rightarrow> f64 \<Rightarrow> f64 \<Rightarrow> f64 \<Rightarrow> bool" where
  "mb_is_anomalous b v k fl_min =
     (if mb_filled b < 2 \<or> \<not> f_is_finite v \<or> f_le v fl_min then False
      else
        (let med = mb_median b; mad = mb_mad b;
             threshold = (if f_lt (Fin 0) mad
                          then f_add med (f_mul (f_mul k mad) (lit (14826 / 10000)))
                          else f_mul med (lit (3 / 2))) in
         f_lt (f_max threshold fl_min) v))"

interpretation mad_ring: ring RING_CAP mb_buf mb_idx mb_observe
  by unfold_locales (simp_all add: mb_observe_def)

section \<open>Entropy windows\<close>

definition WINDOW_SIZE :: nat where [simp]: "WINDOW_SIZE = 32"
definition MIN_HEALTHY_ENTROPY :: f64 where "MIN_HEALTHY_ENTROPY = Fin 1"
definition COLLAPSE_FACTOR :: f64 where "COLLAPSE_FACTOR = lit (3 / 10)"

record EntropyWindow =
  ew_values :: "f64 list"
  ew_idx :: nat

definition EntropyWindow_new :: EntropyWindow where
  "EntropyWindow_new = \<lparr>ew_values = replicate WINDOW_SIZE F64_MAX, ew_idx = 0\<rparr>"

definition entropy_median_of :: "f64 list \<Rightarrow> f64" where
  "entropy_median_of xs =
     (let vals = filter (\<lambda>v. v \<noteq> F64_MAX) xs in
      if vals = [] then Fin 0 else f_sort vals ! (length vals div 2))"

definition ew_median :: "EntropyWindow \<Rightarrow> f64" where
  "ew_median w = entropy_median_of (ew_values w)"

definition ew_put :: "EntropyWindow \<Rightarrow> f64 \<Rightarrow> EntropyWindow" where
  "ew_put w entropy = w\<lparr>ew_values := (ew_values w)[ew_idx w := entropy], ew_idx := (ew_idx w + 1) mod WINDOW_SIZE\<rparr>"

definition ew_observe :: "f64 \<Rightarrow> EntropyWindow \<Rightarrow> bool \<times> EntropyWindow" where
  "ew_observe entropy w =
     (let prev_med = ew_median w in
      (f_lt MIN_HEALTHY_ENTROPY prev_med \<and> f_lt entropy (f_mul prev_med COLLAPSE_FACTOR)
       \<and> f_lt entropy MIN_HEALTHY_ENTROPY,
       ew_put w entropy))"

interpretation entropy_ring: ring WINDOW_SIZE ew_values ew_idx ew_put
  by unfold_locales (simp_all add: ew_put_def)

text \<open>
  Shannon entropy: byte frequencies, and the sum of \<open>p log2 p\<close> over the bytes that occur, in
  byte order, negated.
\<close>

definition byte_freq :: "u8 list \<Rightarrow> nat \<Rightarrow> u64" where
  "byte_freq bytes b = of_nat (length (filter (\<lambda>x. unat x = b) bytes))"

definition shannon_entropy :: "(f64 \<Rightarrow> f64) \<Rightarrow> u8 list \<Rightarrow> f64" where
  "shannon_entropy log2f bytes =
     (if bytes = [] then Fin 0
      else
        let len = f_of_nat (length bytes);
            terms = map (\<lambda>f. let p = f_div (f_of_word f) len in f_mul p (log2f p))
                      (filter (\<lambda>f. 0 < f) (map (byte_freq bytes) [0..<256])) in
        f_neg (fold (\<lambda>t acc. f_add acc t) terms (Fin 0)))"

definition record_response_entropy ::
    "(f64 \<Rightarrow> f64) \<Rightarrow> string \<Rightarrow> u8 list \<Rightarrow> (string \<rightharpoonup> EntropyWindow) \<Rightarrow> bool \<times> (string \<rightharpoonup> EntropyWindow)" where
  "record_response_entropy log2f upstream body_sample windows =
     (let e = shannon_entropy log2f body_sample;
          w = (case windows upstream of Some w \<Rightarrow> w | None \<Rightarrow> EntropyWindow_new) in
      case ew_observe e w of (alert, w') \<Rightarrow> (alert, windows(upstream \<mapsto> w')))"

section \<open>Only the recent values count\<close>

lemma inj_f_key: "inj_on f_key A"
proof (rule inj_onI)
  fix x y assume "f_key x = f_key y"
  then show "x = y" by (cases x; cases y) auto
qed

lemma f_sort_mset: "mset xs = mset ys \<Longrightarrow> f_sort xs = f_sort ys"
  unfolding f_sort_def
  by (rule sort_key_inj_key_eq [OF _ inj_f_key]) simp_all

lemma median_of_mset: "mset xs = mset ys \<Longrightarrow> median_of xs = median_of ys"
  unfolding median_of_def by (rule arg_cong [where f = middle], rule f_sort_mset) (simp add: mset_filter)

lemma mad_of_mset: "mset xs = mset ys \<Longrightarrow> mad_of xs = mad_of ys"
  unfolding mad_of_def Let_def
  by (rule arg_cong [where f = middle], rule f_sort_mset) (simp add: mset_filter median_of_mset [of xs ys])

lemma filled_run: "mb_filled (run mb_observe MadBaseline_new vs) = min (length vs) RING_CAP"
  by (induction vs rule: rev_induct) (simp_all add: run_append mb_observe_def MadBaseline_new_def)

lemma mb_recent:
  "mset (take (mb_filled (run mb_observe MadBaseline_new vs)) (mb_buf (run mb_observe MadBaseline_new vs)))
   = mset (drop (length vs - RING_CAP) vs)"
proof -
  have i: "mb_idx MadBaseline_new = 0" "length (mb_buf MadBaseline_new) = RING_CAP"
    by (simp_all add: MadBaseline_new_def)
  show ?thesis
  proof (cases "length vs \<le> RING_CAP")
    case True
    then show ?thesis using mad_ring.contents_filling [OF i True] by (simp add: filled_run min_def)
  next
    case False
    then have le: "RING_CAP \<le> length vs" by simp
    have "length (mb_buf (run mb_observe MadBaseline_new vs)) = RING_CAP"
      using mad_ring.contents_run(2) [OF i mad_ring.cap_pos] .
    then show ?thesis using mad_ring.mset_recent [OF i le] le by (simp add: filled_run min_def)
  qed
qed

text \<open>A baseline is learned from the recent regime only. After any sequence of observations the
  median, the deviation and every anomaly verdict of a baseline are those of the last 256
  observations: whatever came before them has no influence.
\<close>
lemma baseline_forgets_old_regime:
  "mb_median (run mb_observe MadBaseline_new vs) = median_of (drop (length vs - RING_CAP) vs)
   \<and> mb_mad (run mb_observe MadBaseline_new vs) = mad_of (drop (length vs - RING_CAP) vs)
   \<and> mb_is_anomalous (run mb_observe MadBaseline_new vs) v k fmin
     = mb_is_anomalous (run mb_observe MadBaseline_new (drop (length vs - RING_CAP) vs)) v k fmin"
proof -
  have med: "mb_median (run mb_observe MadBaseline_new us) = median_of (drop (length us - RING_CAP) us)"
    and mad: "mb_mad (run mb_observe MadBaseline_new us) = mad_of (drop (length us - RING_CAP) us)" for us
    unfolding mb_median_def mb_mad_def by (rule median_of_mset [OF mb_recent], rule mad_of_mset [OF mb_recent])
  let ?r = "drop (length vs - RING_CAP) vs"
  have d: "drop (length ?r - RING_CAP) ?r = ?r" by simp
  have f: "mb_filled (run mb_observe MadBaseline_new ?r) = mb_filled (run mb_observe MadBaseline_new vs)"
    by (simp add: filled_run min_def)
  show ?thesis unfolding mb_is_anomalous_def med mad d f by blast
qed

end
