(* ===== verification/Sentinel.thy ===== *)
theory Sentinel
  imports Baselines Backpressure
begin

text \<open>
  The posture state machine of \<open>rust-ext/src/sentinel.rs\<close>: the pure target computation, the
  level register with its effects, and the loop of the sampling thread. The mutex around the
  baselines is part of the state: a call to \<open>lock\<close> looks at it, and waits for ever when the guard
  it waits for belongs to the same thread. A thread is therefore a function from states that
  either returns or says in which state it waits.
\<close>

section \<open>Posture\<close>

definition L0_NORMAL :: u8 where [simp]: "L0_NORMAL = 0"
definition L2_ELEVATED :: u8 where [simp]: "L2_ELEVATED = 2"
definition L3_GUARDED :: u8 where [simp]: "L3_GUARDED = 3"
definition L4_LOCKDOWN :: u8 where [simp]: "L4_LOCKDOWN = 4"

record posture_state =
  posture :: u8
  posture_since_ms :: u64
  transitions_total :: u64

definition shed_anonymous :: "posture_state \<Rightarrow> bool" where
  "shed_anonymous p = (L3_GUARDED \<le> posture p)"

definition waf_budget_factor :: "posture_state \<Rightarrow> f64" where
  "waf_budget_factor p =
     (if L4_LOCKDOWN \<le> posture p then Fin (1 / 4)
      else if L2_ELEVATED \<le> posture p then Fin (1 / 2) else Fin 1)"

definition set_level :: "u8 \<Rightarrow> u64 \<Rightarrow> posture_state \<Rightarrow> bool \<times> posture_state" where
  "set_level new now p =
     (if posture p \<noteq> new
      then (True, p\<lparr>posture := new, posture_since_ms := now, transitions_total := transitions_total p + 1\<rparr>)
      else (False, p))"

section \<open>The target of the signals\<close>

record Signals =
  sg_down_ratio :: f64
  sg_global_cb_state :: u8
  sg_waf_blocks :: u64
  sg_server_errors :: u64
  sg_requests :: u64
  sg_saturation :: f64

record Thresholds =
  down_ratio_major :: f64
  down_ratio_minor :: f64
  error_rate_major :: f64
  error_rate_minor :: f64
  waf_blocks_major :: u64
  waf_blocks_minor :: u64
  saturation_major :: f64
  saturation_minor :: f64

definition Thresholds_default :: Thresholds where
  "Thresholds_default =
     \<lparr>down_ratio_major = lit (1 / 2), down_ratio_minor = lit (1 / 4),
      error_rate_major = lit (20 / 100), error_rate_minor = lit (5 / 100),
      waf_blocks_major = 200, waf_blocks_minor = 50,
      saturation_major = lit (95 / 100), saturation_minor = lit (80 / 100)\<rparr>"

definition sg_err_rate :: "Signals \<Rightarrow> f64" where
  "sg_err_rate s = (if 0 < sg_requests s
     then f_div (f_of_word (sg_server_errors s)) (f_of_word (sg_requests s)) else Fin 0)"

text \<open>The triggers of one signal: (major, minor), at most one of them.\<close>

definition health_trigger :: "Signals \<Rightarrow> Thresholds \<Rightarrow> nat \<times> nat" where
  "health_trigger s t =
     (if f_le (down_ratio_major t) (sg_down_ratio s)
         \<or> 100 < sg_requests s \<and> f_le (error_rate_major t) (sg_err_rate s) then (1, 0)
      else if f_le (down_ratio_minor t) (sg_down_ratio s)
         \<or> 100 < sg_requests s \<and> f_le (error_rate_minor t) (sg_err_rate s) then (0, 1)
      else (0, 0))"

definition cb_trigger :: "Signals \<Rightarrow> nat \<times> nat" where
  "cb_trigger s = (if sg_global_cb_state s = 1 then (0, 1) else (0, 0))"

definition waf_trigger :: "Signals \<Rightarrow> Thresholds \<Rightarrow> nat \<times> nat" where
  "waf_trigger s t = (if waf_blocks_major t \<le> sg_waf_blocks s then (1, 0)
                      else if waf_blocks_minor t \<le> sg_waf_blocks s then (0, 1) else (0, 0))"

definition saturation_trigger :: "Signals \<Rightarrow> Thresholds \<Rightarrow> nat \<times> nat" where
  "saturation_trigger s t = (if f_le (saturation_major t) (sg_saturation s) then (1, 0)
                             else if f_le (saturation_minor t) (sg_saturation s) then (0, 1) else (0, 0))"

definition compute_target :: "Signals \<Rightarrow> Thresholds \<Rightarrow> u8" where
  "compute_target s t =
     (let (h1, h2) = health_trigger s t; (c1, c2) = cb_trigger s;
          (w1, w2) = waf_trigger s t; (s1, s2) = saturation_trigger s t;
          major = h1 + c1 + w1 + s1; minor = h2 + c2 + w2 + s2 in
      if 0 < major then (if 2 \<le> major then L4_LOCKDOWN else L3_GUARDED)
      else if 2 \<le> minor then L3_GUARDED
      else if minor = 1 then L2_ELEVATED
      else L0_NORMAL)"

section \<open>The mutex around the baselines\<close>

record BaselineSet =
  bl_waf :: MadBaseline
  bl_errors :: MadBaseline
  bl_saturation :: MadBaseline

text \<open>
  The mutex \<open>BASELINES\<close>: whether its guard is alive, and the data behind it. It is private to the
  module and only the sampling thread locks it, so a guard that is alive belongs to that thread.
\<close>

record baselines_mutex =
  bm_held :: bool
  bm_data :: BaselineSet

definition BASELINES_init :: baselines_mutex where
  "BASELINES_init = \<lparr>bm_held = False,
     bm_data = \<lparr>bl_waf = MadBaseline_new, bl_errors = MadBaseline_new, bl_saturation = MadBaseline_new\<rparr>\<rparr>"

text \<open>What the thread samples each second, and the state it keeps between the seconds.\<close>

record sentinel_sample =
  sp_now_ms :: u64
  sp_waf_total :: u64
  sp_requests_5xx :: u64
  sp_requests_total :: u64
  sp_down_ratio :: f64
  sp_cb_state :: u8
  sp_saturation :: f64

record sentinel_state =
  st_posture :: posture_state
  st_baselines :: baselines_mutex
  prev_waf :: u64
  prev_5xx :: u64
  prev_req :: u64
  last_raise_ms :: u64
  clean_minutes :: u32

text \<open>
  Code of the thread: it returns a value in a new state, or it waits for ever in a state.
\<close>

datatype 'a thread = Returns 'a sentinel_state | Waits sentinel_state

primrec and_then :: "'a thread \<Rightarrow> ('a \<Rightarrow> sentinel_state \<Rightarrow> 'b thread) \<Rightarrow> 'b thread" where
  "and_then (Returns x st) k = k x st"
| "and_then (Waits st) k = Waits st"

primrec thread_state :: "'a thread \<Rightarrow> sentinel_state" where
  "thread_state (Returns x st) = st"
| "thread_state (Waits st) = st"

definition set_held :: "bool \<Rightarrow> sentinel_state \<Rightarrow> sentinel_state" where
  "set_held b st = st\<lparr>st_baselines := (st_baselines st)\<lparr>bm_held := b\<rparr>\<rparr>"

text \<open>\<open>lock\<close> returns when no guard is alive; the end of a guard's scope is \<open>unlock\<close>.\<close>

definition lock_baselines :: "sentinel_state \<Rightarrow> unit thread" where
  "lock_baselines st = (if bm_held (st_baselines st) then Waits st else Returns () (set_held True st))"

definition unlock_baselines :: "sentinel_state \<Rightarrow> unit thread" where
  "unlock_baselines st = Returns () (set_held False st)"

text \<open>A question to the baselines under a guard of its own, which lives as long as the question.\<close>

definition ask_baselines :: "(BaselineSet \<Rightarrow> bool) \<Rightarrow> sentinel_state \<Rightarrow> bool thread" where
  "ask_baselines q st =
     and_then (lock_baselines st) (\<lambda>_ st1.
     let answer = q (bm_data (st_baselines st1)) in
     and_then (unlock_baselines st1) (\<lambda>_. Returns answer))"

definition anomalous_waf :: "u64 \<Rightarrow> sentinel_state \<Rightarrow> bool thread" where
  "anomalous_waf v = ask_baselines (\<lambda>bl. mb_is_anomalous (bl_waf bl) (f_of_word v) (Fin 6) (Fin 50))"

definition anomalous_errors :: "u64 \<Rightarrow> u64 \<Rightarrow> sentinel_state \<Rightarrow> bool thread" where
  "anomalous_errors v requests st =
     (if requests < 100 then Returns False st
      else
        (let rate = f_div (f_of_word v) (f_of_word requests);
             errors_over = (\<lambda>floor. ask_baselines (\<lambda>bl. mb_is_anomalous (bl_errors bl) (f_of_word v) (Fin 6) (Fin floor))) in
         and_then (if f_le (lit (5 / 100)) rate then errors_over 20 st else Returns False st)
           (\<lambda>first st1. if first then Returns True st1 else errors_over 200 st1)))"

definition anomalous_saturation :: "f64 \<Rightarrow> sentinel_state \<Rightarrow> bool thread" where
  "anomalous_saturation v = ask_baselines (\<lambda>bl. mb_is_anomalous (bl_saturation bl) v (Fin 4) (lit (80 / 100)))"

definition backpressure_saturation :: "usize \<Rightarrow> int \<Rightarrow> f64" where
  "backpressure_saturation max_concurrency in_flight =
     f_min (f_div (f_of_int in_flight) (f_of_word (max max_concurrency 1))) (Fin (3 / 2))"

section \<open>The sampling thread\<close>

text \<open>The values are recorded through the guard \<open>bl\<close> of the block.\<close>

definition observe_baselines :: "u64 \<Rightarrow> u64 \<Rightarrow> f64 \<Rightarrow> sentinel_state \<Rightarrow> unit thread" where
  "observe_baselines waf_delta err_delta saturation st =
     (let m = st_baselines st; bl = bm_data m in
      Returns () (st\<lparr>st_baselines := m\<lparr>bm_data :=
        bl\<lparr>bl_waf := mb_observe (bl_waf bl) (f_of_word waf_delta),
           bl_errors := mb_observe (bl_errors bl) (f_of_word err_delta),
           bl_saturation := mb_observe (bl_saturation bl) saturation\<rparr>\<rparr>\<rparr>))"

text \<open>The block that locks the baselines, asks for the verdicts and records the values.\<close>

definition judge_and_observe ::
    "u64 \<Rightarrow> u64 \<Rightarrow> u64 \<Rightarrow> f64 \<Rightarrow> sentinel_state \<Rightarrow> (bool \<times> bool \<times> bool) thread" where
  "judge_and_observe waf_delta err_delta req_delta saturation st =
     and_then (lock_baselines st) (\<lambda>_ st1.
     and_then (anomalous_waf waf_delta st1) (\<lambda>waf_anom st2.
     and_then (anomalous_errors err_delta req_delta st2) (\<lambda>err_anom st3.
     and_then (anomalous_saturation saturation st3) (\<lambda>sat_anom st4.
     and_then (observe_baselines waf_delta err_delta saturation st4) (\<lambda>_ st5.
     and_then (unlock_baselines st5) (\<lambda>_.
       Returns (waf_anom, err_anom, sat_anom)))))))"

text \<open>The hysteresis: raise at once, decay by one level after a clean minute.\<close>

definition update_posture :: "u64 \<Rightarrow> u64 \<Rightarrow> u8 \<Rightarrow> sentinel_state \<Rightarrow> sentinel_state" where
  "update_posture now set_ms target st =
     (let p = st_posture st; current = posture p in
      if current < target then
        (case set_level target set_ms p of
           (True, p') \<Rightarrow> st\<lparr>st_posture := p', last_raise_ms := now, clean_minutes := 0\<rparr>
         | (False, p') \<Rightarrow> st\<lparr>st_posture := p'\<rparr>)
      else if target < current then
        (if 60000 \<le> sat_sub now (last_raise_ms st) \<and> 60000 \<le> sat_sub now (posture_since_ms p) then
           (let cm = clean_minutes st + 1 in
            if 1 \<le> cm
            then st\<lparr>st_posture := snd (set_level (max (current - 1) target) set_ms p), clean_minutes := 0\<rparr>
            else st\<lparr>clean_minutes := cm\<rparr>)
         else st)
      else st)"

definition sentinel_iteration :: "sentinel_sample \<Rightarrow> u64 \<Rightarrow> sentinel_state \<Rightarrow> unit thread" where
  "sentinel_iteration sp set_ms st =
     (let waf_delta = sat_sub (sp_waf_total sp) (prev_waf st);
          err_delta = sat_sub (sp_requests_5xx sp) (prev_5xx st);
          req_delta = sat_sub (sp_requests_total sp) (prev_req st);
          st1 = st\<lparr>prev_waf := sp_waf_total sp, prev_5xx := sp_requests_5xx sp, prev_req := sp_requests_total sp\<rparr> in
      and_then (judge_and_observe waf_delta err_delta req_delta (sp_saturation sp) st1)
        (\<lambda>(waf_anom, err_anom, sat_anom) st2.
           let signals = \<lparr>sg_down_ratio = sp_down_ratio sp, sg_global_cb_state = sp_cb_state sp,
                          sg_waf_blocks = waf_delta, sg_server_errors = err_delta,
                          sg_requests = req_delta, sg_saturation = sp_saturation sp\<rparr>;
               target0 = compute_target signals Thresholds_default;
               target = (if target0 < L2_ELEVATED \<and> (waf_anom \<or> err_anom \<or> sat_anom)
                         then L2_ELEVATED else target0) in
           Returns () (update_posture (sp_now_ms sp) set_ms target st2)))"

text \<open>
  The loop, over what it would sample in each second and the clock that \<open>set_level\<close> would read.
\<close>

primrec sentinel_loop :: "(sentinel_sample \<times> u64) list \<Rightarrow> sentinel_state \<Rightarrow> unit thread" where
  "sentinel_loop [] st = Returns () st"
| "sentinel_loop (x # xs) st = and_then (sentinel_iteration (fst x) (snd x) st) (\<lambda>_. sentinel_loop xs)"

definition sentinel_start :: sentinel_state where
  "sentinel_start =
     \<lparr>st_posture = \<lparr>posture = 0, posture_since_ms = 0, transitions_total = 0\<rparr>,
      st_baselines = BASELINES_init,
      prev_waf = 0, prev_5xx = 0, prev_req = 0, last_raise_ms = 0, clean_minutes = 0\<rparr>"

section \<open>More alarming signals never lower the target\<close>

text \<open>Two pairs of trigger counts, the second at least as severe as the first.\<close>

definition trig_le :: "nat \<times> nat \<Rightarrow> nat \<times> nat \<Rightarrow> bool" where
  "trig_le p q \<longleftrightarrow> fst p \<le> fst q \<and> fst p + snd p \<le> fst q + snd q"

definition level_of :: "nat \<Rightarrow> nat \<Rightarrow> u8" where
  "level_of major minor =
     (if 0 < major then (if 2 \<le> major then L4_LOCKDOWN else L3_GUARDED)
      else if 2 \<le> minor then L3_GUARDED else if minor = 1 then L2_ELEVATED else L0_NORMAL)"

lemma level_of_mono: "a \<le> c \<Longrightarrow> a + b \<le> c + d \<Longrightarrow> level_of a b \<le> level_of c d"
  by (auto simp: level_of_def)

lemma compute_target_level:
  "compute_target s t =
     level_of (fst (health_trigger s t) + fst (cb_trigger s) + fst (waf_trigger s t) + fst (saturation_trigger s t))
       (snd (health_trigger s t) + snd (cb_trigger s) + snd (waf_trigger s t) + snd (saturation_trigger s t))"
  by (cases "health_trigger s t"; cases "cb_trigger s"; cases "waf_trigger s t"; cases "saturation_trigger s t")
    (simp add: compute_target_def level_of_def Let_def)

definition sig_le :: "Signals \<Rightarrow> Signals \<Rightarrow> bool" where
  "sig_le s s' \<longleftrightarrow>
     f_le (sg_down_ratio s) (sg_down_ratio s') \<and> f_le (sg_saturation s) (sg_saturation s')
   \<and> sg_waf_blocks s \<le> sg_waf_blocks s' \<and> sg_server_errors s \<le> sg_server_errors s'
   \<and> sg_requests s = sg_requests s' \<and> (sg_global_cb_state s = 1 \<longrightarrow> sg_global_cb_state s' = 1)"

lemma err_rate_mono:
  assumes "sg_server_errors s \<le> sg_server_errors s'" and "sg_requests s = sg_requests s'"
  shows "f_le (sg_err_rate s) (sg_err_rate s')"
proof (cases "0 < sg_requests s'")
  case True
  have le: "fl (of_nat (unat (sg_server_errors s))) \<le> fl (of_nat (unat (sg_server_errors s')))"
    using assms(1) by (intro fl_mono) (simp only: word_le_nat_alt of_nat_le_iff)
  have "1 \<le> unat (sg_requests s')" using True by (simp add: word_less_nat_alt Suc_leI)
  then have "of_nat 1 \<le> fl (of_nat (unat (sg_requests s')))"
    by (intro f64r.ge_nat) (simp_all only: of_nat_le_iff, simp)
  then have "0 < fl (of_nat (unat (sg_requests s')))" by simp
  with True le show ?thesis
    by (simp add: sg_err_rate_def assms(2) f_of_u64 f64_of_mono divide_right_mono)
next
  case False
  then show ?thesis by (simp add: sg_err_rate_def assms(2))
qed

lemma triggers_mono:
  assumes "sig_le s s'"
  shows "trig_le (health_trigger s t) (health_trigger s' t)" "trig_le (cb_trigger s) (cb_trigger s')"
    "trig_le (waf_trigger s t) (waf_trigger s' t)" "trig_le (saturation_trigger s t) (saturation_trigger s' t)"
proof -
  have d: "f_le x (sg_down_ratio s) \<Longrightarrow> f_le x (sg_down_ratio s')"
    and a: "f_le x (sg_saturation s) \<Longrightarrow> f_le x (sg_saturation s')"
    and r: "f_le x (sg_err_rate s) \<Longrightarrow> f_le x (sg_err_rate s')" for x
    using assms f_le_trans err_rate_mono [of s s'] by (auto simp: sig_le_def)
  show "trig_le (health_trigger s t) (health_trigger s' t)"
    using assms d r by (auto simp: trig_le_def health_trigger_def sig_le_def)
  show "trig_le (cb_trigger s) (cb_trigger s')"
    using assms by (auto simp: trig_le_def cb_trigger_def sig_le_def)
  show "trig_le (waf_trigger s t) (waf_trigger s' t)"
    using assms by (auto simp: trig_le_def waf_trigger_def sig_le_def)
  show "trig_le (saturation_trigger s t) (saturation_trigger s' t)"
    using a by (auto simp: trig_le_def saturation_trigger_def)
qed

text \<open>The target posture is monotone: with the same number of requests, signals that are at least
  as alarming in every component never give a lower target, whatever the thresholds are.
\<close>
lemma target_monotone:
  assumes "sig_le s s'"
  shows "compute_target s t \<le> compute_target s' t"
  unfolding compute_target_level
  using triggers_mono(1,3,4) [OF assms, of t] triggers_mono(2) [OF assms] by (intro level_of_mono) (auto simp: trig_le_def)

lemma target_monotone_witness:
  "compute_target \<lparr>sg_down_ratio = Fin 0, sg_global_cb_state = 0, sg_waf_blocks = 60, sg_server_errors = 1,
       sg_requests = 500, sg_saturation = Fin 0\<rparr> Thresholds_default
   \<le> compute_target \<lparr>sg_down_ratio = Fin 0, sg_global_cb_state = 1, sg_waf_blocks = 250, sg_server_errors = 1,
       sg_requests = 500, sg_saturation = Fin 0\<rparr> Thresholds_default"
  by (rule target_monotone) (simp add: sig_le_def)

text \<open>The hysteresis of the posture. An update to a higher target takes effect at once; an update
  to a lower one changes nothing unless 60 s have passed since the last raise and since the last
  transition, and then lowers the level by exactly one step, never below the target.
\<close>
lemma posture_hysteresis:
  assumes "clean_minutes st = 0"
  shows "let p = posture (st_posture st); st' = update_posture now set_ms target st; p' = posture (st_posture st');
       settled = (60000 \<le> sat_sub now (last_raise_ms st) \<and> 60000 \<le> sat_sub now (posture_since_ms (st_posture st))) in
     clean_minutes st' = 0
   \<and> (if p < target then p' = target \<and> last_raise_ms st' = now
      else if target < p \<and> settled then p' = p - 1 \<and> target \<le> p' \<and> p' < p
      else st' = st)"
proof -
  let ?p = "posture (st_posture st)"
  have step: "target \<le> ?p - 1" "?p - 1 < ?p" if "target < ?p"
  proof -
    have "unat (?p - 1) = unat ?p - 1" using that by (simp add: unat_minus_one word_neq_0_conv word_less_nat_alt)
    then show "target \<le> ?p - 1" "?p - 1 < ?p"
      using that by (simp_all add: word_le_nat_alt word_less_nat_alt)
  qed
  have "max (?p - 1) target = ?p - 1" if "target < ?p" using step [OF that] by (simp add: max_def)
  moreover have "?p - 1 \<noteq> ?p" by simp
  ultimately show ?thesis
    using step assms by (auto simp: Let_def update_posture_def set_level_def)
qed

definition demo_sentinel :: sentinel_state where
  "demo_sentinel = sentinel_start\<lparr>st_posture := \<lparr>posture = 4, posture_since_ms = 1000, transitions_total = 1\<rparr>,
     last_raise_ms := 1000\<rparr>"

lemma posture_hysteresis_witness:
  "posture (st_posture (update_posture 70000 70000 0 demo_sentinel)) = 3"
  using posture_hysteresis [of demo_sentinel 70000 70000 0]
  by (simp add: demo_sentinel_def sentinel_start_def Let_def sat_sub_def)

section \<open>The thread waits for its own lock\<close>

text \<open>Alone, a verdict leaves the mutex as free as it found it, and it never changes the state.\<close>

lemma ask_free:
  "\<not> bm_held (st_baselines st) \<Longrightarrow>
   ask_baselines q st = Returns (q (bm_data (st_baselines st))) st"
  by (simp add: ask_baselines_def lock_baselines_def unlock_baselines_def set_held_def Let_def)

lemma ask_held: "bm_held (st_baselines st) \<Longrightarrow> ask_baselines q st = Waits st"
  by (simp add: ask_baselines_def lock_baselines_def)

lemma verdicts_free:
  assumes "\<not> bm_held (st_baselines st)"
  shows "\<exists>b. anomalous_waf v st = Returns b st" and "\<exists>b. anomalous_errors v n st = Returns b st"
    and "\<exists>b. anomalous_saturation x st = Returns b st"
  using assms by (auto simp: anomalous_waf_def anomalous_errors_def anomalous_saturation_def ask_free Let_def)

text \<open>With its guard alive, the first verdict of the block never returns.\<close>

lemma judge_waits: "judge_and_observe waf_delta err_delta req_delta saturation st = Waits (set_held True st)"
  by (simp add: judge_and_observe_def lock_baselines_def anomalous_waf_def ask_held set_held_def)

lemma iteration_waits:
  "sentinel_iteration sp set_ms st =
     Waits (set_held True (st\<lparr>prev_waf := sp_waf_total sp, prev_5xx := sp_requests_5xx sp,
                             prev_req := sp_requests_total sp\<rparr>))"
  by (simp add: sentinel_iteration_def Let_def judge_waits)

text \<open>(C24)
  The sampling thread stops at its first sample. It locks the baselines, and the first verdict,
  which locks the same mutex, waits for the guard the thread itself holds. Whatever it samples in
  however many seconds, after the first one the thread waits with the mutex locked; the posture,
  its time and the number of transitions are those of the start, nothing was ever recorded in the
  baselines, so anonymous requests are never shed and the budget of the firewall stays whole.
\<close>
theorem sentinel_iteration_never_completes:
  "sentinel_loop samples sentinel_start =
     (case samples of
        [] \<Rightarrow> Returns () sentinel_start
      | (sp, set_ms) # later \<Rightarrow>
          Waits (sentinel_start\<lparr>st_baselines := BASELINES_init\<lparr>bm_held := True\<rparr>,
            prev_waf := sp_waf_total sp, prev_5xx := sp_requests_5xx sp, prev_req := sp_requests_total sp\<rparr>))
   \<and> (let p = st_posture (thread_state (sentinel_loop samples sentinel_start)) in
        posture p = L0_NORMAL \<and> posture_since_ms p = 0 \<and> transitions_total p = 0
      \<and> \<not> shed_anonymous p \<and> waf_budget_factor p = Fin 1)"
proof -
  have loop: "sentinel_loop samples sentinel_start =
     (case samples of [] \<Rightarrow> Returns () sentinel_start
      | (sp, set_ms) # later \<Rightarrow> Waits (sentinel_start\<lparr>st_baselines := BASELINES_init\<lparr>bm_held := True\<rparr>,
          prev_waf := sp_waf_total sp, prev_5xx := sp_requests_5xx sp, prev_req := sp_requests_total sp\<rparr>))"
    by (cases samples) (auto simp: iteration_waits set_held_def sentinel_start_def BASELINES_init_def)
  then show ?thesis
    by (auto simp: sentinel_start_def shed_anonymous_def waf_budget_factor_def split: list.split)
qed

end
