(* ===== verification/Std_Parse.thy ===== *)
theory Std_Parse
  imports F64
begin

text \<open>
  The parsing functions of the Rust standard library that the sources call on environment
  variables and header values: \<open>str::parse\<close> for unsigned integers and for \<open>f64\<close>. An integer is
  an optional plus sign and at least one decimal digit, within range. A float is an optional
  sign and \<open>inf\<close>, \<open>infinity\<close>, \<open>nan\<close> in any case, or digits with at most one point (a digit on one
  side at least) and an optional exponent; the value is the nearest binary64.
\<close>

section \<open>Digits\<close>

definition is_digit :: "char \<Rightarrow> bool" where
  "is_digit c \<longleftrightarrow> 48 \<le> (of_char c :: nat) \<and> (of_char c :: nat) \<le> 57"

definition digit_val :: "char \<Rightarrow> nat" where
  "digit_val c = of_char c - 48"

definition dec_val :: "string \<Rightarrow> nat" where
  "dec_val ds = fold (\<lambda>c n. 10 * n + digit_val c) ds 0"

section \<open>Unsigned integers\<close>

definition parse_nat :: "string \<Rightarrow> nat option" where
  "parse_nat s =
     (let ds = (case s of c # cs \<Rightarrow> if c = CHR ''+'' then cs else s | [] \<Rightarrow> []) in
      if ds \<noteq> [] \<and> list_all is_digit ds then Some (dec_val ds) else None)"

definition parse_uint :: "string \<Rightarrow> 'a::len word option" where
  "parse_uint s = (case parse_nat s of
       Some n \<Rightarrow> if n < 2 ^ LENGTH('a) then Some (of_nat n) else None
     | None \<Rightarrow> None)"

lemma parse_uint_Some: "parse_uint s = Some (w :: 'a::len word) \<Longrightarrow> parse_nat s = Some (unat w)"
  by (auto simp: parse_uint_def unat_of_nat split: option.splits if_splits)

section \<open>Floating-point numbers\<close>

definition pow10 :: "int \<Rightarrow> rat" where
  "pow10 e = (if 0 \<le> e then 10 ^ nat e else 1 / 10 ^ nat (- e))"

definition parse_exp :: "string \<Rightarrow> int option" where
  "parse_exp s =
     (case s of
        [] \<Rightarrow> None
      | c # cs \<Rightarrow>
          (let neg = (c = CHR ''-''); ds = (if c = CHR ''-'' \<or> c = CHR ''+'' then cs else s) in
           if ds \<noteq> [] \<and> list_all is_digit ds
           then Some (if neg then - int (dec_val ds) else int (dec_val ds)) else None))"

definition parse_decimal :: "string \<Rightarrow> rat option" where
  "parse_decimal s =
     (let ip = takeWhile is_digit s; r1 = dropWhile is_digit s;
          (fp, r2) = (case r1 of
              c # cs \<Rightarrow> if c = CHR ''.'' then (takeWhile is_digit cs, dropWhile is_digit cs) else ([], r1)
            | [] \<Rightarrow> ([], [])) in
      if ip = [] \<and> fp = [] then None
      else
        let mant = of_nat (dec_val (ip @ fp)) * pow10 (- int (length fp)) in
        case r2 of
          [] \<Rightarrow> Some mant
        | c # cs \<Rightarrow>
            if c = CHR ''e'' \<or> c = CHR ''E''
            then map_option (\<lambda>e. mant * pow10 e) (parse_exp cs) else None)"

definition parse_f64 :: "string \<Rightarrow> f64 option" where
  "parse_f64 s =
     (let (neg, body) = (case s of
            c # cs \<Rightarrow> if c = CHR ''-'' then (True, cs) else if c = CHR ''+'' then (False, cs) else (False, s)
          | [] \<Rightarrow> (False, []));
          low = to_ascii_lowercase body;
          v = (if low = ''inf'' \<or> low = ''infinity'' then Some PInf
               else if low = ''nan'' then Some NaN
               else map_option f64_of (parse_decimal body)) in
      if neg then map_option f_neg v else v)"

section \<open>Environment variables with a default\<close>

definition env_parse :: "(string \<Rightarrow> 'a option) \<Rightarrow> env \<Rightarrow> string \<Rightarrow> 'a \<Rightarrow> 'a" where
  "env_parse parse env name dflt =
     (case Option.bind (env name) parse of Some v \<Rightarrow> v | None \<Rightarrow> dflt)"

lemma env_parse_unset [simp]: "env name = None \<Longrightarrow> env_parse p env name d = d"
  by (simp add: env_parse_def)

end
