(* ===== verification/Utf8.thy ===== *)
theory Utf8
  imports Gateway_Prelude
begin

text \<open>
  UTF-8 as the standard library handles it: the encoding of a list of code points, the strict
  decoder \<open>str::from_utf8\<close> and the lossy decoder \<open>String::from_utf8_lossy\<close>, which replaces every
  maximal ill-formed part by U+FFFD. The strict decoder is the inverse of the encoding.
\<close>

type_synonym ustr = "nat list"

definition utf8_char :: "nat \<Rightarrow> nat list" where
  "utf8_char c =
     (if c < 0x80 then [c]
      else if c < 0x800 then [0xC0 + c div 64, 0x80 + c mod 64]
      else if c < 0x10000 then [0xE0 + c div 4096, 0x80 + c div 64 mod 64, 0x80 + c mod 64]
      else [0xF0 + c div 262144, 0x80 + c div 4096 mod 64, 0x80 + c div 64 mod 64, 0x80 + c mod 64])"

definition utf8 :: "ustr \<Rightarrow> nat list" where
  "utf8 s = concat (map utf8_char s)"

definition scalar :: "nat \<Rightarrow> bool" where
  "scalar c \<longleftrightarrow> c < 0xD800 \<or> 0xE000 \<le> c \<and> c < 0x110000"

section \<open>Decoding\<close>

definition byte_at :: "nat list \<Rightarrow> nat \<Rightarrow> nat" where
  "byte_at bs i = (if i < length bs then bs ! i else 0)"

definition is_cont :: "nat \<Rightarrow> bool" where
  "is_cont b \<longleftrightarrow> 0x80 \<le> b \<and> b < 0xC0"

text \<open>Which second bytes may follow a lead byte of three or four.\<close>

definition second3 :: "nat \<Rightarrow> nat \<Rightarrow> bool" where
  "second3 b0 b1 = (if b0 = 0xE0 then 0xA0 \<le> b1 \<and> b1 < 0xC0
                    else if b0 = 0xED then 0x80 \<le> b1 \<and> b1 < 0xA0 else is_cont b1)"

definition second4 :: "nat \<Rightarrow> nat \<Rightarrow> bool" where
  "second4 b0 b1 = (if b0 = 0xF0 then 0x90 \<le> b1 \<and> b1 < 0xC0
                    else if b0 = 0xF4 then 0x80 \<le> b1 \<and> b1 < 0x90 else is_cont b1)"

text \<open>The first character, or the length of the ill-formed part to replace.\<close>

definition decode_step :: "nat list \<Rightarrow> nat option \<times> nat" where
  "decode_step bs =
     (let b0 = byte_at bs 0; b1 = byte_at bs 1; b2 = byte_at bs 2; b3 = byte_at bs 3 in
      if b0 < 0x80 then (Some b0, 1)
      else if 0xC2 \<le> b0 \<and> b0 < 0xE0 then
        (if is_cont b1 then (Some ((b0 - 0xC0) * 64 + (b1 - 0x80)), 2) else (None, 1))
      else if 0xE0 \<le> b0 \<and> b0 < 0xF0 then
        (if \<not> second3 b0 b1 then (None, 1)
         else if \<not> is_cont b2 then (None, 2)
         else (Some ((b0 - 0xE0) * 4096 + (b1 - 0x80) * 64 + (b2 - 0x80)), 3))
      else if 0xF0 \<le> b0 \<and> b0 < 0xF5 then
        (if \<not> second4 b0 b1 then (None, 1)
         else if \<not> is_cont b2 then (None, 2)
         else if \<not> is_cont b3 then (None, 3)
         else (Some ((b0 - 0xF0) * 262144 + (b1 - 0x80) * 4096 + (b2 - 0x80) * 64 + (b3 - 0x80)), 4))
      else (None, 1))"

lemma decode_step_pos: "0 < snd (decode_step bs)"
  by (simp add: decode_step_def Let_def)

function from_utf8_lossy :: "nat list \<Rightarrow> ustr" where
  "from_utf8_lossy bs =
     (if bs = [] then []
      else (case fst (decode_step bs) of Some c \<Rightarrow> c | None \<Rightarrow> 0xFFFD) # from_utf8_lossy (drop (snd (decode_step bs)) bs))"
  by auto
termination
  by (relation "measure length") (auto simp: decode_step_pos)

function from_utf8 :: "nat list \<Rightarrow> ustr option" where
  "from_utf8 bs =
     (if bs = [] then Some []
      else (case fst (decode_step bs) of
              Some c \<Rightarrow> map_option (Cons c) (from_utf8 (drop (snd (decode_step bs)) bs))
            | None \<Rightarrow> None))"
  by auto
termination
  by (relation "measure length") (auto simp: decode_step_pos)

declare from_utf8_lossy.simps [simp del] from_utf8.simps [simp del]

section \<open>The decoder inverts the encoding\<close>

lemma utf8_simps [simp]: "utf8 [] = []" "utf8 (c # s) = utf8_char c @ utf8 s"
  by (simp_all add: utf8_def)

lemma byte_at_Cons [simp]: "byte_at (b # bs) 0 = b" "byte_at (b # bs) (Suc n) = byte_at bs n"
  by (simp_all add: byte_at_def)

lemma div_4096: "c div 4096 = c div 64 div (64 :: nat)"
  using div_mult2_eq [of c 64 64] by simp

lemma div_262144: "c div 262144 = c div 64 div 64 div (64 :: nat)"
  using div_mult2_eq [of c 4096 64] by (simp add: div_4096)

lemma decode_encode:
  assumes "scalar c"
  shows "decode_step (utf8_char c @ rest) = (Some c, length (utf8_char c))"
proof -
  consider (1) "c < 0x80" | (2) "0x80 \<le> c" "c < 0x800" | (3) "0x800 \<le> c" "c < 0x10000" | (4) "0x10000 \<le> c" "c < 0x110000"
    using assms by (fastforce simp: scalar_def)
  then show ?thesis
  proof cases
    case 1
    then show ?thesis by (simp add: utf8_char_def decode_step_def)
  next
    case 2
    have "2 \<le> c div 64" "c div 64 < 32" using 2 by auto
    moreover have "c div 64 * 64 + c mod 64 = c" by simp
    ultimately show ?thesis
      using 2 by (simp add: utf8_char_def decode_step_def is_cont_def Let_def numeral_2_eq_2)
  next
    case 3
    define x y z where "x = c div 4096" and "y = c div 64 mod 64" and "z = c mod 64"
    note d = x_def y_def z_def
    have c: "c = x * 4096 + y * 64 + z"
      using div_mult_mod_eq [of c 64] div_mult_mod_eq [of "c div 64" 64] unfolding d div_4096 by linarith
    have b: "y < 64" "z < 64" "x < 16" using 3 unfolding d by auto
    have "0 < x \<or> 32 \<le> y" "x \<noteq> 13 \<or> y < 32"
      using 3 b assms unfolding c scalar_def by linarith+
    then have "second3 (0xE0 + x) (0x80 + y)" using b by (auto simp: second3_def is_cont_def)
    then show ?thesis
      using 3 b unfolding utf8_char_def d [symmetric]
      by (simp add: decode_step_def is_cont_def numeral_2_eq_2 flip: c)
  next
    case 4
    define w x y z where "w = c div 262144" and "x = c div 4096 mod 64" and "y = c div 64 mod 64" and "z = c mod 64"
    note d = w_def x_def y_def z_def
    have c: "c = w * 262144 + x * 4096 + y * 64 + z"
      using div_mult_mod_eq [of c 64] div_mult_mod_eq [of "c div 64" 64] div_mult_mod_eq [of "c div 64 div 64" 64]
      unfolding d div_262144 div_4096 by linarith
    have b: "x < 64" "y < 64" "z < 64" "w < 5" using 4 unfolding d by auto
    have "0 < w \<or> 16 \<le> x" "w < 4 \<or> x < 16"
      using 4 b unfolding c by linarith+
    then have "second4 (0xF0 + w) (0x80 + x)" using b by (auto simp: second4_def is_cont_def)
    then show ?thesis
      using 4 b unfolding utf8_char_def d [symmetric]
      by (simp add: decode_step_def is_cont_def numeral_2_eq_2 numeral_3_eq_3 flip: c)
  qed
qed

text \<open>Conversely, a decoded character is the one its bytes encode.\<close>

lemma byte_at_pos: "0 < byte_at bs i \<Longrightarrow> i < length bs"
  by (simp add: byte_at_def split: if_splits)

lemma take_bytes:
  "i < length bs \<Longrightarrow> take (Suc i) bs = take i bs @ [byte_at bs i]"
  by (simp add: take_Suc_conv_app_nth byte_at_def)

lemma base64: "z < 64 \<Longrightarrow> (v * 64 + z) div 64 = v \<and> (v * 64 + z) mod 64 = (z :: nat)"
  by simp

lemma encode_decode:
  assumes "decode_step bs = (Some c, n)" and "bs \<noteq> []"
  shows "take n bs = utf8_char c \<and> scalar c"
proof -
  define b0 b1 b2 b3 where "b0 = byte_at bs 0" and "b1 = byte_at bs 1" and "b2 = byte_at bs 2" and "b3 = byte_at bs 3"
  note b = this
  have one: "take 1 bs = [b0]" using assms(2) by (cases bs) (simp_all add: b)
  have two: "take 2 bs = [b0, b1]" if "is_cont b1"
    using that byte_at_pos [of bs 1] take_bytes [of 1 bs] one by (simp add: b is_cont_def numeral_2_eq_2)
  have three: "take 3 bs = [b0, b1, b2]" if "is_cont b1" "is_cont b2"
    using that byte_at_pos [of bs 2] take_bytes [of 2 bs] two by (simp add: b is_cont_def)
  have four: "take 4 bs = [b0, b1, b2, b3]" if "is_cont b1" "is_cont b2" "is_cont b3"
    using that byte_at_pos [of bs 3] take_bytes [of 3 bs] three by (simp add: b is_cont_def)
  consider (1) "b0 < 0x80" "c = b0" "n = 1"
    | (2) "0xC2 \<le> b0" "b0 < 0xE0" "is_cont b1" "c = (b0 - 0xC0) * 64 + (b1 - 0x80)" "n = 2"
    | (3) "0xE0 \<le> b0" "b0 < 0xF0" "second3 b0 b1" "is_cont b2"
        "c = (b0 - 0xE0) * 4096 + (b1 - 0x80) * 64 + (b2 - 0x80)" "n = 3"
    | (4) "0xF0 \<le> b0" "b0 < 0xF5" "second4 b0 b1" "is_cont b2" "is_cont b3"
        "c = (b0 - 0xF0) * 262144 + (b1 - 0x80) * 4096 + (b2 - 0x80) * 64 + (b3 - 0x80)" "n = 4"
    using assms(1) unfolding decode_step_def Let_def b [symmetric] by (auto split: if_splits)
  then show ?thesis
  proof cases
    case 1
    then show ?thesis using one by (simp add: utf8_char_def scalar_def)
  next
    case 2
    obtain x y where xy: "b0 = 0xC0 + x" "b1 = 0x80 + y" "2 \<le> x" "x < 32" "y < 64"
    proof
      show "b0 = 0xC0 + (b0 - 0xC0)" "b1 = 0x80 + (b1 - 0x80)" using 2 by (auto simp: is_cont_def)
    qed (use 2 in \<open>auto simp: is_cont_def\<close>)
    then have "c = x * 64 + y" "n = 2" using 2 by simp_all
    then show ?thesis using two [OF 2(3)] xy by (simp add: utf8_char_def scalar_def)
  next
    case 3
    have c1: "is_cont b1" using 3(3) by (auto simp: second3_def is_cont_def split: if_splits)
    obtain x y z where xy: "b0 = 0xE0 + x" "b1 = 0x80 + y" "b2 = 0x80 + z" "x < 16" "y < 64" "z < 64"
    proof
      show "b0 = 0xE0 + (b0 - 0xE0)" "b1 = 0x80 + (b1 - 0x80)" "b2 = 0x80 + (b2 - 0x80)" using 3 c1 by (auto simp: is_cont_def)
    qed (use 3 c1 in \<open>auto simp: is_cont_def\<close>)
    have r: "0 < x \<or> 32 \<le> y" "x \<noteq> 13 \<or> y < 32" using 3(3) xy by (auto simp: second3_def split: if_splits)
    have c: "c = x * 4096 + y * 64 + z" using 3 xy by simp
    have c64: "c div 64 = x * 64 + y" "c mod 64 = z"
      using base64 [of z "x * 64 + y"] xy unfolding c by (simp_all add: algebra_simps)
    then have "c div 4096 = x" "c div 64 mod 64 = y" "c mod 64 = z"
      using div_mult2_eq [of c 64 64] base64 [of y x] xy by simp_all
    moreover have "0x800 \<le> c" "c < 0x10000" using r xy unfolding c by linarith+
    moreover have "scalar c"
    proof (cases "x = 13")
      case True
      then show ?thesis using r(2) xy unfolding c scalar_def by linarith
    next
      case False
      then show ?thesis using xy unfolding c scalar_def by (cases "x < 13") linarith+
    qed
    ultimately show ?thesis using three [OF c1 3(4)] xy 3(6) by (simp add: utf8_char_def)
  next
    case 4
    have c1: "is_cont b1" using 4(3) by (auto simp: second4_def is_cont_def split: if_splits)
    obtain w x y z where xy: "b0 = 0xF0 + w" "b1 = 0x80 + x" "b2 = 0x80 + y" "b3 = 0x80 + z" "w < 5" "x < 64" "y < 64" "z < 64"
    proof
      show "b0 = 0xF0 + (b0 - 0xF0)" "b1 = 0x80 + (b1 - 0x80)" "b2 = 0x80 + (b2 - 0x80)" "b3 = 0x80 + (b3 - 0x80)"
        using 4 c1 by (auto simp: is_cont_def)
    qed (use 4 c1 in \<open>auto simp: is_cont_def\<close>)
    have r: "0 < w \<or> 16 \<le> x" "w < 4 \<or> x < 16" using 4(3) xy by (auto simp: second4_def split: if_splits)
    have c: "c = w * 262144 + x * 4096 + y * 64 + z" using 4 xy by simp
    have c64: "c div 64 = (w * 64 + x) * 64 + y" "c mod 64 = z"
      using base64 [of z "(w * 64 + x) * 64 + y"] xy unfolding c by (simp_all add: algebra_simps)
    then have c4096: "c div 4096 = w * 64 + x" "c div 64 mod 64 = y"
      using div_mult2_eq [of c 64 64] base64 [of y "w * 64 + x"] xy by simp_all
    then have "c div 262144 = w" "c div 4096 mod 64 = x" "c div 64 mod 64 = y" "c mod 64 = z"
      using div_mult2_eq [of c 4096 64] base64 [of x w] c64 xy by simp_all
    moreover have "0x10000 \<le> c" "scalar c" using r xy unfolding c scalar_def by linarith+
    ultimately show ?thesis using four [OF c1 4(4,5)] xy 4(7) by (simp add: utf8_char_def)
  qed
qed

lemma from_utf8_iff: "from_utf8 bs = Some s \<longleftrightarrow> utf8 s = bs \<and> list_all scalar s"
proof (induction bs arbitrary: s rule: from_utf8.induct)
  case (1 bs)
  show ?case
  proof (cases "bs = []")
    case True
    then show ?thesis by (subst from_utf8.simps) (cases s; auto simp: utf8_char_def split: if_splits)
  next
    case False
    obtain o' n where d: "decode_step bs = (o', n)" by fastforce
    show ?thesis
    proof (cases o')
      case None
      have "utf8 s \<noteq> bs \<or> \<not> list_all scalar s"
        using False d None decode_encode by (cases s) auto
      then show ?thesis using False d None by (subst from_utf8.simps) auto
    next
      case (Some c)
      note e = encode_decode [OF d [unfolded Some] False]
      have ih: "from_utf8 (drop n bs) = Some t \<longleftrightarrow> utf8 t = drop n bs \<and> list_all scalar t" for t
        using "1.IH" [of c t] False d Some by simp
      have "from_utf8 bs = Some s \<longleftrightarrow> (\<exists>t. s = c # t \<and> utf8 t = drop n bs \<and> list_all scalar t)"
        using False d Some ih by (subst from_utf8.simps) auto
      also have "\<dots> \<longleftrightarrow> utf8 s = bs \<and> list_all scalar s"
      proof
        assume "\<exists>t. s = c # t \<and> utf8 t = drop n bs \<and> list_all scalar t"
        then show "utf8 s = bs \<and> list_all scalar s" using e append_take_drop_id [of n bs] by auto
      next
        assume a: "utf8 s = bs \<and> list_all scalar s"
        then obtain c' t where s: "s = c' # t" using False by (cases s) auto
        then have "decode_step bs = (Some c', length (utf8_char c'))" using a decode_encode [of c' "utf8 t"] by auto
        then show "\<exists>t. s = c # t \<and> utf8 t = drop n bs \<and> list_all scalar t" using a s d Some by auto
      qed
      finally show ?thesis .
    qed
  qed
qed

lemma from_utf8_lossy_valid: "list_all scalar s \<Longrightarrow> from_utf8_lossy (utf8 s) = s"
proof (induction s)
  case Nil
  then show ?case by (subst from_utf8_lossy.simps) simp
next
  case (Cons c s)
  have "utf8 (c # s) \<noteq> []" by (simp add: utf8_char_def)
  then show ?case using Cons decode_encode [of c "utf8 s"] by (subst from_utf8_lossy.simps) simp
qed

text \<open>The lossy decoder always yields characters.\<close>

lemma scalar_replacement: "scalar 0xFFFD"
  by (simp add: scalar_def)

lemma from_utf8_lossy_scalar: "list_all scalar (from_utf8_lossy bs)"
proof (induction bs rule: from_utf8_lossy.induct)
  case (1 bs)
  then show ?case
    using encode_decode [of bs] scalar_replacement
    by (subst from_utf8_lossy.simps) (cases "decode_step bs"; auto split: option.splits)
qed

end
