(* ===== verification/Waf.thy ===== *)
theory Waf
  imports Window_Counter Sentinel Std_Parse Utf8
begin

text \<open>
  The firewall, \<open>rust-ext/src/waf.rs\<close>: percent-decoding, truncation at a character boundary, the
  per-address limiter and the chain of checks \<open>inspect\<close>.

  A \<open>str\<close> is the list of its code points here, since \<open>url_decode\<close> walks over characters; \<open>utf8\<close> gives
  its bytes, on which lengths and the pattern search work. The automata of \<open>aho_corasick\<close> are the
  parameter \<open>ac\<close> (patterns, haystack bytes), the hash of \<open>rustc_hash\<close> is \<open>fx\<close>.
\<close>

section \<open>Characters and bytes\<close>

definition str_len :: "ustr \<Rightarrow> nat" where
  "str_len s = length (utf8 s)"

text \<open>\<open>str::is_char_boundary\<close>: the ends, and every byte that is not a continuation byte.\<close>

definition is_char_boundary :: "nat list \<Rightarrow> nat \<Rightarrow> bool" where
  "is_char_boundary bs i =
     (i = 0 \<or> (if length bs \<le> i then i = length bs else \<not> (0x80 \<le> bs ! i \<and> bs ! i < 0xC0)))"

fun boundary_down :: "nat list \<Rightarrow> nat \<Rightarrow> nat" where
  "boundary_down bs 0 = 0"
| "boundary_down bs (Suc e) = (if is_char_boundary bs (Suc e) then Suc e else boundary_down bs e)"

definition truncate_on_char_boundary :: "nat list \<Rightarrow> nat \<Rightarrow> nat list" where
  "truncate_on_char_boundary bs max_len =
     (if length bs \<le> max_len then bs else take (boundary_down bs max_len) bs)"

section \<open>Percent-decoding\<close>

text \<open>\<open>char::to_digit(16)\<close>.\<close>

definition hex_digit :: "nat \<Rightarrow> nat option" where
  "hex_digit c =
     (if 48 \<le> c \<and> c \<le> 57 then Some (c - 48)
      else if 97 \<le> c \<and> c \<le> 102 then Some (c - 87)
      else if 65 \<le> c \<and> c \<le> 70 then Some (c - 55)
      else None)"

fun url_decode :: "ustr \<Rightarrow> ustr" where
  "url_decode [] = []"
| "url_decode [c] = (if c = 43 then [32] else [c])"
| "url_decode [c, c1] =
     (if c = 37 then [37] else (if c = 43 then 32 else c) # url_decode [c1])"
| "url_decode (c # h1 # h2 # cs) =
     (if c = 37 then
        (case (hex_digit h1, hex_digit h2) of
           (Some d1, Some d2) \<Rightarrow> (d1 * 16 + d2) # url_decode cs
         | _ \<Rightarrow> 37 # h1 # h2 # url_decode cs)
      else (if c = 43 then 32 else c) # url_decode (h1 # h2 # cs))"

definition MAX_DECODE_PASSES :: nat where [simp]: "MAX_DECODE_PASSES = 3"

fun decode_passes :: "nat \<Rightarrow> ustr \<Rightarrow> ustr" where
  "decode_passes 0 current = current"
| "decode_passes (Suc n) current =
     (let nxt = url_decode current in if nxt = current then current else decode_passes n nxt)"

definition url_decode_recursive :: "ustr \<Rightarrow> ustr" where
  "url_decode_recursive encoded = decode_passes (MAX_DECODE_PASSES - 1) (url_decode encoded)"

section \<open>The per-address limiter\<close>

definition IP_RATE_LIMIT_SLOTS :: nat where [simp]: "IP_RATE_LIMIT_SLOTS = 1000000"

text \<open>The shared words: word 0 counts the blocks, the others are window words.\<close>

type_synonym waf_shm = "nat \<Rightarrow> u64"

definition ip_slot :: "(ustr \<Rightarrow> u64) \<Rightarrow> ustr \<Rightarrow> nat" where
  "ip_slot fx ip = unat (fx ip mod of_nat IP_RATE_LIMIT_SLOTS) + 1"

definition increment_waf_blocks :: "waf_shm \<Rightarrow> waf_shm" where
  "increment_waf_blocks shm = shm(0 := shm 0 + 1)"

definition waf_blocks_total :: "waf_shm \<Rightarrow> u64" where
  "waf_blocks_total shm = shm 0"

definition ip_rate_limit_rps :: "env \<Rightarrow> posture_state \<Rightarrow> u32" where
  "ip_rate_limit_rps env p =
     (let base = env_parse parse_uint env ''WAF_IP_RATE_LIMIT_RPS'' 100 :: u32 in
      f_to_word (f_max (f_mul (f_of_word base) (waf_budget_factor p)) (Fin 1)))"

text \<open>
  The loop reads the limit (the environment and the posture) in every iteration: \<open>rps k\<close> is
  what iteration \<open>k\<close> reads.
\<close>

definition ip_rate_exceeded ::
    "(ustr \<Rightarrow> u64) \<Rightarrow> u64 cas_event list \<Rightarrow> (nat \<Rightarrow> u32) \<Rightarrow> u32 \<Rightarrow> ustr \<Rightarrow> waf_shm \<Rightarrow> bool \<times> waf_shm" where
  "ip_rate_exceeded fx es rps now ip shm =
     (let slot = ip_slot fx ip; current = shm slot in
      case window_loop es now rps 0 current current of
        (None, v) \<Rightarrow> (True, shm(slot := v))
      | (Some _, v) \<Rightarrow> (False, shm(slot := v)))"

section \<open>The chain of checks\<close>

definition MAX_URI_LEN :: nat where [simp]: "MAX_URI_LEN = 2048"
definition MAX_AUTH_HEADER_LEN :: nat where [simp]: "MAX_AUTH_HEADER_LEN = 4096"
definition MAX_UA_LEN :: nat where [simp]: "MAX_UA_LEN = 512"
definition MAX_BODY_SCAN_LEN :: nat where [simp]: "MAX_BODY_SCAN_LEN = 8192"

definition INJECTION_PATTERNS :: "string list" where
  "INJECTION_PATTERNS =
     [''../'', ''..'' @ [CHR 0x5C],
      ''<script'', ''</script>'', ''javascript:'', ''onerror='', ''onload='', ''alert('',
      ''union select'', ''union all select'',
      [CHR 0x27] @ '' or '' @ [CHR 0x27] @ ''1'' @ [CHR 0x27] @ ''='' @ [CHR 0x27] @ ''1'',
      [CHR 0x22] @ '' or '' @ [CHR 0x22] @ ''1'' @ [CHR 0x22] @ ''='' @ [CHR 0x22] @ ''1'', ''or 1=1'',
      ''exec('', ''execute('', ''xp_cmdshell'', ''sp_executesql'',
      ''/etc/passwd'', ''/etc/shadow'', ''/bin/sh'', ''/bin/bash'', ''cmd.exe'', ''powershell'',
      ''<!entity'', ''<!doctype'', ''file://'', ''dict://'', ''gopher://'',
      ''{{'', ''}}'', ''${'', ''#{'']"

definition BOT_PATTERNS :: "string list" where
  "BOT_PATTERNS =
     [''sqlmap'', ''nikto'', ''nmap'', ''masscan'', ''zgrab'', ''dirbuster'', ''gobuster'',
      ''nuclei'', ''hydra'', ''burpsuite'', ''metasploit'', ''w3af'', ''acunetix'', ''wfuzz'']"

datatype WafDecision = Allow | Block u16 string

text \<open>A block counts and answers.\<close>

definition waf_block :: "u16 \<Rightarrow> string \<Rightarrow> waf_shm \<Rightarrow> WafDecision \<times> waf_shm" where
  "waf_block code msg shm = (Block code msg, increment_waf_blocks shm)"

definition inspect ::
    "(string list \<Rightarrow> nat list \<Rightarrow> bool) \<Rightarrow> (ustr \<Rightarrow> u64) \<Rightarrow> u64 cas_event list \<Rightarrow> (nat \<Rightarrow> u32) \<Rightarrow> u32
     \<Rightarrow> ustr \<Rightarrow> ustr \<Rightarrow> ustr \<Rightarrow> ustr \<Rightarrow> ustr \<Rightarrow> waf_shm \<Rightarrow> WafDecision \<times> waf_shm" where
  "inspect ac fx es rps now uri auth_header user_agent body client_ip shm =
     (if MAX_URI_LEN < str_len uri then waf_block 400 ''URI too long'' shm
      else if MAX_AUTH_HEADER_LEN < str_len auth_header then waf_block 400 ''Auth header too large'' shm
      else if ac INJECTION_PATTERNS (utf8 (url_decode_recursive uri))
      then waf_block 403 ''Forbidden: injection in URI'' shm
      else if body \<noteq> [] \<and> ac INJECTION_PATTERNS (truncate_on_char_boundary (utf8 body) MAX_BODY_SCAN_LEN)
      then waf_block 403 ''Forbidden: injection in body'' shm
      else if ac BOT_PATTERNS (truncate_on_char_boundary (utf8 user_agent) MAX_UA_LEN)
      then waf_block 403 ''Forbidden: bot detected'' shm
      else if auth_header = [] \<and> client_ip \<noteq> [] then
        (case ip_rate_exceeded fx es rps now client_ip shm of
           (True, shm') \<Rightarrow> waf_block 429 ''Too Many Requests: IP rate limit'' shm'
         | (False, shm') \<Rightarrow> (Allow, shm'))
      else (Allow, shm))"

section \<open>Truncation keeps characters whole\<close>

abbreviation cont_byte :: "nat \<Rightarrow> bool" where
  "cont_byte b \<equiv> 0x80 \<le> b \<and> b < 0xC0"

lemma utf8_char_lead: "utf8_char c \<noteq> [] \<and> \<not> cont_byte (utf8_char c ! 0)"
  by (simp add: utf8_char_def)

lemma utf8_char_tail: "0 < i \<Longrightarrow> i < length (utf8_char c) \<Longrightarrow> cont_byte (utf8_char c ! i)"
  by (auto simp: utf8_char_def nth_Cons less_Suc_eq split: if_splits nat.splits)

lemma utf8_lead: "s \<noteq> [] \<Longrightarrow> \<not> cont_byte (utf8 s ! 0)"
  using utf8_char_lead by (cases s) (auto simp: nth_append)

lemma boundary_iff:
  "i \<le> length (utf8 s) \<Longrightarrow> is_char_boundary (utf8 s) i \<longleftrightarrow> (\<exists>k \<le> length s. i = length (utf8 (take k s)))"
proof (induction s arbitrary: i)
  case Nil
  then show ?case by (simp add: is_char_boundary_def)
next
  case (Cons c s)
  let ?n = "length (utf8_char c)"
  have n: "0 < ?n" using utf8_char_lead [of c] by simp
  have ex: "(\<exists>k \<le> length (c # s). i = length (utf8 (take k (c # s))))
      \<longleftrightarrow> i = 0 \<or> (\<exists>k \<le> length s. i = ?n + length (utf8 (take k s)))"
  proof
    assume "\<exists>k \<le> length (c # s). i = length (utf8 (take k (c # s)))"
    then obtain k where "k \<le> length (c # s)" "i = length (utf8 (take k (c # s)))" by blast
    then show "i = 0 \<or> (\<exists>k \<le> length s. i = ?n + length (utf8 (take k s)))" by (cases k) auto
  next
    assume "i = 0 \<or> (\<exists>k \<le> length s. i = ?n + length (utf8 (take k s)))"
    then show "\<exists>k \<le> length (c # s). i = length (utf8 (take k (c # s)))"
    proof
      assume "i = 0"
      then show ?thesis by (intro exI [of _ 0]) simp
    next
      assume "\<exists>k \<le> length s. i = ?n + length (utf8 (take k s))"
      then obtain k where "k \<le> length s" "i = ?n + length (utf8 (take k s))" by blast
      then show ?thesis by (intro exI [of _ "Suc k"]) simp
    qed
  qed
  show ?case
  proof (cases "i < ?n")
    case True
    then show ?thesis
      unfolding ex using utf8_char_tail [of i c] n Cons.prems
      by (auto simp: is_char_boundary_def nth_append)
  next
    case False
    let ?j = "i - ?n"
    have "is_char_boundary (utf8 (c # s)) i = is_char_boundary (utf8 s) ?j"
    proof (cases "?j = 0")
      case True
      then have "i = ?n" using False by simp
      then show ?thesis
        using n utf8_lead [of s] by (cases s) (auto simp: is_char_boundary_def nth_append)
    next
      case j: False
      then show ?thesis using False n by (auto simp: is_char_boundary_def nth_append)
    qed
    also have "\<dots> \<longleftrightarrow> (\<exists>k \<le> length s. ?j = length (utf8 (take k s)))"
      using Cons.prems False by (intro Cons.IH) auto
    also have "\<dots> \<longleftrightarrow> i = 0 \<or> (\<exists>k \<le> length s. i = ?n + length (utf8 (take k s)))"
      using False n by (auto simp: le_add_diff_inverse)
    finally show ?thesis unfolding ex .
  qed
qed

lemma boundary_down_spec:
  "boundary_down bs m \<le> m \<and> is_char_boundary bs (boundary_down bs m)
   \<and> (\<forall>i. boundary_down bs m < i \<longrightarrow> i \<le> m \<longrightarrow> \<not> is_char_boundary bs i)"
proof (induction m)
  case 0
  then show ?case by (simp add: is_char_boundary_def)
next
  case (Suc m)
  then show ?case by (auto simp: le_Suc_eq)
qed

lemma utf8_append: "utf8 (s @ t) = utf8 s @ utf8 t"
  by (simp add: utf8_def)

lemma utf8_take: "take (length (utf8 (take k s))) (utf8 s) = utf8 (take k s)"
proof -
  have "utf8 s = utf8 (take k s) @ utf8 (drop k s)" by (simp flip: utf8_append)
  then show ?thesis by (metis append_eq_conv_conj)
qed

text \<open>Truncation never splits a character. For every string and every limit the truncated bytes are
  the encoding of a prefix of the string's characters, no longer than the limit; and if the
  string was too long, one more character would have exceeded the limit.
\<close>
lemma truncation_keeps_characters:
  "\<exists>k \<le> length s. truncate_on_char_boundary (utf8 s) m = utf8 (take k s)
     \<and> length (utf8 (take k s)) \<le> m
     \<and> (k = length s \<or> m < length (utf8 (take (Suc k) s)))"
proof (cases "length (utf8 s) \<le> m")
  case True
  then show ?thesis by (intro exI [of _ "length s"]) (simp add: truncate_on_char_boundary_def)
next
  case False
  let ?e = "boundary_down (utf8 s) m"
  have e: "?e \<le> m" "is_char_boundary (utf8 s) ?e"
    "\<And>i. ?e < i \<Longrightarrow> i \<le> m \<Longrightarrow> \<not> is_char_boundary (utf8 s) i"
    using boundary_down_spec [of "utf8 s" m] by auto
  have "?e \<le> length (utf8 s)" using e(1) False by linarith
  then obtain k where k: "k \<le> length s" "?e = length (utf8 (take k s))"
    using e(2) boundary_iff by blast
  have t: "truncate_on_char_boundary (utf8 s) m = utf8 (take k s)"
    using False k(2) utf8_take [of k s] by (simp add: truncate_on_char_boundary_def)
  have "k = length s \<or> m < length (utf8 (take (Suc k) s))"
  proof (cases "k = length s")
    case k': False
    then have "take (Suc k) s = take k s @ [s ! k]" using k(1) by (simp add: take_Suc_conv_app_nth)
    then have "?e < length (utf8 (take (Suc k) s))"
      using k(2) utf8_char_lead [of "s ! k"] by (simp add: utf8_append)
    moreover have "is_char_boundary (utf8 s) (length (utf8 (take (Suc k) s)))"
    proof -
      have "length (utf8 (take (Suc k) s)) \<le> length (utf8 s)"
        using utf8_take [of "Suc k" s] by (metis length_take min.cobounded1)
      moreover have "Suc k \<le> length s" using k(1) k' by simp
      ultimately show ?thesis using boundary_iff by blast
    qed
    ultimately have "\<not> length (utf8 (take (Suc k) s)) \<le> m" using e(3) by blast
    then show ?thesis by simp
  qed simp
  with t e(1) k show ?thesis by (intro exI [of _ k]) simp
qed

section \<open>Decoding undoes encoding\<close>

definition pct_digit :: "nat \<Rightarrow> nat" where
  "pct_digit d = (if d < 10 then 48 + d else 55 + d)"

definition pct_encode :: "ustr \<Rightarrow> ustr" where
  "pct_encode s = concat (map (\<lambda>c. [37, pct_digit (c div 16), pct_digit (c mod 16)]) s)"

definition latin :: "ustr \<Rightarrow> bool" where
  "latin s \<longleftrightarrow> (\<forall>c \<in> set s. c < 256)"

definition plain :: "ustr \<Rightarrow> bool" where
  "plain s \<longleftrightarrow> (\<forall>c \<in> set s. c < 256 \<and> c \<noteq> 37 \<and> c \<noteq> 43)"

lemma hex_digit_pct: "d < 16 \<Longrightarrow> hex_digit (pct_digit d) = Some d"
  by (auto simp: hex_digit_def pct_digit_def)

lemma url_decode_encode: "latin s \<Longrightarrow> url_decode (pct_encode s) = s"
proof (induction s)
  case (Cons c s)
  then have "c < 256" by (simp add: latin_def)
  then have "hex_digit (pct_digit (c div 16)) = Some (c div 16)"
    "hex_digit (pct_digit (c mod 16)) = Some (c mod 16)"
    by (auto intro!: hex_digit_pct)
  with Cons show ?case by (simp add: pct_encode_def latin_def)
qed (simp add: pct_encode_def)

lemma url_decode_plain: "plain s \<Longrightarrow> url_decode s = s"
  by (induction s rule: url_decode.induct) (auto simp: plain_def)

lemma latin_encode: "latin s \<Longrightarrow> latin (pct_encode s)"
  by (auto simp: latin_def pct_encode_def pct_digit_def)

lemma latin_encode_power: "latin s \<Longrightarrow> latin ((pct_encode ^^ k) s)"
  by (induction k) (simp_all add: latin_encode)

lemma decode_passes_encoded:
  "plain s \<Longrightarrow> k \<le> n \<Longrightarrow> decode_passes n ((pct_encode ^^ k) s) = s"
proof (induction n arbitrary: k)
  case 0
  then show ?case by simp
next
  case (Suc n)
  then have l: "latin s" by (auto simp: plain_def latin_def)
  show ?case
  proof (cases k)
    case 0
    then show ?thesis using Suc.prems by (simp add: url_decode_plain)
  next
    case (Suc j)
    have "url_decode ((pct_encode ^^ k) s) = (pct_encode ^^ j) s"
      using latin_encode_power [OF l, of j] by (simp add: Suc url_decode_encode)
    moreover have "decode_passes n ((pct_encode ^^ j) s) = s"
      using Suc.IH [of j] Suc.prems Suc by simp
    moreover have "s = (pct_encode ^^ j) s" if "(pct_encode ^^ j) s = (pct_encode ^^ k) s"
    proof -
      have "length ((pct_encode ^^ k) s) = 3 * length ((pct_encode ^^ j) s)"
        by (simp add: Suc pct_encode_def length_concat comp_def sum_list_triv)
      then have "(pct_encode ^^ j) s = []" using that by simp
      then have "s = []"
      proof (induction j)
        case (Suc i)
        then show ?case by (cases "(pct_encode ^^ i) s") (auto simp: pct_encode_def)
      qed simp
      then show ?thesis using \<open>(pct_encode ^^ j) s = []\<close> by simp
    qed
    ultimately show ?thesis by (auto simp: Let_def)
  qed
qed

lemma url_decode_recursive_encoded:
  assumes "plain s" and "k \<le> MAX_DECODE_PASSES"
  shows "url_decode_recursive ((pct_encode ^^ k) s) = s"
proof (cases k)
  case 0
  then show ?thesis
    using assms decode_passes_encoded [OF assms(1), of 0 2]
    by (simp add: url_decode_recursive_def url_decode_plain del: decode_passes.simps)
next
  case (Suc j)
  have "latin s" using assms(1) by (auto simp: plain_def latin_def)
  then have "url_decode ((pct_encode ^^ k) s) = (pct_encode ^^ j) s"
    using latin_encode_power [of s j] by (simp add: Suc url_decode_encode)
  then show ?thesis
    using decode_passes_encoded [OF assms(1), of j 2] assms(2) Suc
    by (simp add: url_decode_recursive_def del: decode_passes.simps)
qed

text \<open>(C20)
  Encoding does not hide a payload. If the injection automaton matches a payload without
  percent and plus signs, then the request whose URI is the payload encoded up to three times is
  refused with 403, when the size limits are kept; whatever the other parts of the request are.
\<close>
theorem encoded_payload_blocked:
  assumes "plain payload" and "k \<le> MAX_DECODE_PASSES" and "ac INJECTION_PATTERNS (utf8 payload)"
    and "str_len ((pct_encode ^^ k) payload) \<le> MAX_URI_LEN" and "str_len auth \<le> MAX_AUTH_HEADER_LEN"
  shows "inspect ac fx es rps now ((pct_encode ^^ k) payload) auth ua body ip shm
       = (Block 403 ''Forbidden: injection in URI'', increment_waf_blocks shm)"
  using assms url_decode_recursive_encoded [OF assms(1,2)]
  by (simp add: inspect_def waf_block_def)

text \<open>
  What the documentation of \<open>aho_corasick\<close> promises of an automaton that ignores ASCII case: it
  matches when some pattern occurs in the haystack.
\<close>

definition lower_byte :: "nat \<Rightarrow> nat" where
  "lower_byte b = (if 65 \<le> b \<and> b \<le> 90 then b + 32 else b)"

fun occurs :: "nat list \<Rightarrow> nat list \<Rightarrow> bool" where
  "occurs p [] = (p = [])"
| "occurs p (b # bs) = (prefix p (b # bs) \<or> occurs p bs)"

definition ac_reference :: "string list \<Rightarrow> nat list \<Rightarrow> bool" where
  "ac_reference pats hay = list_ex (\<lambda>p. occurs (map (\<lambda>c. lower_byte (of_char c)) p) (map lower_byte hay)) pats"

definition codes :: "string \<Rightarrow> ustr" where
  "codes = map of_char"

lemma ac_script: "ac_reference INJECTION_PATTERNS (utf8 (codes ''<script''))"
  by code_simp

theorem encoded_payload_blocked_witness:
  "fst (inspect ac_reference (\<lambda>_. 1) [] (\<lambda>_. 100) 7 ((pct_encode ^^ 3) (codes ''<script'')) [] [] [] [] (\<lambda>_. 0))
     = Block 403 ''Forbidden: injection in URI''"
proof -
  have "str_len ((pct_encode ^^ 3) (codes ''<script'')) \<le> MAX_URI_LEN" by code_simp
  moreover have "plain (codes ''<script'')" by code_simp
  ultimately show ?thesis
    using encoded_payload_blocked [of "codes ''<script''" 3 ac_reference "[]" "\<lambda>_. 1" "[]" "\<lambda>_. 100" 7 "[]" "[]" "[]" "\<lambda>_. 0"]
      ac_script by (simp add: str_len_def)
qed

text \<open>A stray percent sign hides an encoded payload. A percent sign before an encoded character makes
  the decoder consume the wrong two characters, so \<open>%%3Cscript\<close> stays as it is in every pass and a
  request with this URI is admitted by the reference automaton, although the same URI without
  the stray sign is refused.
\<close>
lemma stray_percent_evades:
  "url_decode_recursive (codes ''/p?x=%%3Cscript'') = codes ''/p?x=%%3Cscript''
   \<and> fst (inspect ac_reference fx es rps now (codes ''/p?x=%%3Cscript'') (codes ''Bearer t'') [] [] ip shm) = Allow
   \<and> fst (inspect ac_reference fx es rps now (codes ''/p?x=%3Cscript'') (codes ''Bearer t'') [] [] ip shm)
     = Block 403 ''Forbidden: injection in URI''"
proof (intro conjI)
  show d: "url_decode_recursive (codes ''/p?x=%%3Cscript'') = codes ''/p?x=%%3Cscript''" by code_simp
  have "\<not> ac_reference INJECTION_PATTERNS (utf8 (codes ''/p?x=%%3Cscript''))"
    "\<not> ac_reference BOT_PATTERNS (utf8 [])" "codes ''Bearer t'' \<noteq> []"
    "str_len (codes ''/p?x=%%3Cscript'') \<le> MAX_URI_LEN" "str_len (codes ''/p?x=%3Cscript'') \<le> MAX_URI_LEN"
    "str_len (codes ''Bearer t'') \<le> MAX_AUTH_HEADER_LEN"
    by code_simp+
  moreover have "ac_reference INJECTION_PATTERNS (utf8 (url_decode_recursive (codes ''/p?x=%3Cscript'')))"
    by code_simp
  ultimately show "fst (inspect ac_reference fx es rps now (codes ''/p?x=%%3Cscript'') (codes ''Bearer t'') [] [] ip shm) = Allow"
    and "fst (inspect ac_reference fx es rps now (codes ''/p?x=%3Cscript'') (codes ''Bearer t'') [] [] ip shm)
     = Block 403 ''Forbidden: injection in URI''"
    using d by (simp_all add: inspect_def waf_block_def truncate_on_char_boundary_def)
qed

section \<open>Accounting\<close>

text \<open>Every block is counted exactly once and nothing else is. The block counter grows by one when
  the decision is a block and is unchanged when it is not, whatever other workers do to the
  window words; every code is 400, 403 or 429; and no word but the counter and the address's own
  window word changes.
\<close>
lemma waf_blocks_counted_once:
  "case inspect ac fx es rps now uri auth ua body ip shm of (d, shm') \<Rightarrow>
     waf_blocks_total shm' = waf_blocks_total shm + (if d = Allow then 0 else 1)
   \<and> (case d of Allow \<Rightarrow> True | Block code _ \<Rightarrow> code \<in> {400, 403, 429})
   \<and> {i. shm' i \<noteq> shm i} \<subseteq> {0, ip_slot fx ip}"
proof -
  have "0 < ip_slot fx ip" by (simp add: ip_slot_def)
  then have "case ip_rate_exceeded fx es rps now ip shm of (b, shm1) \<Rightarrow>
      shm1 0 = shm 0 \<and> {i. shm1 i \<noteq> shm i} \<subseteq> {0, ip_slot fx ip}"
    by (auto simp: ip_rate_exceeded_def Let_def split: prod.splits option.splits)
  then obtain b shm1 where r: "ip_rate_exceeded fx es rps now ip shm = (b, shm1)" "shm1 0 = shm 0"
    "{i. shm1 i \<noteq> shm i} \<subseteq> {0, ip_slot fx ip}" by (auto split: prod.splits)
  have upd: "{i. (s(0 := x)) i \<noteq> shm i} \<subseteq> {0, ip_slot fx ip}"
    if "{i. s i \<noteq> shm i} \<subseteq> {0, ip_slot fx ip}" for s x using that by auto
  show ?thesis
    using upd [of shm] upd [OF r(3)] r
    by (cases b) (simp_all add: inspect_def waf_block_def increment_waf_blocks_def waf_blocks_total_def)
qed

end
