(* ===== verification/Rust_Str.thy ===== *)
theory Rust_Str
  imports Std_Parse
begin

text \<open>
  Operations of Rust's \<open>str\<close> and \<open>String\<close> beyond the prelude: trimming, splitting, joining, case
  mapping and decimal formatting, on the UTF-8 bytes of the string.
\<close>

section \<open>Trimming\<close>

text \<open>The UTF-8 encodings of the characters with the property \<open>White_Space\<close>.\<close>

definition ws_encodings :: "string list" where
  "ws_encodings =
     map (\<lambda>b. [char_of (b :: nat)]) [9, 10, 11, 12, 13, 32]
     @ map (map (\<lambda>b. char_of (b :: nat)))
         ([[0xC2, 0x85], [0xC2, 0xA0], [0xE1, 0x9A, 0x80], [0xE2, 0x80, 0xA8], [0xE2, 0x80, 0xA9],
           [0xE2, 0x80, 0xAF], [0xE2, 0x81, 0x9F], [0xE3, 0x80, 0x80]]
          @ map (\<lambda>i. [0xE2, 0x80, 0x80 + i]) [0..<11])"

lemma ws_encodings_nonempty: "w \<in> set ws_encodings \<Longrightarrow> w \<noteq> []"
  by (auto simp: ws_encodings_def)

lemma find_ws: "find P ws_encodings = Some w \<Longrightarrow> P w \<and> w \<noteq> []"
  using ws_encodings_nonempty by (auto simp: find_Some_iff)

function trim_start :: "string \<Rightarrow> string" where
  "trim_start s = (case find (\<lambda>w. prefix w s) ws_encodings of
       Some w \<Rightarrow> trim_start (drop (length w) s) | None \<Rightarrow> s)"
  by auto
termination
  by (relation "measure length")
    (auto dest!: find_ws simp: prefix_def)

function trim_end :: "string \<Rightarrow> string" where
  "trim_end s = (case find (\<lambda>w. suffix w s) ws_encodings of
       Some w \<Rightarrow> trim_end (take (length s - length w) s) | None \<Rightarrow> s)"
  by auto
termination
  by (relation "measure length")
    (auto dest!: find_ws simp: suffix_def)

declare trim_start.simps [simp del] trim_end.simps [simp del]

definition trim :: "string \<Rightarrow> string" where
  "trim s = trim_end (trim_start s)"

lemma trim_start_Nil [simp]: "trim_start [] = []"
proof -
  have "find (\<lambda>w. prefix w []) ws_encodings = None"
    using ws_encodings_nonempty by (auto simp: find_None_iff)
  then show ?thesis by (subst trim_start.simps) (simp del: prefix_Nil)
qed

lemma trim_end_Nil [simp]: "trim_end [] = []"
proof -
  have "find (\<lambda>w. suffix w []) ws_encodings = None"
    using ws_encodings_nonempty by (auto simp: find_None_iff)
  then show ?thesis by (subst trim_end.simps) (simp del: suffix_Nil)
qed

lemma trim_Nil [simp]: "trim [] = []"
  by (simp add: trim_def)

text \<open>A string that starts and ends with a printable ASCII character is not changed.\<close>

definition printable :: "char \<Rightarrow> bool" where
  "printable c \<longleftrightarrow> 32 < (of_char c :: nat) \<and> (of_char c :: nat) < 127"

lemma ws_ends: "list_all (\<lambda>w. \<not> printable (hd w) \<and> \<not> printable (last w)) ws_encodings"
  by (simp add: ws_encodings_def printable_def upt_rec)

lemma trim_printable:
  assumes "s \<noteq> []" and "printable (hd s)" and "printable (last s)"
  shows "trim s = s"
proof -
  have "\<not> prefix w s \<and> \<not> suffix w s" if "w \<in> set ws_encodings" for w
  proof -
    have "w \<noteq> []" "\<not> printable (hd w)" "\<not> printable (last w)"
      using ws_encodings_nonempty [OF that] ws_ends that by (auto simp: list_all_iff)
    then show ?thesis using assms by (auto simp: prefix_def suffix_def)
  qed
  then have "find (\<lambda>w. prefix w s) ws_encodings = None" "find (\<lambda>w. suffix w s) ws_encodings = None"
    by (auto simp: find_None_iff)
  then show ?thesis by (simp add: trim_def trim_start.simps [of s] trim_end.simps [of s])
qed

section \<open>Splitting and joining\<close>

text \<open>\<open>split\<close> by a character: always at least one piece.\<close>

fun split_on :: "char \<Rightarrow> string \<Rightarrow> string list" where
  "split_on c [] = [[]]"
| "split_on c (x # xs) =
     (if x = c then [] # split_on c xs
      else (case split_on c xs of [] \<Rightarrow> [[x]] | p # ps \<Rightarrow> (x # p) # ps))"

text \<open>\<open>splitn(n, c)\<close>: at most \<open>n\<close> pieces, the last one is the rest.\<close>

fun splitn :: "nat \<Rightarrow> char \<Rightarrow> string \<Rightarrow> string list" where
  "splitn 0 c s = []"
| "splitn (Suc 0) c s = [s]"
| "splitn (Suc (Suc n)) c s =
     (let p = takeWhile (\<lambda>x. x \<noteq> c) s; r = dropWhile (\<lambda>x. x \<noteq> c) s in
      case r of [] \<Rightarrow> [p] | _ # rest \<Rightarrow> p # splitn (Suc n) c rest)"

fun join_with :: "string \<Rightarrow> string list \<Rightarrow> string" where
  "join_with sep [] = []"
| "join_with sep [s] = s"
| "join_with sep (s # ss) = s @ sep @ join_with sep ss"

section \<open>Case and characters\<close>

text \<open>Upper case of ASCII letters; the names it is applied to are ASCII identifiers.\<close>

definition to_uppercase :: "string \<Rightarrow> string" where
  "to_uppercase = map (\<lambda>c. if 97 \<le> (of_char c :: nat) \<and> (of_char c :: nat) \<le> 122
                          then char_of ((of_char c :: nat) - 32) else c)"

definition replace_char :: "char \<Rightarrow> string \<Rightarrow> string \<Rightarrow> string" where
  "replace_char c r s = concat (map (\<lambda>x. if x = c then r else [x]) s)"

section \<open>Decimal formatting\<close>

fun dec_string :: "nat \<Rightarrow> string" where
  "dec_string n = (if n < 10 then [char_of (48 + n)] else dec_string (n div 10) @ [char_of (48 + n mod 10)])"

declare dec_string.simps [simp del]

lemma digit_char: "d < 10 \<Longrightarrow> is_digit (char_of (48 + d)) \<and> digit_val (char_of (48 + d)) = d"
  by (simp add: is_digit_def digit_val_def)

lemma dec_string_digits: "dec_string n \<noteq> [] \<and> list_all is_digit (dec_string n)"
proof (induction n rule: dec_string.induct)
  case (1 n)
  then show ?case by (subst (1 2) dec_string.simps) (simp add: digit_char)
qed

lemma dec_val_string: "dec_val (dec_string n) = n"
proof (induction n rule: dec_string.induct)
  case (1 n)
  show ?case
  proof (cases "n < 10")
    case True
    then show ?thesis by (subst dec_string.simps) (simp add: dec_val_def digit_char)
  next
    case False
    then show ?thesis using 1 by (subst dec_string.simps) (simp add: dec_val_def digit_char)
  qed
qed

lemma parse_nat_dec_string: "parse_nat (dec_string n) = Some n"
proof -
  obtain c cs where d: "dec_string n = c # cs" using dec_string_digits [of n] by (cases "dec_string n") auto
  have "c \<noteq> CHR ''+''" using dec_string_digits [of n] by (auto simp: d is_digit_def)
  then show ?thesis
    using dec_string_digits [of n] dec_val_string [of n] by (simp add: parse_nat_def d Let_def)
qed

section \<open>Hexadecimal formatting\<close>

definition hex_char :: "nat \<Rightarrow> char" where
  "hex_char n = char_of (if n < 10 then 48 + n else 87 + n)"

text \<open>The format \<open>{:02x}\<close> of a byte.\<close>

definition hex_byte :: "u8 \<Rightarrow> string" where
  "hex_byte b = [hex_char (unat b div 16), hex_char (unat b mod 16)]"

text \<open>The formats \<open>{:x}\<close> and \<open>{:0wx}\<close>, and the value of a string of such digits.\<close>

fun hex_string :: "nat \<Rightarrow> string" where
  "hex_string n = (if n < 16 then [hex_char n] else hex_string (n div 16) @ [hex_char (n mod 16)])"

declare hex_string.simps [simp del]

definition hex_pad :: "nat \<Rightarrow> nat \<Rightarrow> string" where
  "hex_pad w n = replicate (w - length (hex_string n)) CHR ''0'' @ hex_string n"

definition hex_digit_val :: "char \<Rightarrow> nat" where
  "hex_digit_val c = (if 97 \<le> (of_char c :: nat) then of_char c - 87 else of_char c - 48)"

definition hex_val :: "string \<Rightarrow> nat" where
  "hex_val ds = fold (\<lambda>c n. 16 * n + hex_digit_val c) ds 0"

lemma hex_digit_val_char: "d < 16 \<Longrightarrow> hex_digit_val (hex_char d) = d"
  by (simp add: hex_digit_val_def hex_char_def)

lemma hex_val_string: "hex_val (hex_string n) = n"
proof (induction n rule: hex_string.induct)
  case (1 n)
  then show ?case by (subst hex_string.simps) (simp add: hex_val_def hex_digit_val_char)
qed

lemma hex_val_pad [simp]: "hex_val (hex_pad w n) = n"
proof -
  have "fold (\<lambda>c n. 16 * n + hex_digit_val c) (replicate k CHR ''0'') (0 :: nat) = 0" for k
    by (induction k) (simp_all add: hex_digit_val_def)
  then show ?thesis using hex_val_string [of n] by (simp add: hex_pad_def hex_val_def)
qed

lemma hex_string_length: "0 < w \<Longrightarrow> n < 16 ^ w \<Longrightarrow> length (hex_string n) \<le> w"
proof (induction n arbitrary: w rule: hex_string.induct)
  case (1 n)
  show ?case
  proof (cases "n < 16")
    case False
    then have "1 < w" using 1(3) by (cases "w = 1") (use 1(2) in auto)
    then obtain v where w: "w = Suc v" "0 < v" by (cases w) auto
    have "n div 16 < 16 ^ v" using 1(3) by (simp add: w less_mult_imp_div_less mult.commute)
    then show ?thesis using 1(1) [OF False w(2)] False by (subst hex_string.simps) (simp add: w(1))
  qed (use 1(2) in \<open>subst hex_string.simps, simp\<close>)
qed

lemma hex_pad_length [simp]: "0 < w \<Longrightarrow> n < 16 ^ w \<Longrightarrow> length (hex_pad w n) = w"
  using hex_string_length [of w n] by (simp add: hex_pad_def)

lemma hex_pad_u32 [simp]: "length (hex_pad 8 (unat (w :: u32))) = 8"
proof -
  have "unat w < 2 ^ LENGTH(32)" by (rule unsigned_less)
  then show ?thesis by (intro hex_pad_length) simp_all
qed

lemma hex_pad_u64 [simp]: "length (hex_pad 16 (unat (w :: u64))) = 16"
proof -
  have "unat w < 2 ^ LENGTH(64)" by (rule unsigned_less)
  then show ?thesis by (intro hex_pad_length) simp_all
qed

lemma hex_pad_inject: "hex_pad a (unat w) = hex_pad a (unat v) \<longleftrightarrow> w = v"
  by (metis hex_val_pad word_unat_eq_iff)

end
