(* ===== verification/Revocation.thy ===== *)
theory Revocation
  imports Rust_Str
begin

text \<open>
  The local snapshot of revoked tokens and token-version floors, \<open>rust-ext/src/revocation.rs\<close>: the
  queries of the hot path and the cycle of the synchronising thread, which reads the deltas of
  two Redis indexes above a watermark, fetches the changed floors in chunks, optionally scans
  the key space, and publishes a new snapshot. The Redis server and the connection are a world
  \<open>'w\<close> with the five commands the thread issues; each may fail. Times are read where the code
  reads them.
\<close>

section \<open>The snapshot\<close>

record RevocationSnapshot =
  rs_revoked :: "string \<rightharpoonup> u64"
  rs_tv_floors :: "string \<rightharpoonup> u64"
  rs_synced_at_ms :: u64
  rs_generation :: u64

definition snapshot_empty :: RevocationSnapshot where
  "snapshot_empty = \<lparr>rs_revoked = Map.empty, rs_tv_floors = Map.empty, rs_synced_at_ms = 0, rs_generation = 0\<rparr>"

definition jti_key :: "string \<Rightarrow> string" where
  "jti_key j = ''gateway:revoked:jti:'' @ j"

definition token_key :: "string \<Rightarrow> string" where
  "token_key hash_hex = ''gateway:revoked:token:'' @ hash_hex"

text \<open>An entry of the map that has not expired.\<close>

definition live_entry :: "RevocationSnapshot \<Rightarrow> u64 \<Rightarrow> string \<Rightarrow> bool" where
  "live_entry snap now key = (case rs_revoked snap key of Some expiry \<Rightarrow> now < expiry | None \<Rightarrow> False)"

definition is_revoked :: "RevocationSnapshot \<Rightarrow> u64 \<Rightarrow> string option \<Rightarrow> string \<Rightarrow> bool" where
  "is_revoked snap now jti hash_hex =
     (if (case jti of Some j \<Rightarrow> j \<noteq> [] \<and> live_entry snap now (jti_key j) | None \<Rightarrow> False) then True
      else live_entry snap now (token_key hash_hex))"

datatype TvStatus = TvValid | TvStale

definition tv_status :: "RevocationSnapshot \<Rightarrow> string \<Rightarrow> u64 option \<Rightarrow> TvStatus" where
  "tv_status snap user_id token_tv =
     (case rs_tv_floors snap user_id of
        None \<Rightarrow> TvValid
      | Some flr \<Rightarrow> if token_tv = Some flr then TvValid else TvStale)"

section \<open>Configuration\<close>

definition sync_interval_secs :: "env \<Rightarrow> u64" where
  "sync_interval_secs env =
     (case Option.bind (env ''AUTH_SNAPSHOT_SYNC_SECS'') parse_uint of Some v \<Rightarrow> clamp 1 300 v | None \<Rightarrow> 5)"

definition scan_fallback_enabled :: "env \<Rightarrow> bool" where
  "scan_fallback_enabled env = env_flag env ''AUTH_SNAPSHOT_SCAN_FALLBACK''"

definition sync_io_timeout :: "env \<Rightarrow> u64" where
  "sync_io_timeout env =
     (case Option.bind (env ''AUTH_SNAPSHOT_TIMEOUT_MS'') parse_uint of Some v \<Rightarrow> clamp 100 30000 v | None \<Rightarrow> 5000)"

definition REV_INDEX_KEY :: string where "REV_INDEX_KEY = ''gateway:revocation:index''"
definition TV_INDEX_KEY :: string where "TV_INDEX_KEY = ''gateway:tv:index''"
definition TV_KEY_PREFIX :: string where "TV_KEY_PREFIX = ''gateway:user:tv:''"
definition SKEW_OVERLAP_SECS :: f64 where "SKEW_OVERLAP_SECS = Fin 60"
definition MGET_CHUNK :: nat where "MGET_CHUNK = 500"
definition SCAN_MAX_PAGES :: nat where "SCAN_MAX_PAGES = 20"

definition snapshot_stale :: "env \<Rightarrow> u64 \<Rightarrow> RevocationSnapshot \<Rightarrow> bool" where
  "snapshot_stale env now_ms snap =
     (if rs_generation snap = 0 then True
      else sync_interval_secs env * 3000 + 5000 < sat_sub now_ms (rs_synced_at_ms snap))"

text \<open>The sizes of the two maps are counted on their finite domains.\<close>

definition rev_stats :: "u64 \<Rightarrow> RevocationSnapshot \<Rightarrow> u64 \<times> u64 \<times> nat \<times> nat" where
  "rev_stats now_ms snap =
     (rs_generation snap,
      if rs_synced_at_ms snap = 0 then 0 else sat_sub now_ms (rs_synced_at_ms snap) div 1000,
      card (dom (rs_revoked snap)), card (dom (rs_tv_floors snap)))"

section \<open>The commands\<close>

record 'w rev_api =
  ra_open :: "u64 \<Rightarrow> string \<Rightarrow> 'w \<Rightarrow> bool \<times> 'w"
  ra_zrangebyscore :: "string \<Rightarrow> f64 \<Rightarrow> 'w \<Rightarrow> (string \<times> f64) list option \<times> 'w"
  ra_mget :: "string list \<Rightarrow> 'w \<Rightarrow> string option list option \<times> 'w"
  ra_scan :: "u64 \<Rightarrow> 'w \<Rightarrow> (u64 \<times> string list) option \<times> 'w"
  ra_zremrangebyscore :: "string \<Rightarrow> u64 \<Rightarrow> 'w \<Rightarrow> 'w"

definition open_connection :: "'w rev_api \<Rightarrow> env \<Rightarrow> string \<Rightarrow> 'w \<Rightarrow> bool \<times> 'w" where
  "open_connection api env url w = ra_open api (sync_io_timeout env) url w"

section \<open>Fetching the floors\<close>

function chunks :: "nat \<Rightarrow> 'a list \<Rightarrow> 'a list list" where
  "chunks n xs = (if xs = [] \<or> n = 0 then [] else take n xs # chunks n (drop n xs))"
  by auto
termination
  by (relation "measure (\<lambda>(n, xs). length xs)") auto

declare chunks.simps [simp del]

lemma chunks_Nil [simp]: "chunks n [] = []"
  by (subst chunks.simps) simp

definition put_floors ::
    "(string \<times> string option) list \<Rightarrow> (string \<rightharpoonup> u64 option) \<Rightarrow> (string \<rightharpoonup> u64 option)" where
  "put_floors uvs m = fold (\<lambda>(u, v) m. m(u \<mapsto> Option.bind v parse_uint)) uvs m"

fun fetch_floors ::
    "'w rev_api \<Rightarrow> string list list \<Rightarrow> (string \<rightharpoonup> u64 option) \<Rightarrow> 'w \<Rightarrow> (string \<rightharpoonup> u64 option) option \<times> 'w" where
  "fetch_floors api [] m w = (Some m, w)"
| "fetch_floors api (c # cs) m w =
     (case ra_mget api (map (\<lambda>u. TV_KEY_PREFIX @ u) c) w of
        (None, w1) \<Rightarrow> (None, w1)
      | (Some vals, w1) \<Rightarrow> fetch_floors api cs (put_floors (zip c vals) m) w1)"

section \<open>Scanning\<close>

fun scan_revoked_keys :: "nat \<Rightarrow> 'w rev_api \<Rightarrow> string list \<Rightarrow> u64 \<Rightarrow> 'w \<Rightarrow> string list option \<times> 'w" where
  "scan_revoked_keys 0 api out cursor w = (Some out, w)"
| "scan_revoked_keys (Suc n) api out cursor w =
     (case ra_scan api cursor w of
        (None, w1) \<Rightarrow> (None, w1)
      | (Some (nxt, page), w1) \<Rightarrow>
          if nxt = 0 then (Some (out @ page), w1) else scan_revoked_keys n api (out @ page) nxt w1)"

section \<open>One cycle\<close>

definition score_from :: "f64 \<Rightarrow> f64 \<Rightarrow> f64" where
  "score_from prior overlap = (if f_is_finite prior then f_sub prior overlap else prior)"

definition max_score :: "(string \<times> f64) list \<Rightarrow> f64 \<Rightarrow> f64" where
  "max_score delta prior = fold (\<lambda>(_, score) mx. if f_lt mx score then score else mx) delta prior"

definition rebuild_revoked ::
    "env \<Rightarrow> u64 \<Rightarrow> (string \<times> f64) list \<Rightarrow> string list option \<Rightarrow> (string \<rightharpoonup> u64) \<Rightarrow> (string \<rightharpoonup> u64)" where
  "rebuild_revoked env now delta scanned prev =
     (let kept = (\<lambda>k. case prev k of Some e \<Rightarrow> if now < e then Some e else None | None \<Rightarrow> None);
          with_delta = fold (\<lambda>(k, score) m. m(k \<mapsto> f_to_word score)) delta kept in
      case scanned of
        Some keys \<Rightarrow> fold (\<lambda>k m. m(k \<mapsto> now + sync_interval_secs env * 6)) keys with_delta
      | None \<Rightarrow> with_delta)"

definition rebuild_floors :: "(string \<rightharpoonup> u64 option) \<Rightarrow> (string \<rightharpoonup> u64) \<Rightarrow> (string \<rightharpoonup> u64)" where
  "rebuild_floors fetched prev = (\<lambda>u. case fetched u of None \<Rightarrow> prev u | Some v \<Rightarrow> v)"

definition next_score :: "f64 \<Rightarrow> f64 \<Rightarrow> f64" where
  "next_score mx prior = (if f_is_finite mx then mx else prior)"

text \<open>The state of the thread, with the published snapshot and the counters.\<close>

record 'w rev_state =
  rv_snapshot :: RevocationSnapshot
  rv_last_rev :: f64
  rv_last_tv :: f64
  rv_sync_ok :: u64
  rv_sync_err :: u64
  rv_world :: 'w

definition sync_once :: "'w rev_api \<Rightarrow> env \<Rightarrow> string \<Rightarrow> u64 \<Rightarrow> u64 \<Rightarrow> 'w rev_state \<Rightarrow> bool \<times> 'w rev_state" where
  "sync_once api env url now now_ms st =
     (case open_connection api env url (rv_world st) of
        (False, w1) \<Rightarrow> (False, st\<lparr>rv_world := w1\<rparr>)
      | (True, w1) \<Rightarrow>
     (case ra_zrangebyscore api REV_INDEX_KEY (score_from (rv_last_rev st) SKEW_OVERLAP_SECS) w1 of
        (None, w2) \<Rightarrow> (False, st\<lparr>rv_world := w2\<rparr>)
      | (Some rev_delta, w2) \<Rightarrow>
     (case ra_zrangebyscore api TV_INDEX_KEY
             (score_from (rv_last_tv st) (f_mul SKEW_OVERLAP_SECS (Fin 1000))) w2 of
        (None, w3) \<Rightarrow> (False, st\<lparr>rv_world := w3\<rparr>)
      | (Some tv_delta, w3) \<Rightarrow>
     (case fetch_floors api (chunks MGET_CHUNK (map fst tv_delta)) Map.empty w3 of
        (None, w4) \<Rightarrow> (False, st\<lparr>rv_world := w4\<rparr>)
      | (Some fetched, w4) \<Rightarrow>
     (case (if scan_fallback_enabled env then scan_revoked_keys SCAN_MAX_PAGES api [] 0 w4 else (None, w4)) of
        (scanned, w5) \<Rightarrow>
          (let prev = rv_snapshot st;
               snap = \<lparr>rs_revoked = rebuild_revoked env now rev_delta scanned (rs_revoked prev),
                       rs_tv_floors = rebuild_floors fetched (rs_tv_floors prev),
                       rs_synced_at_ms = now_ms, rs_generation = rs_generation prev + 1\<rparr> in
           (True, st\<lparr>rv_snapshot := snap,
                     rv_last_rev := next_score (max_score rev_delta (rv_last_rev st)) (rv_last_rev st),
                     rv_last_tv := next_score (max_score tv_delta (rv_last_tv st)) (rv_last_tv st),
                     rv_world := ra_zremrangebyscore api REV_INDEX_KEY (sat_sub now 3600) w5\<rparr>)))))))"

text \<open>One turn of the loop, and the state it starts from.\<close>

definition loop_sync_step :: "'w rev_api \<Rightarrow> env \<Rightarrow> string \<Rightarrow> u64 \<Rightarrow> u64 \<Rightarrow> 'w rev_state \<Rightarrow> 'w rev_state" where
  "loop_sync_step api env url now now_ms st =
     (case sync_once api env url now now_ms st of
        (True, st') \<Rightarrow> st'\<lparr>rv_sync_ok := rv_sync_ok st' + 1\<rparr>
      | (False, st') \<Rightarrow> st'\<lparr>rv_sync_err := rv_sync_err st' + 1\<rparr>)"

definition rev_start :: "'w \<Rightarrow> 'w rev_state" where
  "rev_start w = \<lparr>rv_snapshot = snapshot_empty, rv_last_rev = NInf, rv_last_tv = NInf,
                  rv_sync_ok = 0, rv_sync_err = 0, rv_world = w\<rparr>"

section \<open>What a cycle publishes\<close>

lemma fold_put_key:
  "fold (\<lambda>(k, s) m. m(k \<mapsto> f s)) kvs m key = (case map_of (rev kvs) key of Some s \<Rightarrow> Some (f s) | None \<Rightarrow> m key)"
  by (induction kvs arbitrary: m) (auto simp: map_add_def split: option.splits)

lemma fold_put_const: "fold (\<lambda>k m. m(k \<mapsto> v)) ks m key = (if key \<in> set ks then Some v else m key)"
  by (induction ks arbitrary: m) auto

lemma rebuild_revoked_key:
  "rebuild_revoked env now delta scanned prev key =
     (if (case scanned of Some ks \<Rightarrow> key \<in> set ks | None \<Rightarrow> False) then Some (now + sync_interval_secs env * 6)
      else case map_of (rev delta) key of
        Some s \<Rightarrow> Some (f_to_word s)
      | None \<Rightarrow> (case prev key of Some e \<Rightarrow> if now < e then Some e else None | None \<Rightarrow> None))"
  by (simp add: rebuild_revoked_def Let_def fold_put_key fold_put_const split: option.split)

lemma concat_chunks: "0 < n \<Longrightarrow> concat (chunks n xs) = xs"
proof (induction n xs rule: chunks.induct)
  case (1 n xs)
  then show ?case by (subst chunks.simps) auto
qed

lemma chunks_bounded: "c \<in> set (chunks n xs) \<Longrightarrow> length c \<le> n"
proof (induction n xs rule: chunks.induct)
  case (1 n xs)
  then show ?case by (subst (asm) (2) chunks.simps) (auto split: if_splits)
qed

text \<open>A cycle that fails publishes nothing and moves no watermark.\<close>

lemma sync_once_failed:
  assumes "sync_once api env url now now_ms st = (False, st')"
  shows "rv_snapshot st' = rv_snapshot st \<and> rv_last_rev st' = rv_last_rev st \<and> rv_last_tv st' = rv_last_tv st"
  using assms by (auto simp: sync_once_def Let_def split: prod.splits bool.splits option.splits if_splits)

lemma sync_once_done:
  assumes "sync_once api env url now now_ms st = (True, st')"
  obtains w1 rev_delta w2 tv_delta w3 fetched w4 scanned w5 where
    "open_connection api env url (rv_world st) = (True, w1)"
    "ra_zrangebyscore api REV_INDEX_KEY (score_from (rv_last_rev st) SKEW_OVERLAP_SECS) w1 = (Some rev_delta, w2)"
    "ra_zrangebyscore api TV_INDEX_KEY (score_from (rv_last_tv st) (f_mul SKEW_OVERLAP_SECS (Fin 1000))) w2 = (Some tv_delta, w3)"
    "fetch_floors api (chunks MGET_CHUNK (map fst tv_delta)) Map.empty w3 = (Some fetched, w4)"
    "(scanned, w5) = (if scan_fallback_enabled env then scan_revoked_keys SCAN_MAX_PAGES api [] 0 w4 else (None, w4))"
    "rs_revoked (rv_snapshot st') = rebuild_revoked env now rev_delta scanned (rs_revoked (rv_snapshot st))"
    "rs_tv_floors (rv_snapshot st') = rebuild_floors fetched (rs_tv_floors (rv_snapshot st))"
    "rv_last_rev st' = next_score (max_score rev_delta (rv_last_rev st)) (rv_last_rev st)"
    "rv_world st' = ra_zremrangebyscore api REV_INDEX_KEY (sat_sub now 3600) w5"
  using assms
  by (auto simp: sync_once_def Let_def split: prod.splits bool.splits option.splits if_splits)

lemma max_score_ge:
  assumes "m \<noteq> NaN"
  shows "f_le m (max_score delta m) \<and> max_score delta m \<noteq> NaN"
  using assms
proof (induction delta arbitrary: m)
  case Nil
  then show ?case by (cases m) (simp_all add: max_score_def f_le_def)
next
  case (Cons d delta)
  obtain k s where d: "d = (k, s)" by (cases d)
  let ?m = "if f_lt m s then s else m"
  have m': "?m \<noteq> NaN" "f_le m ?m"
    using Cons.prems by (cases m; cases s; simp add: f_le_def)+
  have "max_score (d # delta) m = max_score delta ?m" by (simp add: max_score_def d)
  then show ?case using Cons.IH [OF m'(1)] f_le_trans [OF m'(2)] by simp
qed

section \<open>Delivery and loss of revocations\<close>

text \<open>
  What the cycle relies on of the revocation index: an answer of \<open>ZRANGEBYSCORE\<close> lists exactly
  the members whose score is at least the lower end, and connecting changes no index.
\<close>

definition index_server :: "'w rev_api \<Rightarrow> ('w \<Rightarrow> string \<rightharpoonup> f64) \<Rightarrow> bool" where
  "index_server api revs \<longleftrightarrow>
     (\<forall>from w xs w' k s. ra_zrangebyscore api REV_INDEX_KEY from w = (Some xs, w')
        \<longrightarrow> ((k, s) \<in> set xs \<longleftrightarrow> revs w k = Some s \<and> f_le from s))
   \<and> (\<forall>t url w. revs (snd (ra_open api t url w)) = revs w)"

lemma f_lt_not_le: "f_lt x y \<Longrightarrow> \<not> f_le y x"
  by (cases x; cases y) (auto simp: f_le_def)

lemma f_lt_le_trans: "f_lt x y \<Longrightarrow> f_le y z \<Longrightarrow> f_lt x z"
  by (cases x; cases y; cases z) (auto simp: f_le_def)

lemma delta_of_index:
  assumes "index_server api revs" and "open_connection api env url w = (True, w1)"
    and "ra_zrangebyscore api REV_INDEX_KEY from w1 = (Some delta, w2)" and "revs w key = Some s"
  shows "map_of (rev delta) key = (if f_le from s then Some s else None)"
proof -
  have "revs w1 = revs w"
    using assms(1,2) unfolding index_server_def open_connection_def by (metis snd_conv)
  moreover have "(key, s') \<in> set delta \<longleftrightarrow> revs w1 key = Some s' \<and> f_le from s'" for s'
    using assms(1,3) unfolding index_server_def by blast
  ultimately have m: "(key, s') \<in> set delta \<longleftrightarrow> s' = s \<and> f_le from s" for s'
    using assms(4) by auto
  show ?thesis
  proof (cases "f_le from s")
    case True
    then have "map_of (rev delta) key \<noteq> None" using m [of s] weak_map_of_SomeI [of key s "rev delta"] by auto
    then show ?thesis using True m map_of_SomeD by fastforce
  next
    case False
    then show ?thesis using m by (auto simp: map_of_eq_None_iff)
  qed
qed

text \<open>(C21)
  Delivery. After a successful cycle (without the scan), a key of the revocation index whose
  score reaches the cycle's lower end is revoked exactly until that score.
\<close>
theorem revocation_delivered:
  assumes "index_server api revs" and "\<not> scan_fallback_enabled env"
    and "sync_once api env url now now_ms st = (True, st')"
    and "revs (rv_world st) key = Some (Fin s)" and "f_le (score_from (rv_last_rev st) SKEW_OVERLAP_SECS) (Fin s)"
  shows "live_entry (rv_snapshot st') t key \<longleftrightarrow> t < f_to_word (Fin s)"
  using assms(3)
proof (cases rule: sync_once_done)
  case (1 w1 delta w2 tv w3 fetched w4 scanned w5)
  have "map_of (rev delta) key = Some (Fin s)"
    using delta_of_index [OF assms(1) 1(1,2) assms(4)] assms(5) by simp
  then show ?thesis using 1(5,6) assms(2) by (simp add: live_entry_def rebuild_revoked_key)
qed

text \<open>The publishers act between two cycles; then the thread runs one.\<close>

definition rev_cycle ::
    "'w rev_api \<Rightarrow> env \<Rightarrow> string \<Rightarrow> 'w rev_state \<Rightarrow> ('w \<Rightarrow> 'w) \<times> u64 \<times> u64 \<Rightarrow> 'w rev_state" where
  "rev_cycle api env url st = (\<lambda>(publish, now, now_ms).
     loop_sync_step api env url now now_ms (st\<lparr>rv_world := publish (rv_world st)\<rparr>))"

definition missed :: "rat \<Rightarrow> string \<Rightarrow> 'w rev_state \<Rightarrow> bool" where
  "missed s key st \<longleftrightarrow> rs_revoked (rv_snapshot st) key = None
     \<and> (\<exists>x. rv_last_rev st = Fin x \<and> f_lt (Fin s) (score_from (Fin x) SKEW_OVERLAP_SECS))"

lemma missed_sync:
  assumes "index_server api revs" and "\<not> scan_fallback_enabled env" and "missed s key st"
    and "revs (rv_world st) key = Some (Fin s)"
  shows "missed s key (loop_sync_step api env url now now_ms st)"
proof (cases "sync_once api env url now now_ms st")
  case (Pair ok st')
  have ls: "missed s key (loop_sync_step api env url now now_ms st) = missed s key st'"
    using Pair by (cases ok) (simp_all add: loop_sync_step_def missed_def)
  obtain x where x: "rv_last_rev st = Fin x" "f_lt (Fin s) (score_from (Fin x) SKEW_OVERLAP_SECS)"
    and none: "rs_revoked (rv_snapshot st) key = None"
    using assms(3) unfolding missed_def by blast
  have "missed s key st'"
  proof (cases ok)
    case False
    then show ?thesis using sync_once_failed [of api env url now now_ms st st'] Pair assms(3) by (simp add: missed_def)
  next
    case True
    then have "sync_once api env url now now_ms st = (True, st')" using Pair by simp
    then show ?thesis
    proof (cases rule: sync_once_done)
      case (1 w1 delta w2 tv w3 fetched w4 scanned w5)
      have "map_of (rev delta) key = None"
        using delta_of_index [OF assms(1) 1(1,2) assms(4)] x f_lt_not_le by auto
      then have r: "rs_revoked (rv_snapshot st') key = None"
        using 1(5,6) assms(2) none by (simp add: rebuild_revoked_key)
      have "f_le (Fin x) (max_score delta (Fin x))" by (rule max_score_ge [THEN conjunct1]) simp
      then obtain y where y: "rv_last_rev st' = Fin y" "x \<le> y"
        using 1(8) x(1) by (cases "max_score delta (Fin x)") (auto simp: next_score_def)
      have "f_le (score_from (Fin x) SKEW_OVERLAP_SECS) (score_from (Fin y) SKEW_OVERLAP_SECS)"
        using y(2) f64_of_mono [of "x - 60" "y - 60"] by (simp add: score_from_def SKEW_OVERLAP_SECS_def f_sub_def)
      then show ?thesis using r y(1) x(2) f_lt_le_trans unfolding missed_def by blast
    qed
  qed
  then show ?thesis using ls by simp
qed

text \<open>With the fallback on, a key that the scan finds is live whatever its score is.\<close>

lemma scan_fallback_recovers:
  assumes "key \<in> set keys" and "now < now + sync_interval_secs env * 6"
  shows "live_entry (snap\<lparr>rs_revoked := rebuild_revoked env now delta (Some keys) prev\<rparr>) now key"
  using assms by (simp add: live_entry_def rebuild_revoked_def Let_def fold_put_const)

text \<open>(C35)
  Loss, in the default mode, in which the scan fallback \<open>AUTH_SNAPSHOT_SCAN_FALLBACK\<close> is off. The
  index is scored by expiry, and the cycle only reads scores from 60 seconds below the greatest one
  it has seen. So once a long-lived revocation has been synchronised, a token that is not in the
  snapshot, whose expiry lies more than 60 seconds before that one and that is revoked afterwards
  is never picked up from the index: however many cycles run, with whatever else is published, its
  key does not enter the snapshot. Redis is assumed to answer a range query on the index with the
  entries in that range. With the fallback on, a scan that finds the key does revoke it.
\<close>
theorem late_revocation_missed:
  fixes api :: "'w rev_api"
  assumes "index_server api revs" and "\<not> scan_fallback_enabled env"
    and "rv_last_rev st = Fin x" and "f_lt (Fin s) (f_sub (Fin x) (Fin 60))"
    and "rs_revoked (rv_snapshot st) key = None"
    and "\<And>publish now now_ms w. (publish, now, now_ms) \<in> set cycles \<Longrightarrow> revs (publish w) key = Some (Fin s)"
  shows "\<not> live_entry (rv_snapshot (run (rev_cycle api env url) st cycles)) t key"
proof -
  have "missed s key (run (rev_cycle api env url) st cycles)"
  proof (rule run_inv)
    show "missed s key st" using assms(3-5) by (simp add: missed_def score_from_def SKEW_OVERLAP_SECS_def)
    fix st' :: "'w rev_state" and c assume m: "missed s key st'" and "c \<in> set cycles"
    moreover obtain publish now now_ms where c: "c = (publish, now, now_ms)" by (cases c) auto
    ultimately have "revs (publish (rv_world st')) key = Some (Fin s)" using assms(6) by blast
    moreover have "missed s key (st'\<lparr>rv_world := publish (rv_world st')\<rparr>)" using m by (simp add: missed_def)
    ultimately show "missed s key (rev_cycle api env url st' c)"
      unfolding c rev_cycle_def prod.case by (intro missed_sync [OF assms(1,2)]) simp_all
  qed
  then show ?thesis by (simp add: missed_def live_entry_def)
qed

text \<open>A server with two keys, for the concrete instances below.\<close>

definition two_key_revs :: "f64 option \<times> f64 option \<Rightarrow> string \<rightharpoonup> f64" where
  "two_key_revs w k = (if k = token_key ''a'' then fst w else if k = token_key ''b'' then snd w else None)"

definition two_key_api :: "(f64 option \<times> f64 option) rev_api" where
  "two_key_api = \<lparr>ra_open = (\<lambda>_ _ w. (True, w)),
     ra_zrangebyscore = (\<lambda>key from w.
       (Some (if key = REV_INDEX_KEY
              then filter (\<lambda>(k, s). f_le from s)
                ((case fst w of Some s \<Rightarrow> [(token_key ''a'', s)] | None \<Rightarrow> [])
                 @ (case snd w of Some s \<Rightarrow> [(token_key ''b'', s)] | None \<Rightarrow> []))
              else []), w)),
     ra_mget = (\<lambda>ks w. (Some (map (\<lambda>_. None) ks), w)), ra_scan = (\<lambda>_ w. (Some (0, []), w)),
     ra_zremrangebyscore = (\<lambda>_ _ w. w)\<rparr>"

lemma two_key_server: "index_server two_key_api two_key_revs"
  by (auto simp: index_server_def two_key_api_def two_key_revs_def token_key_def split: option.splits)

definition two_key_state :: "(f64 option \<times> f64 option) rev_state" where
  "two_key_state = (rev_start (Some (Fin 10000), None))\<lparr>rv_last_rev := Fin 10000\<rparr>"

lemma f_sub_demo: "f_sub (Fin 10000) (Fin 60) = Fin 9940"
  using fl_of_int_exact [of 9940] by (simp add: f_sub_def f64_of_small)

theorem late_revocation_missed_witness:
  "\<not> live_entry (rv_snapshot (run (rev_cycle two_key_api Map.empty ''redis://r'') two_key_state
       [(\<lambda>w. (fst w, Some (Fin 5000)), 100, 100000), (\<lambda>w. (fst w, Some (Fin 5000)), 105, 105000)])) 110 (token_key ''b'')"
  by (rule late_revocation_missed [OF two_key_server, of _ _ 10000 5000])
    (auto simp: scan_fallback_enabled_def env_flag_def two_key_state_def f_sub_demo rev_start_def snapshot_empty_def
      two_key_revs_def token_key_def)

theorem revocation_delivered_witness:
  "live_entry (rv_snapshot (snd (sync_once two_key_api Map.empty ''redis://r'' 100 100000
       (rev_start (Some (Fin 5000), None))))) 110 (token_key ''a'')"
proof -
  let ?r = "sync_once two_key_api Map.empty ''redis://r'' 100 100000 (rev_start (Some (Fin 5000), None))"
  have "fst ?r"
    by (simp add: sync_once_def open_connection_def two_key_api_def scan_fallback_enabled_def env_flag_def Let_def
        TV_INDEX_KEY_def REV_INDEX_KEY_def)
  then obtain st' where s: "?r = (True, st')" by (cases ?r) auto
  have "live_entry (rv_snapshot st') 110 (token_key ''a'') \<longleftrightarrow> 110 < (f_to_word (Fin 5000) :: u64)"
    by (rule revocation_delivered [OF two_key_server _ s])
      (simp_all add: scan_fallback_enabled_def env_flag_def two_key_revs_def rev_start_def score_from_def f_le_def)
  then show ?thesis using s by simp
qed

section \<open>The floors\<close>

text \<open>\<open>MGET\<close> answers with the values of the keys in their order and changes nothing.\<close>

definition value_server :: "'w rev_api \<Rightarrow> ('w \<Rightarrow> string \<rightharpoonup> string) \<Rightarrow> bool" where
  "value_server api vals \<longleftrightarrow>
     (\<forall>ks w vs w'. ra_mget api ks w = (Some vs, w') \<longrightarrow> vs = map (vals w) ks \<and> vals w' = vals w)"

lemma put_floors_values:
  "put_floors (zip us (map f us)) m u = (if u \<in> set us then Some (Option.bind (f u) parse_uint) else m u)"
  by (induction us arbitrary: m) (auto simp: put_floors_def)

lemma fetch_floors_values:
  assumes "value_server api vals" and "fetch_floors api cs m w = (Some fetched, w')"
  shows "fetched u = (if u \<in> set (concat cs) then Some (Option.bind (vals w (TV_KEY_PREFIX @ u)) parse_uint) else m u)"
  using assms(2)
proof (induction cs arbitrary: m w)
  case Nil
  then show ?case by simp
next
  case (Cons c cs)
  obtain vs w1 where g: "ra_mget api (map (\<lambda>u. TV_KEY_PREFIX @ u) c) w = (Some vs, w1)"
    and r: "fetch_floors api cs (put_floors (zip c vs) m) w1 = (Some fetched, w')"
    using Cons.prems by (auto split: prod.splits option.splits)
  have vs: "vs = map (\<lambda>u. vals w (TV_KEY_PREFIX @ u)) c" and v1: "vals w1 = vals w"
    using g assms(1) unfolding value_server_def by (force simp: comp_def)+
  show ?case using Cons.IH [OF r] v1 vs by (simp add: put_floors_values)
qed

text \<open>Chunked fetching is exact. Whatever the number of changed users, fetching their floors 500 at
  a time gives every changed user exactly the number stored under its key (no floor if the key
  is absent or not a number), and the rebuilt floors keep every other user's.
\<close>
lemma floors_fetched_exactly:
  assumes "value_server api vals" and "fetch_floors api (chunks MGET_CHUNK users) Map.empty w = (Some fetched, w')"
  shows "rebuild_floors fetched prev u =
     (if u \<in> set users then Option.bind (vals w (TV_KEY_PREFIX @ u)) parse_uint else prev u)"
proof -
  have "concat (chunks MGET_CHUNK users) = users" by (rule concat_chunks) (simp add: MGET_CHUNK_def)
  then show ?thesis
    using fetch_floors_values [OF assms] by (simp add: rebuild_floors_def del: set_concat)
qed

definition floor_api :: "(string \<rightharpoonup> string) rev_api" where
  "floor_api = \<lparr>ra_open = (\<lambda>_ _ w. (True, w)), ra_zrangebyscore = (\<lambda>_ _ w. (Some [], w)),
     ra_mget = (\<lambda>ks w. (Some (map w ks), w)), ra_scan = (\<lambda>_ w. (Some (0, []), w)), ra_zremrangebyscore = (\<lambda>_ _ w. w)\<rparr>"

lemma floors_fetched_exactly_witness:
  "rebuild_floors (\<lambda>u. if u = ''al'' then Some (Some 7) else None) Map.empty ''al'' = Some 7"
proof -
  let ?w = "[TV_KEY_PREFIX @ ''al'' \<mapsto> ''7'']"
  have v: "value_server floor_api (\<lambda>w. w)" by (simp add: value_server_def floor_api_def)
  have p: "parse_uint ''7'' = Some (7 :: u64)"
    by (simp add: parse_uint_def parse_nat_def is_digit_def dec_val_def digit_val_def)
  have "chunks MGET_CHUNK [''al''] = [[''al'']]" by (subst chunks.simps) (simp add: MGET_CHUNK_def)
  then have "fetch_floors floor_api (chunks MGET_CHUNK [''al'']) Map.empty ?w
      = (Some (\<lambda>u. if u = ''al'' then Some (Some 7) else None), ?w)"
    by (simp add: floor_api_def put_floors_def p fun_eq_iff)
  from floors_fetched_exactly [OF v this, of Map.empty "''al''"] show ?thesis by (simp add: p)
qed

end
