(* ===== verification/Validate.thy ===== *)
theory Validate
  imports Rust_Str
begin

text \<open>
  Per-route body validation, \<open>rust-ext/src/validate.rs\<close>. JSON values are a datatype; the parser of
  \<open>serde_json\<close> is the parameter \<open>parse_json\<close>.
\<close>

datatype json = JNull | JBool bool | JNumber f64 | JString string | JArray "json list" | JObject "(string \<times> json) list"

datatype FieldType = FString | FNumber | FBoolean | FObject | FArray

record RequiredField =
  rf_field :: string
  rf_type :: FieldType

record ValidationConfig =
  max_body_bytes :: "usize option"
  require_json :: bool
  required :: "RequiredField list"

datatype Violation = TooLarge usize usize | NotJson | MissingField string | WrongType string string

fun ft_matches :: "FieldType \<Rightarrow> json \<Rightarrow> bool" where
  "ft_matches FString v = (case v of JString _ \<Rightarrow> True | _ \<Rightarrow> False)"
| "ft_matches FNumber v = (case v of JNumber _ \<Rightarrow> True | _ \<Rightarrow> False)"
| "ft_matches FBoolean v = (case v of JBool _ \<Rightarrow> True | _ \<Rightarrow> False)"
| "ft_matches FObject v = (case v of JObject _ \<Rightarrow> True | _ \<Rightarrow> False)"
| "ft_matches FArray v = (case v of JArray _ \<Rightarrow> True | _ \<Rightarrow> False)"

fun type_name :: "FieldType \<Rightarrow> string" where
  "type_name FString = ''a string''"
| "type_name FNumber = ''a number''"
| "type_name FBoolean = ''a boolean''"
| "type_name FObject = ''an object''"
| "type_name FArray = ''an array''"

fun violation_response :: "Violation \<Rightarrow> u16 \<times> string" where
  "violation_response (TooLarge actual limit) = (413, ''body exceeds '' @ dec_string (unat limit) @ '' bytes'')"
| "violation_response NotJson = (415, ''content-type must be application/json'')"
| "violation_response (MissingField f) = (400, ''missing field '' @ [CHR 0x27] @ f @ [CHR 0x27])"
| "violation_response (WrongType f expected) = (400, ''field '' @ [CHR 0x27] @ f @ [CHR 0x27] @ '' must be '' @ expected)"

text \<open>The loop over the required fields of a parsed object.\<close>

fun check_required :: "(string \<times> json) list \<Rightarrow> RequiredField list \<Rightarrow> Violation + unit" where
  "check_required obj [] = Inr ()"
| "check_required obj (r # rs) =
     (case map_of obj (rf_field r) of
        None \<Rightarrow> Inl (MissingField (rf_field r))
      | Some JNull \<Rightarrow> Inl (MissingField (rf_field r))
      | Some v \<Rightarrow> if \<not> ft_matches (rf_type r) v
                  then Inl (WrongType (rf_field r) (type_name (rf_type r)))
                  else check_required obj rs)"

text \<open>The checks after the size check.\<close>

definition validate_content ::
    "(string \<Rightarrow> json option) \<Rightarrow> ValidationConfig \<Rightarrow> string \<Rightarrow> string \<Rightarrow> Violation + unit" where
  "validate_content parse_json cfg content_type body =
     (let trimmed = trim body in
      if trimmed = [] then Inr ()
      else if require_json cfg
              \<and> \<not> starts_with (to_ascii_lowercase (trim content_type)) ''application/json''
      then Inl NotJson
      else if required cfg \<noteq> [] then
        (case parse_json trimmed of
           Some (JObject obj) \<Rightarrow> check_required obj (required cfg)
         | _ \<Rightarrow> Inl NotJson)
      else Inr ())"

definition validate_body ::
    "(string \<Rightarrow> json option) \<Rightarrow> ValidationConfig \<Rightarrow> string \<Rightarrow> string \<Rightarrow> Violation + unit" where
  "validate_body parse_json cfg content_type body =
     (let actual = of_nat (length body) :: usize in
      case max_body_bytes cfg of
        Some limit \<Rightarrow> if limit < actual then Inl (TooLarge actual limit)
                      else validate_content parse_json cfg content_type body
      | None \<Rightarrow> validate_content parse_json cfg content_type body)"

section \<open>What an accepted body satisfies\<close>

text \<open>A required field is present, not null and of the required type.\<close>

definition field_ok :: "(string \<times> json) list \<Rightarrow> RequiredField \<Rightarrow> bool" where
  "field_ok obj r \<longleftrightarrow> (case map_of obj (rf_field r) of Some v \<Rightarrow> v \<noteq> JNull \<and> ft_matches (rf_type r) v | None \<Rightarrow> False)"

lemma field_ok_iff: "field_ok obj r \<longleftrightarrow> (\<exists>v. map_of obj (rf_field r) = Some v \<and> ft_matches (rf_type r) v)"
  by (cases "rf_type r") (auto simp: field_ok_def split: option.splits json.splits)

lemma check_required_iff: "check_required obj rs = Inr () \<longleftrightarrow> (\<forall>r \<in> set rs. field_ok obj r)"
proof (induction rs)
  case (Cons r rs)
  show ?case
  proof (cases "map_of obj (rf_field r)")
    case None
    then show ?thesis by (simp add: field_ok_def)
  next
    case (Some v)
    then show ?thesis using Cons.IH by (cases v) (auto simp: field_ok_def)
  qed
qed simp

text \<open>The position of the first field that a loop over the required fields does not accept.\<close>

definition reached :: "(string \<times> json) list \<Rightarrow> RequiredField list \<Rightarrow> RequiredField \<Rightarrow> bool" where
  "reached obj rs r \<longleftrightarrow> (\<exists>before after. rs = before @ r # after \<and> (\<forall>q \<in> set before. field_ok obj q))"

lemma reached_simps [simp]:
  "\<not> reached obj [] r"
  "reached obj (q # rs) r \<longleftrightarrow> q = r \<or> field_ok obj q \<and> reached obj rs r"
proof -
  show "reached obj (q # rs) r \<longleftrightarrow> q = r \<or> field_ok obj q \<and> reached obj rs r" (is "?l = ?r")
  proof
    assume ?l
    then obtain before after where "q # rs = before @ r # after" "\<forall>q \<in> set before. field_ok obj q"
      by (auto simp: reached_def)
    then show ?r by (cases before) (auto simp: reached_def)
  next
    assume ?r
    then show ?l
    proof
      assume "q = r"
      then show ?l unfolding reached_def by (intro exI [of _ "[]"] exI [of _ rs]) simp
    next
      assume "field_ok obj q \<and> reached obj rs r"
      then obtain before after where "rs = before @ r # after" "\<forall>q' \<in> set (q # before). field_ok obj q'"
        by (auto simp: reached_def)
      then show ?l unfolding reached_def by (intro exI [of _ "q # before"] exI [of _ after]) simp
    qed
  qed
qed (simp add: reached_def)

lemma check_required_missing:
  "check_required obj rs = Inl (MissingField f) \<longleftrightarrow>
     (\<exists>r. reached obj rs r \<and> rf_field r = f \<and> map_of obj f \<in> {None, Some JNull})"
proof (induction rs)
  case (Cons q rs)
  show ?case
  proof (cases "map_of obj (rf_field q)")
    case None
    then show ?thesis by (auto simp: field_ok_def)
  next
    case (Some v)
    then show ?thesis using Cons.IH by (cases v) (auto simp: field_ok_def)
  qed
qed simp

lemma check_required_wrong:
  "check_required obj rs = Inl (WrongType f expected) \<longleftrightarrow>
     (\<exists>r v. reached obj rs r \<and> rf_field r = f \<and> map_of obj f = Some v \<and> v \<noteq> JNull
        \<and> \<not> ft_matches (rf_type r) v \<and> expected = type_name (rf_type r))"
proof (induction rs)
  case (Cons q rs)
  show ?case
  proof (cases "map_of obj (rf_field q)")
    case None
    then show ?thesis by (auto simp: field_ok_def)
  next
    case (Some v)
    then show ?thesis using Cons.IH by (cases v) (auto simp: field_ok_def)
  qed
qed simp

lemma check_required_only: "check_required obj rs \<noteq> Inl NotJson" "check_required obj rs \<noteq> Inl (TooLarge a l)"
  by (induction rs) (simp_all split: option.split json.split)

text \<open>The conditions in the order in which the code asks for them.\<close>

definition within_limit :: "ValidationConfig \<Rightarrow> string \<Rightarrow> bool" where
  "within_limit cfg body \<longleftrightarrow>
     (case max_body_bytes cfg of None \<Rightarrow> True | Some limit \<Rightarrow> length body \<le> unat limit)"

definition declared_json :: "ValidationConfig \<Rightarrow> string \<Rightarrow> bool" where
  "declared_json cfg content_type \<longleftrightarrow>
     (require_json cfg \<longrightarrow> prefix ''application/json'' (to_ascii_lowercase (trim content_type)))"

text \<open>The fields are looked at: a non-blank body within the limit, declared as asked, an object.\<close>

definition fields_of ::
    "(string \<Rightarrow> json option) \<Rightarrow> ValidationConfig \<Rightarrow> string \<Rightarrow> string \<Rightarrow> (string \<times> json) list \<Rightarrow> bool" where
  "fields_of parse_json cfg content_type body obj \<longleftrightarrow>
     within_limit cfg body \<and> trim body \<noteq> [] \<and> declared_json cfg content_type
   \<and> parse_json (trim body) = Some (JObject obj)"

lemma validate_body_split:
  assumes "length body < 2 ^ 64"
  shows "validate_body parse_json cfg content_type body =
    (if within_limit cfg body then validate_content parse_json cfg content_type body
     else Inl (TooLarge (of_nat (length body)) (the (max_body_bytes cfg))))"
proof -
  have "unat (of_nat (length body) :: usize) = length body" using assms by (simp add: unat_of_nat_small)
  then show ?thesis by (auto simp: validate_body_def within_limit_def Let_def word_less_nat_alt split: option.split)
qed

lemma validate_content_split:
  "validate_content parse_json cfg content_type body =
    (if trim body = [] then Inr ()
     else if \<not> declared_json cfg content_type then Inl NotJson
     else if required cfg = [] then Inr ()
     else case parse_json (trim body) of Some (JObject obj) \<Rightarrow> check_required obj (required cfg) | _ \<Rightarrow> Inl NotJson)"
  by (simp add: validate_content_def Let_def starts_with_def declared_json_def)

text \<open>(C29)
  Validation accepts exactly the bodies the policy allows, for bodies whose length is a \<open>usize\<close>: within the size limit, and either
  blank, or declared as JSON where the policy asks for it and, if fields are required, a JSON
  object in which every required field is present, not null and of the required type. Every
  refusal names the first violation in this order, and only that one. Too large: exactly when the
  body is longer than the limit, with both numbers. Not JSON: exactly when the size is fine, the
  body is not blank, and it is not declared as asked or, with fields required, not an object.
  Missing field and wrong type: exactly when the checks before pass, every required field before
  this one is fine, and this one is absent or null, or present, not null and of another type, which
  is then named. The statuses are 413, 415, 400 and 400.
\<close>
theorem validation_exact:
  assumes "length body < 2 ^ 64"
  shows "(validate_body parse_json cfg content_type body = Inr () \<longleftrightarrow>
      (case max_body_bytes cfg of None \<Rightarrow> True | Some limit \<Rightarrow> length body \<le> unat limit)
    \<and> (trim body = []
       \<or> (require_json cfg \<longrightarrow> prefix ''application/json'' (to_ascii_lowercase (trim content_type)))
         \<and> (required cfg = [] \<or> (\<exists>obj. parse_json (trim body) = Some (JObject obj)
                                     \<and> (\<forall>r \<in> set (required cfg). field_ok obj r)))))
   \<and> (\<forall>actual limit. validate_body parse_json cfg content_type body = Inl (TooLarge actual limit) \<longleftrightarrow>
        max_body_bytes cfg = Some limit \<and> unat actual = length body \<and> unat limit < length body)
   \<and> (validate_body parse_json cfg content_type body = Inl NotJson \<longleftrightarrow>
        within_limit cfg body \<and> trim body \<noteq> []
      \<and> (\<not> declared_json cfg content_type
         \<or> required cfg \<noteq> [] \<and> (\<nexists>obj. parse_json (trim body) = Some (JObject obj))))
   \<and> (\<forall>f. validate_body parse_json cfg content_type body = Inl (MissingField f) \<longleftrightarrow>
        (\<exists>obj r. fields_of parse_json cfg content_type body obj \<and> reached obj (required cfg) r
           \<and> rf_field r = f \<and> map_of obj f \<in> {None, Some JNull}))
   \<and> (\<forall>f expected. validate_body parse_json cfg content_type body = Inl (WrongType f expected) \<longleftrightarrow>
        (\<exists>obj r v. fields_of parse_json cfg content_type body obj \<and> reached obj (required cfg) r
           \<and> rf_field r = f \<and> map_of obj f = Some v \<and> v \<noteq> JNull \<and> \<not> ft_matches (rf_type r) v
           \<and> expected = type_name (rf_type r)))
   \<and> (\<forall>v. fst (violation_response v) =
        (case v of TooLarge _ _ \<Rightarrow> 413 | NotJson \<Rightarrow> 415 | MissingField _ \<Rightarrow> 400 | WrongType _ _ \<Rightarrow> 400))"
proof (intro conjI allI)
  have len: "unat (of_nat (length body) :: usize) = length body" using assms by (simp add: unat_of_nat_small)
  note split = validate_body_split [OF assms] validate_content_split
  show "validate_body parse_json cfg content_type body = Inr () \<longleftrightarrow>
      (case max_body_bytes cfg of None \<Rightarrow> True | Some limit \<Rightarrow> length body \<le> unat limit)
    \<and> (trim body = []
       \<or> (require_json cfg \<longrightarrow> prefix ''application/json'' (to_ascii_lowercase (trim content_type)))
         \<and> (required cfg = [] \<or> (\<exists>obj. parse_json (trim body) = Some (JObject obj)
                                     \<and> (\<forall>r \<in> set (required cfg). field_ok obj r))))"
    unfolding split declared_json_def [symmetric] within_limit_def [symmetric]
    by (auto simp: check_required_iff split: option.splits json.splits)
  show "validate_body parse_json cfg content_type body = Inl (TooLarge actual limit) \<longleftrightarrow>
      max_body_bytes cfg = Some limit \<and> unat actual = length body \<and> unat limit < length body" for actual limit
    unfolding split using len
    by (auto simp: within_limit_def check_required_only not_le word_unat_eq_iff split: option.splits json.splits)
  show "validate_body parse_json cfg content_type body = Inl NotJson \<longleftrightarrow>
      within_limit cfg body \<and> trim body \<noteq> []
    \<and> (\<not> declared_json cfg content_type
       \<or> required cfg \<noteq> [] \<and> (\<nexists>obj. parse_json (trim body) = Some (JObject obj)))"
    unfolding split by (auto simp: check_required_only split: option.splits json.splits)
  show "validate_body parse_json cfg content_type body = Inl (MissingField f) \<longleftrightarrow>
      (\<exists>obj r. fields_of parse_json cfg content_type body obj \<and> reached obj (required cfg) r
         \<and> rf_field r = f \<and> map_of obj f \<in> {None, Some JNull})" for f
    unfolding split fields_of_def
    by (cases "required cfg = []") (auto simp: check_required_missing split: option.splits json.splits)
  show "validate_body parse_json cfg content_type body = Inl (WrongType f expected) \<longleftrightarrow>
      (\<exists>obj r v. fields_of parse_json cfg content_type body obj \<and> reached obj (required cfg) r
         \<and> rf_field r = f \<and> map_of obj f = Some v \<and> v \<noteq> JNull \<and> \<not> ft_matches (rf_type r) v
         \<and> expected = type_name (rf_type r))" for f expected
    unfolding split fields_of_def
    by (cases "required cfg = []") (auto simp: check_required_wrong split: option.splits json.splits)
  show "fst (violation_response v) =
      (case v of TooLarge _ _ \<Rightarrow> 413 | NotJson \<Rightarrow> 415 | MissingField _ \<Rightarrow> 400 | WrongType _ _ \<Rightarrow> 400)" for v
    by (cases v) simp_all
qed

definition demo_policy :: ValidationConfig where
  "demo_policy = \<lparr>max_body_bytes = Some 100, require_json = True,
     required = [\<lparr>rf_field = ''name'', rf_type = FString\<rparr>]\<rparr>"

theorem validation_exact_witness:
  "validate_body (\<lambda>_. Some (JObject [(''name'', JString ''x'')])) demo_policy ''application/json'' ''{}'' = Inr ()"
proof -
  have "trim ''{}'' = ''{}''" by (rule trim_printable) (simp_all add: printable_def)
  moreover have "trim ''application/json'' = ''application/json''" by (rule trim_printable) (simp_all add: printable_def)
  then have "prefix ''application/json'' (to_ascii_lowercase (trim ''application/json''))"
    by (simp add: to_ascii_lowercase_def ascii_lower_def)
  ultimately show ?thesis
    using validation_exact [of "''{}''" "\<lambda>_. Some (JObject [(''name'', JString ''x'')])" demo_policy "''application/json''"]
    by (simp add: demo_policy_def field_ok_def)
qed

end
