(* ===== verification/Config.thy ===== *)
theory Config
  imports Validate
begin

text \<open>
  The configuration, \<open>rust-ext/src/config.rs\<close>: its data types with their defaults, the secrets and
  overrides taken from the environment, and the reload of the file the sidecar writes. The JSON
  parsers of \<open>serde_json\<close> are parameters. A \<open>HashMap\<close> is a map; nothing here depends on its order.
\<close>

section \<open>Data types\<close>

record Upstream =
  up_name :: string
  up_address :: string
  up_weight :: usize
  up_version :: string

record CanaryPolicy =
  cp_version :: string
  cp_percent :: u32

definition effective_percent :: "CanaryPolicy \<Rightarrow> u32" where
  "effective_percent p = min (cp_percent p) 100"

record Route =
  path_prefix :: string
  rt_service_name :: string
  rt_strip_prefix :: bool
  rt_tier :: string
  rt_validation :: "ValidationConfig option"

definition effective_tier :: "Route \<Rightarrow> string" where
  "effective_tier r = (if rt_tier r = ''fast'' \<or> rt_tier r = ''slow'' then rt_tier r else ''normal'')"

record QuotaPolicy =
  daily_limit :: u64
  borrow_percent :: u32

record ServiceConfig =
  sc_name :: string
  rate_limit_max :: usize
  regional_upstreams :: "string \<rightharpoonup> Upstream list"
  require_auth :: bool
  canary :: "CanaryPolicy option"
  quota :: "QuotaPolicy option"

record CorsConfig =
  allowed_origins :: "string list"
  allow_credentials :: bool
  allowed_methods :: string
  allowed_headers :: string
  max_age :: u32

definition ct_methods :: string where
  "ct_methods = ''GET, POST, PUT, PATCH, DELETE, OPTIONS''"

definition ct_headers :: string where
  "ct_headers = ''Content-Type, Authorization, X-Requested-With, Accept, Origin, X-CSRF-Token, X-Canary, X-Request-ID, traceparent''"

record HealthCheckConfig =
  hc_enabled :: bool
  hc_path :: string
  hc_interval_secs :: u64
  hc_timeout_ms :: u64
  hc_unhealthy_threshold :: u32
  hc_healthy_threshold :: u32

record GatewayConfig =
  version :: string
  global_max_concurrency :: usize
  jwt_secret :: string
  jwt_keys :: "string \<rightharpoonup> string"
  expected_issuer :: string
  expected_audience :: string
  services :: "string \<rightharpoonup> ServiceConfig"
  routes :: "Route list"
  health_check :: "HealthCheckConfig option"
  cors :: "CorsConfig option"

definition GatewayConfig_default :: GatewayConfig where
  "GatewayConfig_default =
     \<lparr>version = ''v0'', global_max_concurrency = 10000, jwt_secret = ''default_secret'',
      jwt_keys = Map.empty, expected_issuer = ''api-gateway-auth-server'',
      expected_audience = ''api-gateway-clients'', services = Map.empty, routes = [],
      health_check = None, cors = None\<rparr>"

section \<open>Overrides from the environment\<close>

definition parse_jwt_keys :: "(string \<Rightarrow> (string \<rightharpoonup> string) option) \<Rightarrow> string \<Rightarrow> (string \<rightharpoonup> string) option" where
  "parse_jwt_keys from_json raw =
     (if trim raw = [] then None
      else case from_json raw of
        Some keys \<Rightarrow> if keys \<noteq> Map.empty then Some keys else None
      | None \<Rightarrow> None)"

definition env_origins :: "string \<Rightarrow> string list" where
  "env_origins csv = filter (\<lambda>o'. o' \<noteq> []) (map trim (split_on CHR '','' csv))"

text \<open>The loop that appends the origins that are not there yet.\<close>

fun merge_origins :: "string list \<Rightarrow> string list \<Rightarrow> string list" where
  "merge_origins present [] = present"
| "merge_origins present (o' # os) =
     merge_origins (if list_ex (\<lambda>p. eq_ignore_ascii_case p o') present then present else present @ [o']) os"

definition override_cors :: "env \<Rightarrow> CorsConfig option \<Rightarrow> CorsConfig option" where
  "override_cors env c =
     (case env ''CORS_ALLOWED_ORIGINS'' of
        None \<Rightarrow> c
      | Some csv \<Rightarrow>
          (let os = env_origins csv in
           if os = [] then c
           else case c of
             Some cc \<Rightarrow> Some (cc\<lparr>allowed_origins := merge_origins (allowed_origins cc) os\<rparr>)
           | None \<Rightarrow> Some \<lparr>allowed_origins = os, allow_credentials = True, allowed_methods = ct_methods,
                           allowed_headers = ct_headers, max_age = 600\<rparr>))"

definition upstream_env_key :: "string \<Rightarrow> string" where
  "upstream_env_key service_name = ''UPSTREAM_'' @ replace_char CHR ''-'' ''_'' (to_uppercase service_name)"

definition override_upstreams :: "env \<Rightarrow> string \<Rightarrow> ServiceConfig \<Rightarrow> ServiceConfig" where
  "override_upstreams env service_name service =
     (case env (upstream_env_key service_name) of
        Some url \<Rightarrow>
          if url \<noteq> []
          then service\<lparr>regional_upstreams :=
                 (\<lambda>region. map_option (map (\<lambda>u. u\<lparr>up_address := url\<rparr>)) (regional_upstreams service region))\<rparr>
          else service
      | None \<Rightarrow> service)"

definition apply_secret_overrides ::
    "(string \<Rightarrow> (string \<rightharpoonup> string) option) \<Rightarrow> env \<Rightarrow> GatewayConfig \<Rightarrow> GatewayConfig" where
  "apply_secret_overrides keys_json env cfg =
     (let cfg1 = (case env ''JWT_SECRET'' of
                    Some secret \<Rightarrow> if secret \<noteq> [] then cfg\<lparr>jwt_secret := secret\<rparr> else cfg
                  | None \<Rightarrow> cfg);
          cfg2 = (case Option.bind (env ''JWT_KEYS'') (parse_jwt_keys keys_json) of
                    Some keys \<Rightarrow> cfg1\<lparr>jwt_keys := keys\<rparr> | None \<Rightarrow> cfg1);
          cfg3 = cfg2\<lparr>cors := override_cors env (cors cfg2)\<rparr> in
      cfg3\<lparr>services := (\<lambda>name. map_option (override_upstreams env name) (services cfg3 name))\<rparr>)"

section \<open>Reloading the file\<close>

text \<open>
  The file as the watcher finds it: absent (or without a modification time), or a time and the
  text, where reading the text may fail. The router is built by the function \<open>build\<close> (theory
  \<open>Router\<close>). A reload makes two separate stores, the router and then the configuration, and
  request threads run in between; \<open>try_reload_config\<close> therefore lists the state after each of its
  stores, the time of the file, which only the watcher reads, last.
\<close>

type_synonym config_file = "(nat \<times> string option) option"

record 'r config_state =
  cs_config :: GatewayConfig
  cs_router :: 'r
  cs_last_modified :: nat

definition try_reload_config ::
    "(string \<Rightarrow> GatewayConfig option) \<Rightarrow> (string \<Rightarrow> (string \<rightharpoonup> string) option) \<Rightarrow> (GatewayConfig \<Rightarrow> 'r)
     \<Rightarrow> env \<Rightarrow> config_file \<Rightarrow> 'r config_state \<Rightarrow> bool \<times> 'r config_state list" where
  "try_reload_config from_json keys_json build env file st =
     (case file of
        None \<Rightarrow> (False, [])
      | Some (modified, text_opt) \<Rightarrow>
          if modified \<le> cs_last_modified st then (False, [])
          else case text_opt of
            None \<Rightarrow> (False, [])
          | Some txt \<Rightarrow>
              (case from_json txt of
                 None \<Rightarrow> (False, [])
               | Some parsed \<Rightarrow>
                   (let new_config = apply_secret_overrides keys_json env parsed;
                        st1 = st\<lparr>cs_router := build new_config\<rparr>;
                        st2 = st1\<lparr>cs_config := new_config\<rparr>;
                        st3 = st2\<lparr>cs_last_modified := modified\<rparr> in
                    (True, [st1, st2, st3]))))"

definition is_config_ready :: "GatewayConfig \<Rightarrow> bool" where
  "is_config_ready cfg = (version cfg \<noteq> ''v0'' \<and> routes cfg \<noteq> [])"

definition config_path :: "env \<Rightarrow> string \<Rightarrow> string" where
  "config_path env tmp =
     (case env ''GATEWAY_CONFIG_PATH'' of
        Some p \<Rightarrow> if p \<noteq> [] then p else tmp @ ''/gateway_config.json''
      | None \<Rightarrow> tmp @ ''/gateway_config.json'')"

section \<open>Properties\<close>

lemma merge_origins_prefix: "prefix present (merge_origins present os)"
proof (induction os arbitrary: present)
  case (Cons o' os)
  have "prefix (present @ [o']) (merge_origins (present @ [o']) os)" by (rule Cons.IH)
  then have "prefix present (merge_origins (present @ [o']) os)" by (auto simp: prefix_def)
  then show ?case using Cons.IH by simp
qed simp

lemma merge_origins_keeps: "q \<in> set present \<Longrightarrow> q \<in> set (merge_origins present os)"
  using set_mono_prefix [OF merge_origins_prefix] by blast

lemma merge_origins_adds:
  "p \<in> set os \<Longrightarrow> \<exists>q \<in> set (merge_origins present os). eq_ignore_ascii_case q p"
proof (induction os arbitrary: present)
  case (Cons o' os)
  let ?p' = "if list_ex (\<lambda>p. eq_ignore_ascii_case p o') present then present else present @ [o']"
  have "\<exists>q \<in> set ?p'. eq_ignore_ascii_case q o'"
    by (cases "list_ex (\<lambda>p. eq_ignore_ascii_case p o') present") (auto simp: list_ex_iff)
  then have "\<exists>q \<in> set (merge_origins ?p' os). eq_ignore_ascii_case q o'" using merge_origins_keeps by blast
  moreover have "merge_origins present (o' # os) = merge_origins ?p' os" by simp
  ultimately show ?case using Cons by (metis set_ConsD)
qed simp

lemma merge_origins_source: "set (merge_origins present os) \<subseteq> set present \<union> set os"
proof (induction os arbitrary: present)
  case (Cons o' os)
  show ?case using Cons.IH [of present] Cons.IH [of "present @ [o']"] by auto
qed simp

text \<open>What the overrides change, and what they leave.\<close>

lemma override_secrets:
  "jwt_secret (apply_secret_overrides keys_json env cfg)
     = (case env ''JWT_SECRET'' of Some s \<Rightarrow> if s = [] then jwt_secret cfg else s | None \<Rightarrow> jwt_secret cfg)"
  "jwt_keys (apply_secret_overrides keys_json env cfg)
     = (case Option.bind (env ''JWT_KEYS'') (parse_jwt_keys keys_json) of Some k \<Rightarrow> k | None \<Rightarrow> jwt_keys cfg)"
  "routes (apply_secret_overrides keys_json env cfg) = routes cfg"
  "version (apply_secret_overrides keys_json env cfg) = version cfg"
  "cors (apply_secret_overrides keys_json env cfg) = override_cors env (cors cfg)"
  by (simp_all add: apply_secret_overrides_def Let_def split: option.splits)

text \<open>The origins of the environment are merged, never lost. With a \<open>cors\<close> section in the file, the
  overrides keep its origins as a prefix and its credentials flag, make every origin listed in
  \<open>CORS_ALLOWED_ORIGINS\<close> allowed (up to ASCII case), and allow nothing else.
\<close>
lemma cors_override_merges:
  assumes "cors cfg = Some c" and "env ''CORS_ALLOWED_ORIGINS'' = Some csv"
  shows "\<exists>c'. cors (apply_secret_overrides keys_json env cfg) = Some c'
    \<and> prefix (allowed_origins c) (allowed_origins c') \<and> allow_credentials c' = allow_credentials c
    \<and> (\<forall>p \<in> set (env_origins csv). \<exists>q \<in> set (allowed_origins c'). eq_ignore_ascii_case q p)
    \<and> set (allowed_origins c') \<subseteq> set (allowed_origins c) \<union> set (env_origins csv)"
  using assms merge_origins_prefix merge_origins_adds merge_origins_source
  by (cases "env_origins csv = []") (auto simp: override_secrets override_cors_def Let_def)

lemma cors_override_merges_witness:
  "\<exists>c'. cors (apply_secret_overrides (\<lambda>_. None) (\<lambda>n. if n = ''CORS_ALLOWED_ORIGINS'' then Some ''https://b'' else None)
       (GatewayConfig_default\<lparr>cors := Some \<lparr>allowed_origins = [''https://a''], allow_credentials = False,
          allowed_methods = ct_methods, allowed_headers = ct_headers, max_age = 600\<rparr>\<rparr>)) = Some c'
    \<and> prefix [''https://a''] (allowed_origins c')"
  using cors_override_merges
    [of "GatewayConfig_default\<lparr>cors := Some \<lparr>allowed_origins = [''https://a''], allow_credentials = False,
          allowed_methods = ct_methods, allowed_headers = ct_headers, max_age = 600\<rparr>\<rparr>" _
      "\<lambda>n. if n = ''CORS_ALLOWED_ORIGINS'' then Some ''https://b'' else None" "''https://b''" "\<lambda>_. None"]
  by auto

text \<open>The watcher: one attempt per second on what it finds then.\<close>

definition config_start :: "(GatewayConfig \<Rightarrow> 'r) \<Rightarrow> 'r config_state" where
  "config_start build =
     \<lparr>cs_config = GatewayConfig_default, cs_router = build GatewayConfig_default, cs_last_modified = 0\<rparr>"

text \<open>The state an attempt leaves, and every state the request threads may see during the attempts.\<close>

definition reload_step ::
    "(string \<Rightarrow> GatewayConfig option) \<Rightarrow> (string \<Rightarrow> (string \<rightharpoonup> string) option) \<Rightarrow> (GatewayConfig \<Rightarrow> 'r)
     \<Rightarrow> 'r config_state \<Rightarrow> env \<times> config_file \<Rightarrow> 'r config_state" where
  "reload_step from_json keys_json build st ef =
     last (st # snd (try_reload_config from_json keys_json build (fst ef) (snd ef) st))"

fun reload_states ::
    "(string \<Rightarrow> GatewayConfig option) \<Rightarrow> (string \<Rightarrow> (string \<rightharpoonup> string) option) \<Rightarrow> (GatewayConfig \<Rightarrow> 'r)
     \<Rightarrow> 'r config_state \<Rightarrow> (env \<times> config_file) list \<Rightarrow> 'r config_state list" where
  "reload_states from_json keys_json build st [] = [st]"
| "reload_states from_json keys_json build st (ef # efs) =
     (let stores = snd (try_reload_config from_json keys_json build (fst ef) (snd ef) st) in
      butlast (st # stores) @ reload_states from_json keys_json build (last (st # stores)) efs)"

text \<open>What the threads of a worker may see, from its start.\<close>

definition published_states ::
    "(string \<Rightarrow> GatewayConfig option) \<Rightarrow> (string \<Rightarrow> (string \<rightharpoonup> string) option) \<Rightarrow> (GatewayConfig \<Rightarrow> 'r)
     \<Rightarrow> (env \<times> config_file) list \<Rightarrow> 'r config_state list" where
  "published_states from_json keys_json build files =
     reload_states from_json keys_json build (config_start build) files"

lemma reload_states_run:
  "last (reload_states f k build st efs) = run (reload_step f k build) st efs \<and> reload_states f k build st efs \<noteq> []"
  by (induction efs arbitrary: st) (simp_all add: Let_def reload_step_def)

lemma reload_states_hd: "hd (reload_states f k build st efs) = st"
  by (induction efs arbitrary: st) (auto simp: Let_def hd_append)

text \<open>An attempt stores nothing, or it makes its three stores.\<close>

lemma try_reload_cases:
  obtains "try_reload_config f k build env file st = (False, [])"
      "\<not> (\<exists>m t parsed. file = Some (m, Some t) \<and> cs_last_modified st < m \<and> f t = Some parsed)"
  | m t parsed where "file = Some (m, Some t)" "cs_last_modified st < m" "f t = Some parsed"
      "try_reload_config f k build env file st =
        (True, [st\<lparr>cs_router := build (apply_secret_overrides k env parsed)\<rparr>,
           st\<lparr>cs_router := build (apply_secret_overrides k env parsed), cs_config := apply_secret_overrides k env parsed\<rparr>,
           \<lparr>cs_config = apply_secret_overrides k env parsed, cs_router = build (apply_secret_overrides k env parsed),
            cs_last_modified = m\<rparr>])"
proof (cases "\<exists>m t parsed. file = Some (m, Some t) \<and> cs_last_modified st < m \<and> f t = Some parsed")
  case True
  then obtain m t parsed where "file = Some (m, Some t)" "cs_last_modified st < m" "f t = Some parsed" by blast
  moreover have eq: "st\<lparr>cs_router := r, cs_config := c, cs_last_modified := m\<rparr> = \<lparr>cs_config = c, cs_router = r, cs_last_modified = m\<rparr>" for r c
    by (cases st) simp
  ultimately show ?thesis by (intro that(2)) (simp_all add: try_reload_config_def Let_def eq)
next
  case False
  then have "try_reload_config f k build env file st = (False, [])"
    by (auto simp: try_reload_config_def not_le split: option.splits)
  then show ?thesis using False by (rule that(1))
qed

text \<open>
  The router of a state is built from the configuration of that state or of the next one; the
  times only grow.
\<close>

definition router_leads :: "(GatewayConfig \<Rightarrow> 'r) \<Rightarrow> 'r config_state \<Rightarrow> 'r config_state \<Rightarrow> bool" where
  "router_leads build s s' \<longleftrightarrow> cs_last_modified s \<le> cs_last_modified s'
     \<and> (cs_router s = build (cs_config s) \<or> cs_router s = build (cs_config s'))"

lemma reload_states_lead:
  assumes "cs_router st = build (cs_config st)"
  shows "successively (router_leads build) (reload_states f k build st efs)
    \<and> cs_router (run (reload_step f k build) st efs) = build (cs_config (run (reload_step f k build) st efs))"
  using assms
proof (induction efs arbitrary: st)
  case (Cons ef efs)
  show ?case
  proof (cases rule: try_reload_cases [of f k build "fst ef" "snd ef" st])
    case 1
    then show ?thesis using Cons by (simp add: reload_step_def)
  next
    case (2 m t parsed)
    let ?n = "apply_secret_overrides k (fst ef) parsed"
    let ?st = "\<lparr>cs_config = ?n, cs_router = build ?n, cs_last_modified = m\<rparr>"
    obtain tl where "reload_states f k build ?st efs = ?st # tl"
      using reload_states_hd [of f k build ?st efs] reload_states_run [of f k build ?st efs]
      by (metis list.collapse)
    then show ?thesis using Cons.IH [of ?st] Cons.prems 2
      by (simp add: reload_step_def router_leads_def)
  qed
qed simp

lemma successively_nth: "successively P xs \<Longrightarrow> Suc i < length xs \<Longrightarrow> P (xs ! i) (xs ! Suc i)"
  by (induction xs arbitrary: i rule: induct_list012) (auto simp: nth_Cons split: nat.splits)

lemma reload_times_grow:
  assumes "successively (router_leads build) xs" and "i \<le> j" and "j < length xs"
  shows "cs_last_modified (xs ! i) \<le> cs_last_modified (xs ! j)"
  using assms(2,3)
proof (induction j rule: dec_induct)
  case (step j)
  then show ?case using successively_nth [OF assms(1), of j] by (simp add: router_leads_def)
qed simp

text \<open>(C27)
  No request routes with a router older than its configuration. A request loads the configuration
  first and the router later, while the watcher makes its stores; whatever files the watcher finds,
  in every state between any two stores, the router it then gets is built from a configuration
  published at that moment or by a later store, at most by the next one. When the attempts are over
  router and configuration agree, and the time of the file never goes back. An attempt publishes
  something exactly when the file is readable, newer than the last one and parsable, and then it
  ends with that document under the overrides, its router and its time; otherwise it stores
  nothing.
\<close>
theorem reload_consistent:
  fixes build :: "GatewayConfig \<Rightarrow> 'r"
  assumes "config_read \<le> router_read" and "router_read < length (published_states from_json keys_json build files)"
  shows "(let seen = published_states from_json keys_json build files in
      (\<exists>n. config_read \<le> n \<and> n \<le> Suc router_read \<and> n < length seen
        \<and> cs_router (seen ! router_read) = build (cs_config (seen ! n)))
    \<and> cs_router (last seen) = build (cs_config (last seen))
    \<and> cs_last_modified (seen ! config_read) \<le> cs_last_modified (seen ! router_read))
   \<and> (case try_reload_config from_json keys_json build env file st of
        (True, stores) \<Rightarrow> (\<exists>m t parsed. file = Some (m, Some t) \<and> cs_last_modified st < m \<and> from_json t = Some parsed
          \<and> last stores = (let c = apply_secret_overrides keys_json env parsed in
              \<lparr>cs_config = c, cs_router = build c, cs_last_modified = m\<rparr>))
      | (False, stores) \<Rightarrow> stores = []
          \<and> \<not> (\<exists>m t parsed. file = Some (m, Some t) \<and> cs_last_modified st < m \<and> from_json t = Some parsed))"
proof -
  let ?tr = "published_states from_json keys_json build files"
  have "cs_router (config_start build) = build (cs_config (config_start build))" by (simp add: config_start_def)
  from reload_states_lead [where build = build, OF this] have lead: "successively (router_leads build) ?tr"
    and "cs_router (last ?tr) = build (cs_config (last ?tr))"
    unfolding published_states_def by (simp_all add: reload_states_run)
  moreover have "\<exists>n. config_read \<le> n \<and> n \<le> Suc router_read \<and> n < length ?tr
      \<and> cs_router (?tr ! router_read) = build (cs_config (?tr ! n))"
  proof (cases "Suc router_read < length ?tr")
    case True
    then have "\<exists>n \<in> {router_read, Suc router_read}. cs_router (?tr ! router_read) = build (cs_config (?tr ! n))"
      using successively_nth [OF lead] by (auto simp: router_leads_def)
    then obtain n where "n \<in> {router_read, Suc router_read}" "cs_router (?tr ! router_read) = build (cs_config (?tr ! n))" by blast
    then show ?thesis using assms True by (intro exI [of _ n]) auto
  next
    case False
    then have "?tr ! router_read = last ?tr" using assms(2) by (metis last_conv_nth less_antisym list.size(3) not_less_zero
        diff_Suc_1 Suc_lessI)
    then show ?thesis using assms \<open>cs_router (last ?tr) = _\<close> by (intro exI [of _ router_read]) simp
  qed
  moreover have "cs_last_modified (?tr ! config_read) \<le> cs_last_modified (?tr ! router_read)"
    by (rule reload_times_grow [OF lead assms])
  moreover have "case try_reload_config from_json keys_json build env file st of
        (True, stores) \<Rightarrow> (\<exists>m t parsed. file = Some (m, Some t) \<and> cs_last_modified st < m \<and> from_json t = Some parsed
          \<and> last stores = (let c = apply_secret_overrides keys_json env parsed in
              \<lparr>cs_config = c, cs_router = build c, cs_last_modified = m\<rparr>))
      | (False, stores) \<Rightarrow> stores = []
          \<and> \<not> (\<exists>m t parsed. file = Some (m, Some t) \<and> cs_last_modified st < m \<and> from_json t = Some parsed)"
    by (cases rule: try_reload_cases [of from_json keys_json build env "file" st]) (simp_all add: Let_def)
  ultimately show ?thesis unfolding Let_def by blast
qed

theorem reload_consistent_witness:
  "\<exists>n \<le> 2. version (cs_router (published_states (\<lambda>_. Some (GatewayConfig_default\<lparr>version := ''v1''\<rparr>)) (\<lambda>_. None) id
       [(Map.empty, Some (5, Some ''x''))] ! 1)) =
     version (cs_config (published_states (\<lambda>_. Some (GatewayConfig_default\<lparr>version := ''v1''\<rparr>)) (\<lambda>_. None) id
       [(Map.empty, Some (5, Some ''x''))] ! n))"
proof -
  let ?f = "\<lambda>_. Some (GatewayConfig_default\<lparr>version := ''v1''\<rparr>)" and ?k = "\<lambda>_. None"
  let ?files = "[(Map.empty, Some (5, Some ''x''))] :: (env \<times> config_file) list"
  have "length (published_states ?f ?k id ?files) = 4"
    by (simp add: published_states_def try_reload_config_def config_start_def Let_def)
  then have "\<exists>n. 0 \<le> n \<and> n \<le> Suc 1 \<and> n < length (published_states ?f ?k id ?files)
      \<and> cs_router (published_states ?f ?k id ?files ! 1) = id (cs_config (published_states ?f ?k id ?files ! n))"
    by (intro reload_consistent [where config_read = 0 and router_read = 1 and from_json = ?f and keys_json = ?k and
        build = id and files = ?files, unfolded Let_def, THEN conjunct1, THEN conjunct1]) simp_all
  then show ?thesis by (metis Suc_1 id_apply)
qed

end
