(* ===== verification/Civil_Date.thy ===== *)
theory Civil_Date
  imports Rust_Str
begin

text \<open>
  The calendar arithmetic of \<open>utc_day_key\<close> in \<open>rust-ext/src/quota.rs\<close> (days since 1970-01-01 to a
  civil date), compared with a reference calendar that only knows how many days a month has and
  what the day after a date is. The arithmetic of the source is on \<open>i64\<close>; the number of days in a
  64-bit count of seconds is far below its range, so \<open>int\<close> is exact here. \<open>div_euclid\<close> and
  \<open>rem_euclid\<close> by a positive constant are \<open>div\<close> and \<open>mod\<close>, and every other dividend is not negative.
\<close>

section \<open>The computation\<close>

definition year_of_era :: "int \<Rightarrow> int" where
  "year_of_era doe = (doe - doe div 1460 + doe div 36524 - doe div 146096) div 365"

definition civil_from_days :: "int \<Rightarrow> int \<times> int \<times> int" where
  "civil_from_days days =
     (let z = days + 719468;
          era = z div 146097;
          doe = z mod 146097;
          yoe = year_of_era doe;
          y = yoe + era * 400;
          doy = doe - (365 * yoe + yoe div 4 - yoe div 100);
          mp = (5 * doy + 2) div 153;
          d = doy - (153 * mp + 2) div 5 + 1;
          m = (if mp < 10 then mp + 3 else mp - 9) in
      (if m \<le> 2 then y + 1 else y, m, d))"

section \<open>The reference calendar\<close>

definition leap :: "int \<Rightarrow> bool" where
  "leap y \<longleftrightarrow> y mod 4 = 0 \<and> (y mod 100 \<noteq> 0 \<or> y mod 400 = 0)"

definition days_in_month :: "int \<Rightarrow> int \<Rightarrow> int" where
  "days_in_month y m =
     (if m = 2 then (if leap y then 29 else 28) else if m \<in> {4, 6, 9, 11} then 30 else 31)"

fun next_day :: "int \<times> int \<times> int \<Rightarrow> int \<times> int \<times> int" where
  "next_day (y, m, d) =
     (if d < days_in_month y m then (y, m, d + 1)
      else if m < 12 then (y, m + 1, 1) else (y + 1, 1, 1))"

section \<open>Agreement\<close>

text \<open>
  A day of a 400-year era is the day \<open>u\<close> of the year \<open>100 c + 4 q + t\<close>, years beginning in March,
  so that a leap day is the last day (number 365) of its year.
\<close>

definition era_day :: "int \<Rightarrow> int \<Rightarrow> int \<Rightarrow> int \<Rightarrow> bool" where
  "era_day c q t u \<longleftrightarrow> 0 \<le> c \<and> c \<le> 3 \<and> 0 \<le> q \<and> q \<le> 24 \<and> 0 \<le> t \<and> t \<le> 3 \<and> 0 \<le> u \<and> u \<le> 365
     \<and> (u \<noteq> 365 \<or> t = 3 \<and> (q \<noteq> 24 \<or> c = 3))"

lemma era_day_exists:
  assumes "0 \<le> doe" and "doe < 146097"
  obtains c q t u where "era_day c q t u" and "doe = 36524 * c + 1461 * q + 365 * t + u"
proof -
  define c where "c = min 3 (doe div 36524)"
  define r where "r = doe - 36524 * c"
  define q where "q = r div 1461"
  define s where "s = r mod 1461"
  define t where "t = min 3 (s div 365)"
  have c: "0 \<le> c" "c \<le> 3" "0 \<le> r" "c < 3 \<Longrightarrow> r < 36524" "r \<le> 36524"
    using assms unfolding c_def r_def by (auto simp: min_def)
  have q: "0 \<le> q" "q \<le> 24" "r = 1461 * q + s" "0 \<le> s" "s < 1461"
    using c(3,5) unfolding q_def s_def by auto
  have t: "0 \<le> t" "t \<le> 3" "365 * t \<le> s" "s - 365 * t \<le> 365" "t < 3 \<Longrightarrow> s - 365 * t < 365"
    using q(4,5) unfolding t_def by (auto simp: min_def)
  have "era_day c q t (s - 365 * t)"
    unfolding era_day_def
  proof (intro conjI)
    show "s - 365 * t \<noteq> 365 \<or> t = 3 \<and> (q \<noteq> 24 \<or> c = 3)"
    proof (cases "s - 365 * t = 365")
      case True
      then have "t = 3" using t(2,5) by linarith
      moreover have "c = 3" if "q = 24" using c(2,4) q(3) True that \<open>t = 3\<close> by linarith
      ultimately show ?thesis by blast
    qed simp
  qed (use c q t in linarith)+
  moreover have "doe = 36524 * c + 1461 * q + 365 * t + (s - 365 * t)"
    using q(3) unfolding r_def by simp
  ultimately show thesis by (rule that)
qed

lemma year_of_era_exact:
  assumes "era_day c q t u"
  shows "year_of_era (36524 * c + 1461 * q + 365 * t + u) = 100 * c + 4 * q + t"
proof -
  let ?d = "36524 * c + 1461 * q + 365 * t + u"
  define e where "e = (24 * c + q + 365 * t + u) div 1460"
  define l where "l = (if ?d = 146096 then 1 else 0 :: int)"
  have r: "0 \<le> c" "c \<le> 3" "0 \<le> q" "q \<le> 24" "0 \<le> t" "t \<le> 3" "0 \<le> u" "u \<le> 365"
      "u \<noteq> 365 \<or> t = 3 \<and> (q \<noteq> 24 \<or> c = 3)"
    using assms by (auto simp: era_day_def)
  have "?d = 1460 * (25 * c + q) + (24 * c + q + 365 * t + u)" by simp
  then have d1: "?d div 1460 = 25 * c + q + e" unfolding e_def by simp
  have d2: "?d div 36524 = c + l"
  proof -
    let ?w = "1461 * q + 365 * t + u"
    have top: "q = 24 \<and> t = 3 \<and> u = 365" if "36524 \<le> ?w" using r that by linarith
    have w: "0 \<le> ?w" "?w \<le> 36524" using r by linarith+
    have "?d div 36524 = c + ?w div 36524"
      using div_mult_self1 [of 36524 ?w c] by (simp add: algebra_simps)
    also have "?w div 36524 = l"
    proof (cases "?w = 36524")
      case True
      then have "c = 3" using top r(9) by simp
      then show ?thesis using True by (simp add: l_def)
    next
      case False
      then have "?w < 36524" using w by simp
      then show ?thesis using w r(2) by (simp add: l_def)
    qed
    finally show ?thesis .
  qed
  have "0 \<le> ?d" "?d \<le> 146096" using r by linarith+
  then have d3: "?d div 146096 = l" unfolding l_def by auto
  have e01: "e = (if 1460 \<le> 24 * c + q + 365 * t + u then 1 else 0)"
    using r unfolding e_def by auto
  have "?d - ?d div 1460 + ?d div 36524 - ?d div 146096 = 365 * (100 * c + 4 * q + t) + (u - e)"
    unfolding d1 d2 d3 by simp
  moreover have "0 \<le> u - e" "u - e < 365" using r e01 by auto
  ultimately show ?thesis unfolding year_of_era_def by simp
qed


text \<open>Month and day within a March year, as the source computes them.\<close>

definition month_day :: "int \<Rightarrow> int \<times> int" where
  "month_day u =
     (let mp = (5 * u + 2) div 153 in
      (if mp < 10 then mp + 3 else mp - 9, u - (153 * mp + 2) div 5 + 1))"

definition march_date :: "int \<Rightarrow> int \<Rightarrow> int \<times> int \<times> int" where
  "march_date y u = (case month_day u of (m, d) \<Rightarrow> (if m \<le> 2 then y + 1 else y, m, d))"

lemma civil_era_day:
  assumes "era_day c q t u" and "days + 719468 = 146097 * era + (36524 * c + 1461 * q + 365 * t + u)"
  shows "civil_from_days days = march_date (400 * era + 100 * c + 4 * q + t) u"
proof -
  let ?doe = "36524 * c + 1461 * q + 365 * t + u"
  have r: "0 \<le> c" "c \<le> 3" "0 \<le> q" "q \<le> 24" "0 \<le> t" "t \<le> 3" "0 \<le> u" "u \<le> 365"
    using assms(1) by (auto simp: era_day_def)
  have "0 \<le> ?doe" "?doe < 146097" using r by linarith+
  then have z: "(days + 719468) div 146097 = era" "(days + 719468) mod 146097 = ?doe"
    unfolding assms(2) by simp_all
  have "(100 * c + 4 * q + t) div 4 = 25 * c + q" "(100 * c + 4 * q + t) div 100 = c"
    using r by auto
  then have doy: "?doe - (365 * (100 * c + 4 * q + t) + (100 * c + 4 * q + t) div 4 - (100 * c + 4 * q + t) div 100) = u"
    by simp
  show ?thesis
    unfolding civil_from_days_def Let_def z year_of_era_exact [OF assms(1)] doy march_date_def month_day_def
    by simp
qed

lemma mod_full_range: "0 < x \<Longrightarrow> x \<le> n \<Longrightarrow> x mod n = 0 \<longleftrightarrow> x = (n :: int)"
  by (cases "x = n") auto

lemma leap_march:
  assumes "era_day c q t u"
  shows "leap (400 * era + 100 * c + 4 * q + t + 1) \<longleftrightarrow> t = 3 \<and> (q \<noteq> 24 \<or> c = 3)"
proof -
  let ?y = "400 * era + 100 * c + 4 * q + t + 1"
  have r: "0 \<le> c" "c \<le> 3" "0 \<le> q" "q \<le> 24" "0 \<le> t" "t \<le> 3"
    using assms by (auto simp: era_day_def)
  have "?y mod 4 = (t + 1) mod 4"
    using mod_mult_self1 [of "t + 1" "100 * era + 25 * c + q" 4] by (simp add: algebra_simps)
  moreover have "?y mod 100 = (4 * q + t + 1) mod 100"
    using mod_mult_self1 [of "4 * q + t + 1" "4 * era + c" 100] by (simp add: algebra_simps)
  moreover have "?y mod 400 = (100 * c + 4 * q + t + 1) mod 400"
    using mod_mult_self1 [of "100 * c + 4 * q + t + 1" era 400] by (simp add: algebra_simps)
  moreover have "(t + 1) mod 4 = 0 \<longleftrightarrow> t = 3" using r by (subst mod_full_range) auto
  moreover have "(4 * q + t + 1) mod 100 = 0 \<longleftrightarrow> q = 24 \<and> t = 3"
  proof -
    have "0 < 4 * q + t + 1" "4 * q + t + 1 \<le> 100" using r by linarith+
    moreover have "q = 24 \<and> t = 3" if "4 * q + t + 1 = 100" using that r by linarith
    ultimately show ?thesis by (auto simp: mod_full_range)
  qed
  moreover have "(100 * c + 4 * q + t + 1) mod 400 = 0 \<longleftrightarrow> c = 3 \<and> q = 24 \<and> t = 3"
  proof -
    have "0 < 100 * c + 4 * q + t + 1" "100 * c + 4 * q + t + 1 \<le> 400" using r by linarith+
    moreover have "c = 3 \<and> q = 24 \<and> t = 3" if e: "100 * c + 4 * q + t + 1 = 400"
    proof -
      have "c = 3" using e r by linarith
      then show ?thesis using e r by linarith
    qed
    ultimately show ?thesis by (auto simp: mod_full_range)
  qed
  ultimately show ?thesis unfolding leap_def by auto
qed

text \<open>Inside a March year the next day is the next number; the last number is 365 or 364.\<close>

lemma march_step:
  assumes "0 \<le> u" and "u < 364 \<or> u = 364 \<and> leap (y + 1)"
  shows "next_day (march_date y u) = march_date y (u + 1)"
proof -
  define k where "k = (5 * u + 2) div 153"
  have "153 * k \<le> 5 * u + 2" "5 * u + 2 < 153 * k + 153" "0 \<le> k" "k \<le> 11"
    using assms unfolding k_def by auto
  note k = this
  have k': "(5 * (u + 1) + 2) div 153 = (if 5 * u + 7 < 153 * k + 153 then k else k + 1)"
    using k by auto
  have "k = 0 \<or> k = 1 \<or> k = 2 \<or> k = 3 \<or> k = 4 \<or> k = 5 \<or> k = 6 \<or> k = 7 \<or> k = 8 \<or> k = 9 \<or> k = 10 \<or> k = 11"
    using k(3,4) by presburger
  then show ?thesis
    using k(1,2) assms(2)
    unfolding march_date_def month_day_def k_def [symmetric] k'
    by (elim disjE) (auto simp: Let_def days_in_month_def)
qed

lemma march_year_end:
  assumes "u = (if leap (y + 1) then 365 else 364)"
  shows "next_day (march_date y u) = march_date (y + 1) 0"
  using assms by (simp add: march_date_def month_day_def Let_def days_in_month_def)

lemma civil_Suc: "civil_from_days (days + 1) = next_day (civil_from_days days)"
proof -
  define era where "era = (days + 719468) div 146097"
  have "0 \<le> (days + 719468) mod 146097" "(days + 719468) mod 146097 < 146097" by simp_all
  then obtain c q t u where cd: "era_day c q t u"
    and doe: "(days + 719468) mod 146097 = 36524 * c + 1461 * q + 365 * t + u"
    by (rule era_day_exists)
  have z: "days + 719468 = 146097 * era + (36524 * c + 1461 * q + 365 * t + u)"
    unfolding era_def doe [symmetric] by simp
  let ?y = "400 * era + 100 * c + 4 * q + t"
  have r: "0 \<le> c" "c \<le> 3" "0 \<le> q" "q \<le> 24" "0 \<le> t" "t \<le> 3" "0 \<le> u" "u \<le> 365"
      "u \<noteq> 365 \<or> t = 3 \<and> (q \<noteq> 24 \<or> c = 3)"
    using cd by (auto simp: era_day_def)
  note lp = leap_march [OF cd, of era]
  note now = civil_era_day [OF cd z]
  show ?thesis
  proof (cases "u < 364 \<or> u = 364 \<and> leap (?y + 1)")
    case True
    then have "era_day c q t (u + 1)" using r lp by (auto simp: era_day_def)
    moreover have "(days + 1) + 719468 = 146097 * era + (36524 * c + 1461 * q + 365 * t + (u + 1))"
      using z by linarith
    ultimately have "civil_from_days (days + 1) = march_date ?y (u + 1)" by (rule civil_era_day)
    then show ?thesis unfolding now using march_step [OF r(7) True] by simp
  next
    case False
    then have u: "u = (if leap (?y + 1) then 365 else 364)" using r lp by auto
    have nx: "civil_from_days (days + 1) = march_date (?y + 1) 0"
    proof -
      consider (t) "t < 3" | (q) "t = 3" "q < 24" | (c) "t = 3" "q = 24" "c < 3" | (e) "t = 3" "q = 24" "c = 3"
        using r by linarith
      then show ?thesis
      proof cases
        case t
        then show ?thesis using civil_era_day [of c q "t + 1" 0 "days + 1" era] z r u lp
          by (simp add: era_day_def algebra_simps)
      next
        case q
        then show ?thesis using civil_era_day [of c "q + 1" 0 0 "days + 1" era] z r u lp
          by (simp add: era_day_def algebra_simps)
      next
        case c
        then show ?thesis using civil_era_day [of "c + 1" 0 0 0 "days + 1" era] z r u lp
          by (simp add: era_day_def algebra_simps)
      next
        case e
        then show ?thesis using civil_era_day [of 0 0 0 0 "days + 1" "era + 1"] z r u lp
          by (simp add: era_day_def algebra_simps)
      qed
    qed
    show ?thesis unfolding now nx using march_year_end [OF u] by simp
  qed
qed

lemma civil_from_days_calendar: "civil_from_days (int n) = (next_day ^^ n) (1970, 1, 1)"
proof (induction n)
  case 0
  show ?case by code_simp
next
  case (Suc n)
  then show ?case using civil_Suc [of "int n"] by (simp add: algebra_simps)
qed

end
