(* ===== verification/Quota.thy ===== *)
theory Quota
  imports Civil_Date Config
begin

text \<open>
  Per-user daily quotas, \<open>rust-ext/src/quota.rs\<close>: the counter key of a user and a day, the pure
  decision with grace borrowing, and the check with its persistent connection and one retry.
  SHA-256 is the parameter \<open>sha\<close> (the digest's bytes); the Redis server and the connection to it
  are a world \<open>'w\<close> with the two operations the code performs.
\<close>

section \<open>The counter key\<close>

definition user_shard :: "(string \<Rightarrow> u8 list) \<Rightarrow> string \<Rightarrow> string" where
  "user_shard sha user_id = concat (map hex_byte (take 8 (sha user_id)))"

text \<open>The format \<open>{:0w}\<close> of a number that is not negative.\<close>

definition zero_pad :: "nat \<Rightarrow> nat \<Rightarrow> string" where
  "zero_pad w n = replicate (w - length (dec_string n)) CHR ''0'' @ dec_string n"

definition ymd_string :: "int \<times> int \<times> int \<Rightarrow> string" where
  "ymd_string = (\<lambda>(y, m, d). zero_pad 4 (nat y) @ zero_pad 2 (nat m) @ zero_pad 2 (nat d))"

definition utc_day_key :: "u64 \<Rightarrow> string" where
  "utc_day_key secs = ymd_string (civil_from_days (int (unat (secs div 86400))))"

definition counter_key :: "(string \<Rightarrow> u8 list) \<Rightarrow> u64 \<Rightarrow> string \<Rightarrow> string \<Rightarrow> string" where
  "counter_key sha secs service user_id =
     ''gateway:quota:'' @ service @ '':'' @ utc_day_key secs @ '':'' @ user_shard sha user_id"

section \<open>The decision\<close>

datatype QuotaDecision = QAllow | QBorrowed | QRejected

definition exceeds :: "u64 \<Rightarrow> u64 \<Rightarrow> bool" where
  "exceeds counter limit \<longleftrightarrow> 0 < limit \<and> limit < counter"

definition quota_decision :: "u64 \<Rightarrow> u64 \<Rightarrow> u32 \<Rightarrow> QuotaDecision" where
  "quota_decision cnt limit bp =
     (if limit = 0 then QAllow
      else if cnt \<le> limit then QAllow
      else
        (let ceiling = limit + limit * ucast bp div 100 in
         if cnt \<le> ceiling \<and> 0 < bp then QBorrowed else QRejected))"

section \<open>The check\<close>

text \<open>
  \<open>qa_open\<close> stands for \<open>open_quota_connection\<close> up to its timeouts (whether a connection came about),
  \<open>qa_incr\<close> for the pipeline of \<open>INCR\<close> and \<open>EXPIRE \<dots> NX\<close> on a key (the new count, or an error).
\<close>

record 'w quota_api =
  qa_open :: "u64 \<Rightarrow> string \<Rightarrow> 'w \<Rightarrow> bool \<times> 'w"
  qa_incr :: "string \<Rightarrow> u64 \<Rightarrow> 'w \<Rightarrow> int option \<times> 'w"

record 'w quota_state =
  qs_conn :: bool
  qs_world :: 'w
  qs_checks_total :: u64
  qs_rejected_total :: u64
  qs_borrowed_total :: u64

definition quota_timeout_ms :: "env \<Rightarrow> u64" where
  "quota_timeout_ms env =
     (case Option.bind (env ''QUOTA_REDIS_TIMEOUT_MS'') parse_uint of
        Some v \<Rightarrow> clamp 100 10000 v | None \<Rightarrow> 2000)"

definition open_quota_connection :: "'w quota_api \<Rightarrow> env \<Rightarrow> string \<Rightarrow> 'w \<Rightarrow> bool \<times> 'w" where
  "open_quota_connection api env url w = qa_open api (quota_timeout_ms env) url w"

definition QUOTA_TTL_SECS :: u64 where
  "QUOTA_TTL_SECS = 90000"

text \<open>The loop of attempts: the count, whether a connection is kept, and the world.\<close>

fun quota_attempts ::
    "nat \<Rightarrow> 'w quota_api \<Rightarrow> env \<Rightarrow> string \<Rightarrow> string \<Rightarrow> bool \<Rightarrow> 'w \<Rightarrow> int option \<times> bool \<times> 'w" where
  "quota_attempts 0 api env url key conn w = (None, conn, w)"
| "quota_attempts (Suc n) api env url key conn w =
     (case (if conn then (True, w) else open_quota_connection api env url w) of
        (False, w1) \<Rightarrow> (None, False, w1)
      | (True, w1) \<Rightarrow>
          (case qa_incr api key QUOTA_TTL_SECS w1 of
             (Some c, w2) \<Rightarrow> (Some c, True, w2)
           | (None, w2) \<Rightarrow> quota_attempts n api env url key False w2))"

definition check_quota ::
    "(string \<Rightarrow> u8 list) \<Rightarrow> 'w quota_api \<Rightarrow> env \<Rightarrow> string \<Rightarrow> u64 \<Rightarrow> string \<Rightarrow> string \<Rightarrow> QuotaPolicy
     \<Rightarrow> 'w quota_state \<Rightarrow> bool \<times> 'w quota_state" where
  "check_quota sha api env url secs service user_id policy st =
     (case quota_attempts 2 api env url (counter_key sha secs service user_id) (qs_conn st) (qs_world st) of
        (r, conn, w) \<Rightarrow>
          (let st1 = st\<lparr>qs_conn := conn, qs_world := w, qs_checks_total := qs_checks_total st + 1\<rparr> in
           case r of
             None \<Rightarrow> (True, st1)
           | Some c \<Rightarrow>
               (case quota_decision (of_int c) (daily_limit policy) (borrow_percent policy) of
                  QAllow \<Rightarrow> (True, st1)
                | QBorrowed \<Rightarrow> (True, st1\<lparr>qs_borrowed_total := qs_borrowed_total st1 + 1\<rparr>)
                | QRejected \<Rightarrow> (False, st1\<lparr>qs_rejected_total := qs_rejected_total st1 + 1\<rparr>))))"

section \<open>Properties\<close>

text \<open>(C34)
  The day in a counter key is the calendar date: starting from 1970-01-01 and stepping one
  calendar day for every 86400 seconds (28 to 31 days per month, leap years by the Gregorian
  rule) gives exactly the year, month and day the key is formatted from.
\<close>
theorem day_key_is_calendar_date:
  "utc_day_key secs = ymd_string ((next_day ^^ (unat secs div 86400)) (1970, 1, 1))"
  by (simp add: utc_day_key_def unat_div civil_from_days_calendar)

text \<open>What the code relies on of the Redis server, when it answers: \<open>INCR\<close> counts per key.\<close>

definition counting_server :: "'w quota_api \<Rightarrow> ('w \<Rightarrow> string \<Rightarrow> nat) \<Rightarrow> bool" where
  "counting_server api used \<longleftrightarrow>
     (\<forall>k ttl w. \<exists>w'. qa_incr api k ttl w = (Some (int (used w k) + 1), w')
        \<and> used w' = (used w)(k := used w k + 1))
   \<and> (\<forall>t url w. \<exists>w'. qa_open api t url w = (True, w') \<and> used w' = used w)"

lemma server_incr:
  assumes "counting_server api used"
  shows "fst (qa_incr api k ttl w) = Some (int (used w k) + 1)"
    and "used (snd (qa_incr api k ttl w)) = (used w)(k := used w k + 1)"
proof -
  obtain w' where "qa_incr api k ttl w = (Some (int (used w k) + 1), w')" "used w' = (used w)(k := used w k + 1)"
    using assms unfolding counting_server_def by blast
  then show "fst (qa_incr api k ttl w) = Some (int (used w k) + 1)"
    and "used (snd (qa_incr api k ttl w)) = (used w)(k := used w k + 1)" by simp_all
qed

lemma server_open:
  assumes "counting_server api used"
  shows "fst (open_quota_connection api env url w)" and "used (snd (open_quota_connection api env url w)) = used w"
proof -
  obtain w' where "qa_open api (quota_timeout_ms env) url w = (True, w')" "used w' = used w"
    using assms unfolding counting_server_def by blast
  then show "fst (open_quota_connection api env url w)" and "used (snd (open_quota_connection api env url w)) = used w"
    by (simp_all add: open_quota_connection_def)
qed

lemma attempts_count:
  assumes "counting_server api used" and "quota_attempts (Suc n) api env url key conn w = (r, conn', w')"
  shows "r = Some (int (used w key) + 1) \<and> used w' = (used w)(key := used w key + 1)"
proof (cases conn)
  case True
  then show ?thesis
    using assms(2) server_incr [OF assms(1), of key QUOTA_TTL_SECS w] by (auto split: prod.splits option.splits)
next
  case False
  obtain w1 where "open_quota_connection api env url w = (True, w1)" "used w1 = used w"
    using server_open [OF assms(1), of env url w] by (cases "open_quota_connection api env url w") auto
  then show ?thesis
    using False assms(2) server_incr [OF assms(1), of key QUOTA_TTL_SECS w1] by (auto split: prod.splits option.splits)
qed

type_synonym quota_call = "u64 \<times> string \<times> string \<times> QuotaPolicy"

definition quota_step ::
    "(string \<Rightarrow> u8 list) \<Rightarrow> 'w quota_api \<Rightarrow> env \<Rightarrow> string \<Rightarrow> 'w quota_state \<Rightarrow> quota_call \<Rightarrow> 'w quota_state" where
  "quota_step sha api env url st = (\<lambda>(secs, service, user, policy).
     snd (check_quota sha api env url secs service user policy st))"

definition same_key :: "(string \<Rightarrow> u8 list) \<Rightarrow> string \<Rightarrow> quota_call \<Rightarrow> bool" where
  "same_key sha key = (\<lambda>(secs, service, user, policy). counter_key sha secs service user = key)"

lemma check_quota_world:
  assumes "counting_server api used"
  shows "used (qs_world (snd (check_quota sha api env url secs service user policy st)))
       = (used (qs_world st))(counter_key sha secs service user := used (qs_world st) (counter_key sha secs service user) + 1)"
proof -
  obtain r conn w where a: "quota_attempts 2 api env url (counter_key sha secs service user) (qs_conn st) (qs_world st) = (r, conn, w)"
    by (cases "quota_attempts 2 api env url (counter_key sha secs service user) (qs_conn st) (qs_world st)") auto
  then show ?thesis
    using attempts_count [OF assms, of "Suc 0"]
    by (simp add: check_quota_def Let_def numeral_2_eq_2 del: quota_attempts.simps split: option.splits QuotaDecision.splits)
qed

lemma used_after_calls:
  assumes "counting_server api used"
  shows "used (qs_world (run (quota_step sha api env url) st calls)) key
       = used (qs_world st) key + length (filter (same_key sha key) calls)"
  by (induction calls arbitrary: st)
    (auto simp: quota_step_def check_quota_world [OF assms] same_key_def split: prod.splits)

text \<open>The ceiling of a policy, without the wrap-around of the machine arithmetic.\<close>

definition quota_ceiling :: "QuotaPolicy \<Rightarrow> nat" where
  "quota_ceiling p = unat (daily_limit p) + unat (daily_limit p) * unat (borrow_percent p) div 100"

lemma quota_decision_exact:
  assumes "0 < daily_limit p" and "unat (daily_limit p) * unat (borrow_percent p) < 2 ^ 64" and "quota_ceiling p < 2 ^ 64"
  shows "quota_decision cnt (daily_limit p) (borrow_percent p) \<noteq> QRejected \<longleftrightarrow> unat cnt \<le> quota_ceiling p"
proof -
  let ?l = "daily_limit p" and ?b = "borrow_percent p"
  have b: "unat (ucast ?b :: u64) = unat ?b"
  proof (rule unat_ucast_small)
    have "unat ?b < 2 ^ LENGTH(32)" by (rule unsigned_less)
    then show "unat ?b < 2 ^ LENGTH(64)" by simp
  qed
  have m: "unat (?l * ucast ?b div 100) = unat ?l * unat ?b div 100"
    using assms(2) by (simp add: unat_div unat_mult_lem [THEN iffD1] b)
  have c: "unat (?l + ?l * ucast ?b div 100) = quota_ceiling p"
    using assms(3) unfolding quota_ceiling_def
    by (subst unat_add_lem [THEN iffD1]) (simp_all add: m)
  have z: "?b = 0 \<Longrightarrow> quota_ceiling p = unat ?l" by (simp add: quota_ceiling_def)
  have "?l \<noteq> 0" using assms(1) by auto
  moreover have "0 < ?b \<or> ?b = 0" by (auto simp: word_neq_0_conv)
  moreover have "unat ?l \<le> quota_ceiling p" by (simp add: quota_ceiling_def)
  ultimately show ?thesis
    using z c by (auto simp: quota_decision_def Let_def word_le_nat_alt)
qed

text \<open>(C16)
  The quota is exact per user, service and day, for a policy with a limit (a limit of 0 disables the
  quota and is excluded). Whatever calls came before, of any users, services and days, a call is
  admitted exactly when the calls that share its counter key, this
  one included, do not exceed the policy's limit plus its borrowing, as long as Redis counts and
  the ceiling fits 64 bits; calls with other keys never matter.
\<close>
theorem quota_exact:
  assumes "counting_server api used" and "0 < daily_limit policy"
    and "unat (daily_limit policy) * unat (borrow_percent policy) < 2 ^ 64" and "quota_ceiling policy < 2 ^ 64"
    and "used (qs_world st) (counter_key sha secs service user) + length calls + 1 < 2 ^ 64"
  shows "fst (check_quota sha api env url secs service user policy (run (quota_step sha api env url) st calls))
     \<longleftrightarrow> used (qs_world st) (counter_key sha secs service user)
          + length (filter (same_key sha (counter_key sha secs service user)) calls) + 1 \<le> quota_ceiling policy"
proof -
  let ?key = "counter_key sha secs service user" and ?st = "run (quota_step sha api env url) st calls"
  let ?n = "used (qs_world st) ?key + length (filter (same_key sha ?key) calls) + 1"
  have "?n < 2 ^ 64" using assms(5) length_filter_le [of "same_key sha ?key" calls] by linarith
  then have u: "unat (of_nat ?n :: u64) = ?n" by (intro unat_of_nat_small) simp
  obtain r conn w where a: "quota_attempts 2 api env url ?key (qs_conn ?st) (qs_world ?st) = (r, conn, w)"
    by (cases "quota_attempts 2 api env url ?key (qs_conn ?st) (qs_world ?st)") auto
  then have "r = Some (int (used (qs_world ?st) ?key) + 1)"
    using attempts_count [OF assms(1), of "Suc 0"] by (simp only: numeral_2_eq_2)
  then have "r = Some (int ?n)" by (simp add: used_after_calls [OF assms(1)])
  then have "fst (check_quota sha api env url secs service user policy ?st)
     \<longleftrightarrow> quota_decision (of_nat ?n) (daily_limit policy) (borrow_percent policy) \<noteq> QRejected"
    using a by (simp add: check_quota_def Let_def del: quota_attempts.simps split: QuotaDecision.splits)
  then show ?thesis using quota_decision_exact [OF assms(2-4)] u by simp
qed

definition demo_quota_api :: "(string \<Rightarrow> nat) quota_api" where
  "demo_quota_api = \<lparr>qa_open = (\<lambda>_ _ w. (True, w)),
     qa_incr = (\<lambda>k _ w. (Some (int (w k) + 1), w(k := w k + 1)))\<rparr>"

lemma demo_quota_server: "counting_server demo_quota_api (\<lambda>w. w)"
  by (simp add: counting_server_def demo_quota_api_def)

theorem quota_exact_witness:
  "\<not> fst (check_quota (\<lambda>_. [1, 2]) demo_quota_api Map.empty ''redis://r'' 86400 ''api'' ''alice''
       \<lparr>daily_limit = 1, borrow_percent = 0\<rparr>
       (run (quota_step (\<lambda>_. [1, 2]) demo_quota_api Map.empty ''redis://r'')
          \<lparr>qs_conn = False, qs_world = (\<lambda>_. 0), qs_checks_total = 0, qs_rejected_total = 0, qs_borrowed_total = 0\<rparr>
          [(86401, ''api'', ''alice'', \<lparr>daily_limit = 1, borrow_percent = 0\<rparr>)]))"
  using quota_exact [OF demo_quota_server, of "\<lparr>daily_limit = 1, borrow_percent = 0\<rparr>"
      "\<lparr>qs_conn = False, qs_world = (\<lambda>_. 0), qs_checks_total = 0, qs_rejected_total = 0, qs_borrowed_total = 0\<rparr>"
      "\<lambda>_. [1, 2]" 86400 "''api''" "''alice''"
      "[(86401, ''api'', ''alice'', \<lparr>daily_limit = 1, borrow_percent = 0\<rparr>)]" Map.empty "''redis://r''"]
  by (simp add: quota_ceiling_def same_key_def counter_key_def utc_day_key_def)

end
