(* ===== verification/Auth.thy ===== *)
theory Auth
  imports Revocation Config Quota "HOL-Library.Monad_Syntax"
begin

text \<open>
  Validation of bearer tokens, \<open>rust-ext/src/auth.rs\<close>: the header, the signature with key rotation,
  the claims, the revocation snapshot, the identity, and the per-worker cache in front of it.

  Parameters are the base64 decoder, the JSON decoders of the three structs, HMAC-SHA256 and
  SHA-256 (record \<open>jwt_lib\<close>), and the cache of the crate \<open>lru\<close> (record \<open>lru_lib\<close>), of which the code
  relies on the laws \<open>lru_laws\<close>. The clock and the published snapshot are read several times; a
  call carries the values of its reads.
\<close>

section \<open>Data\<close>

record UserIdentity =
  ui_user_id :: string
  ui_home_region :: "string option"

record JwtHeader =
  jh_alg :: string
  jh_kid :: string

record JwtClaims =
  jc_user_id :: string
  jc_home_region :: "string option"
  jc_exp :: "u64 option"
  jc_nbf :: "u64 option"
  jc_iat :: "u64 option"
  jc_iss :: "string option"
  jc_aud :: "string option"
  jc_jti :: "string option"
  jc_tv :: "u64 option"

record CachedToken =
  ct_identity :: UserIdentity
  ct_expires_at :: u64
  ct_tv :: "u64 option"

record jwt_lib =
  jl_decode :: "string \<Rightarrow> u8 list option"
  jl_header :: "u8 list \<Rightarrow> JwtHeader option"
  jl_claims :: "u8 list \<Rightarrow> JwtClaims option"
  jl_alt_user_id :: "u8 list \<Rightarrow> string option"
  jl_hmac :: "string \<Rightarrow> string \<Rightarrow> u8 list option"
  jl_sha256 :: "string \<Rightarrow> u8 list"

record 'c lru_lib =
  lru_new :: 'c
  lru_get :: "string \<Rightarrow> 'c \<Rightarrow> CachedToken option \<times> 'c"
  lru_pop :: "string \<Rightarrow> 'c \<Rightarrow> 'c"
  lru_put :: "string \<Rightarrow> CachedToken \<Rightarrow> 'c \<Rightarrow> 'c"

text \<open>The values one call reads: the clock in three places, the snapshot in three places.\<close>

record auth_reads =
  ar_now :: u64
  ar_now_ms :: u64
  ar_now_rev :: u64
  ar_snap_stale :: RevocationSnapshot
  ar_snap_rev :: RevocationSnapshot
  ar_snap_tv :: RevocationSnapshot

section \<open>Configuration\<close>

definition revocation_fail_closed :: "env \<Rightarrow> bool" where
  "revocation_fail_closed env = env_flag env ''REVOCATION_FAIL_CLOSED''"

definition cache_ttl_secs :: "env \<Rightarrow> u64" where
  "cache_ttl_secs env =
     (case Option.bind (env ''AUTH_CACHE_TTL_SECS'') parse_uint of Some v \<Rightarrow> clamp 1 300 v | None \<Rightarrow> 30)"

definition effective_cache_expiry :: "u64 \<Rightarrow> u64 \<Rightarrow> u64 \<Rightarrow> u64" where
  "effective_cache_expiry token_exp now ttl = min token_exp (sat_add now ttl)"

text \<open>The same URL as the one the rate limiter builds from the parts; \<open>REDIS_URL\<close> is not read here.\<close>

definition auth_redis_url :: "env \<Rightarrow> string" where
  "auth_redis_url env =
     (let scheme = (if env_flag env ''REDIS_TLS'' then ''rediss'' else ''redis'');
          host = unwrap_or (env ''REDIS_HOST'') ''redis'';
          port = unwrap_or (env ''REDIS_PORT'') ''6379'' in
      case (non_empty (env ''REDIS_USERNAME''), non_empty (env ''REDIS_PASSWORD'')) of
        (Some u, Some p) \<Rightarrow> scheme @ ''://'' @ u @ '':'' @ p @ ''@'' @ host @ '':'' @ port
      | (None, Some p) \<Rightarrow> scheme @ ''://:'' @ p @ ''@'' @ host @ '':'' @ port
      | _ \<Rightarrow> scheme @ ''://'' @ host @ '':'' @ port)"

definition redis_timeout_ms :: "env \<Rightarrow> u64" where
  "redis_timeout_ms env =
     (case Option.bind (env ''REDIS_AUTH_TIMEOUT_MS'') parse_uint of Some v \<Rightarrow> clamp 5 1000 v | None \<Rightarrow> 50)"

section \<open>Helpers\<close>

definition token_hash_hex :: "jwt_lib \<Rightarrow> string \<Rightarrow> string" where
  "token_hash_hex lib token = concat (map hex_byte (jl_sha256 lib token))"

definition revocation_keys :: "jwt_lib \<Rightarrow> string \<Rightarrow> string option \<Rightarrow> string list" where
  "revocation_keys lib token jti =
     (case jti of Some j \<Rightarrow> if j = [] then [] else [jti_key j] | None \<Rightarrow> [])
     @ [token_key (token_hash_hex lib token)]"

definition sanitize_header_val :: "string \<Rightarrow> string option" where
  "sanitize_header_val val =
     (if CHR 0x0D \<in> set val \<or> CHR 0x0A \<in> set val \<or> CHR 0x00 \<in> set val then None else Some val)"

definition constant_time_eq :: "u8 list \<Rightarrow> u8 list \<Rightarrow> bool" where
  "constant_time_eq a b =
     (if length a \<noteq> length b then False
      else fold (\<lambda>(x, y) diff. diff OR (x XOR y)) (zip a b) 0 = 0)"

section \<open>A token that is not in the cache\<close>

text \<open>Structure, header, key selection and signature; the result is the payload segment.\<close>

definition verify_signature :: "jwt_lib \<Rightarrow> GatewayConfig \<Rightarrow> string \<Rightarrow> string option" where
  "verify_signature lib cfg token =
     (case splitn 3 CHR ''.'' token of
        [header_b64, payload_b64, sig_b64] \<Rightarrow> do {
          header_bytes \<leftarrow> jl_decode lib header_b64;
          header \<leftarrow> jl_header lib header_bytes;
          if jh_alg header \<noteq> ''HS256'' then None else do {
            secret \<leftarrow> (if jh_kid header = [] then Some (jwt_secret cfg) else jwt_keys cfg (jh_kid header));
            expected \<leftarrow> jl_hmac lib secret (header_b64 @ ''.'' @ payload_b64);
            provided \<leftarrow> jl_decode lib sig_b64;
            if constant_time_eq expected provided then Some payload_b64 else None
          }
        }
      | _ \<Rightarrow> None)"

text \<open>The time, issuer and audience claims; the result is the expiry.\<close>

definition check_claims :: "GatewayConfig \<Rightarrow> u64 \<Rightarrow> JwtClaims \<Rightarrow> u64 option" where
  "check_claims cfg now claims = do {
     expiry \<leftarrow> jc_exp claims;
     if expiry \<le> now then None
     else if (case jc_nbf claims of Some nbf \<Rightarrow> now < nbf | None \<Rightarrow> False) then None
     else if (case jc_iat claims of Some iat \<Rightarrow> iat + 86400 < now | None \<Rightarrow> False) then None
     else if jc_iss claims \<noteq> Some (expected_issuer cfg) then None
     else if jc_aud claims \<noteq> Some (expected_audience cfg) then None
     else Some expiry
   }"

definition raw_user_id :: "jwt_lib \<Rightarrow> u8 list \<Rightarrow> JwtClaims \<Rightarrow> string option" where
  "raw_user_id lib payload claims =
     (if jc_user_id claims = [] then jl_alt_user_id lib payload else Some (jc_user_id claims))"

text \<open>Steps 7, 7b and 8: revocation, token version, identity.\<close>

definition check_revocation :: "jwt_lib \<Rightarrow> auth_reads \<Rightarrow> string \<Rightarrow> u8 list \<Rightarrow> JwtClaims \<Rightarrow> bool" where
  "check_revocation lib rd token payload claims =
     (\<not> is_revoked (ar_snap_rev rd) (ar_now_rev rd) (jc_jti claims) (token_hash_hex lib token)
      \<and> (let uid = (case raw_user_id lib payload claims of Some u \<Rightarrow> u | None \<Rightarrow> []) in
         \<not> (uid \<noteq> [] \<and> tv_status (ar_snap_tv rd) uid (jc_tv claims) = TvStale)))"

definition build_identity :: "jwt_lib \<Rightarrow> u8 list \<Rightarrow> JwtClaims \<Rightarrow> UserIdentity option" where
  "build_identity lib payload claims = do {
     raw \<leftarrow> raw_user_id lib payload claims;
     uid \<leftarrow> sanitize_header_val raw;
     home \<leftarrow> (case jc_home_region claims of
               Some r \<Rightarrow> map_option Some (sanitize_header_val r)
             | None \<Rightarrow> Some None);
     Some \<lparr>ui_user_id = uid, ui_home_region = home\<rparr>
   }"

definition verify_token ::
    "jwt_lib \<Rightarrow> GatewayConfig \<Rightarrow> auth_reads \<Rightarrow> string \<Rightarrow> (UserIdentity \<times> u64 \<times> u64 option) option" where
  "verify_token lib cfg rd token = do {
     payload_b64 \<leftarrow> verify_signature lib cfg token;
     payload \<leftarrow> jl_decode lib payload_b64;
     claims \<leftarrow> jl_claims lib payload;
     expiry \<leftarrow> check_claims cfg (ar_now rd) claims;
     if check_revocation lib rd token payload claims then do {
       identity \<leftarrow> build_identity lib payload claims;
       Some (identity, expiry, jc_tv claims)
     } else None
   }"

section \<open>Validation with the cache\<close>

definition validate_miss ::
    "jwt_lib \<Rightarrow> 'c lru_lib \<Rightarrow> env \<Rightarrow> GatewayConfig \<Rightarrow> auth_reads \<Rightarrow> string \<Rightarrow> 'c \<Rightarrow> UserIdentity option \<times> 'c" where
  "validate_miss lib lru env cfg rd token c =
     (case verify_token lib cfg rd token of
        None \<Rightarrow> (None, c)
      | Some (identity, expiry, tv) \<Rightarrow>
          (Some identity,
           lru_put lru token \<lparr>ct_identity = identity,
             ct_expires_at = effective_cache_expiry expiry (ar_now rd) (cache_ttl_secs env), ct_tv = tv\<rparr> c))"

definition validate_token ::
    "jwt_lib \<Rightarrow> 'c lru_lib \<Rightarrow> env \<Rightarrow> GatewayConfig \<Rightarrow> auth_reads \<Rightarrow> string \<Rightarrow> 'c \<Rightarrow> UserIdentity option \<times> 'c" where
  "validate_token lib lru env cfg rd auth_header c =
     (case strip_prefix ''Bearer '' auth_header of
        None \<Rightarrow> (None, c)
      | Some token \<Rightarrow>
          if revocation_fail_closed env \<and> snapshot_stale env (ar_now_ms rd) (ar_snap_stale rd) then (None, c)
          else
            (case lru_get lru token c of
               (Some entry, c1) \<Rightarrow>
                 if ar_now rd < ct_expires_at entry then
                   (if tv_status (ar_snap_tv rd) (ui_user_id (ct_identity entry)) (ct_tv entry) = TvStale
                    then (None, lru_pop lru token c1) else (Some (ct_identity entry), c1))
                 else validate_miss lib lru env cfg rd token (lru_pop lru token c1)
             | (None, c1) \<Rightarrow> validate_miss lib lru env cfg rd token c1))"

section \<open>What acceptance means\<close>

lemma constant_time_eq_iff: "constant_time_eq a b \<longleftrightarrow> a = b"
proof -
  have acc: "fold (\<lambda>(x, y) diff. diff OR (x XOR y)) (zip a b) d = 0 \<longleftrightarrow> d = 0 \<and> a = b"
    if "length a = length b" for d :: u8
    using that
  proof (induction a b arbitrary: d rule: list_induct2)
    case (Cons x xs y ys)
    have "d OR (x XOR y) = 0 \<longleftrightarrow> d = 0 \<and> x = y"
      by (metis or.right_neutral or_eq_0_iff xor_self_eq bit.xor_self xor.left_neutral xor.assoc)
    then show ?case using Cons by auto
  qed simp
  show ?thesis using acc [of 0] by (auto simp: constant_time_eq_def)
qed

text \<open>
  What a valid token is, without the order of the checks: three segments whose header names
  \<open>HS256\<close> and a known key, a third segment that is the MAC of the first two under that key, claims
  that hold at the time, no live revocation, and a token version at the user's floor.
\<close>

definition mac_valid :: "jwt_lib \<Rightarrow> GatewayConfig \<Rightarrow> string \<Rightarrow> string \<Rightarrow> string \<Rightarrow> bool" where
  "mac_valid lib cfg h p s \<longleftrightarrow>
     (\<exists>hb header secret mac. jl_decode lib h = Some hb \<and> jl_header lib hb = Some header \<and> jh_alg header = ''HS256''
      \<and> (if jh_kid header = [] then Some (jwt_secret cfg) else jwt_keys cfg (jh_kid header)) = Some secret
      \<and> jl_hmac lib secret (h @ ''.'' @ p) = Some mac \<and> jl_decode lib s = Some mac)"

definition properly_signed :: "jwt_lib \<Rightarrow> GatewayConfig \<Rightarrow> string \<Rightarrow> string \<Rightarrow> bool" where
  "properly_signed lib cfg token p \<longleftrightarrow>
     (\<exists>h s. token = h @ ''.'' @ p @ ''.'' @ s \<and> CHR ''.'' \<notin> set h \<and> CHR ''.'' \<notin> set p \<and> mac_valid lib cfg h p s)"

lemma splitn_first:
  "splitn (Suc (Suc n)) c s = p # q # qs \<longleftrightarrow>
     (\<exists>rest. s = p @ c # rest \<and> c \<notin> set p \<and> splitn (Suc n) c rest = q # qs)"
proof
  assume l: "splitn (Suc (Suc n)) c s = p # q # qs"
  then obtain x rest where d: "dropWhile (\<lambda>x. x \<noteq> c) s = x # rest"
    by (cases "dropWhile (\<lambda>x. x \<noteq> c) s") (auto simp: Let_def)
  then have "x = c" using hd_dropWhile [of "\<lambda>x. x \<noteq> c" s] by simp
  moreover have "p = takeWhile (\<lambda>x. x \<noteq> c) s" "splitn (Suc n) c rest = q # qs"
    using l d by (simp_all add: Let_def)
  ultimately have "s = p @ c # rest \<and> c \<notin> set p \<and> splitn (Suc n) c rest = q # qs"
    using d takeWhile_dropWhile_id [of "\<lambda>x. x \<noteq> c" s] by (auto dest: set_takeWhileD)
  then show "\<exists>rest. s = p @ c # rest \<and> c \<notin> set p \<and> splitn (Suc n) c rest = q # qs" by blast
next
  assume "\<exists>rest. s = p @ c # rest \<and> c \<notin> set p \<and> splitn (Suc n) c rest = q # qs"
  then obtain rest where r: "s = p @ c # rest" "c \<notin> set p" "splitn (Suc n) c rest = q # qs" by blast
  have "x \<noteq> c" if "x \<in> set p" for x using r(2) that by blast
  then have "takeWhile (\<lambda>x. x \<noteq> c) s = p" "dropWhile (\<lambda>x. x \<noteq> c) s = c # rest"
    unfolding r(1) by (simp_all add: takeWhile_append2 dropWhile_append2)
  then show "splitn (Suc (Suc n)) c s = p # q # qs" using r(3) by (simp add: Let_def)
qed

lemma splitn3: "splitn 3 CHR ''.'' token = [h, p, s] \<longleftrightarrow>
    token = h @ ''.'' @ p @ ''.'' @ s \<and> CHR ''.'' \<notin> set h \<and> CHR ''.'' \<notin> set p"
  unfolding numeral_3_eq_3 splitn_first by auto

lemma verify_segments:
  assumes "splitn 3 CHR ''.'' token = [h, q, s]"
  shows "verify_signature lib cfg token = Some p \<longleftrightarrow> q = p \<and> mac_valid lib cfg h q s"
proof -
  define key where "key header = (if jh_kid header = [] then Some (jwt_secret cfg) else jwt_keys cfg (jh_kid header))" for header
  show ?thesis
    unfolding verify_signature_def assms mac_valid_def key_def [symmetric]
    by (simp add: constant_time_eq_iff Option.bind_eq_Some_conv) blast
qed

lemma verify_signature_iff: "verify_signature lib cfg token = Some p \<longleftrightarrow> properly_signed lib cfg token p"
proof (cases "\<exists>h q s. splitn 3 CHR ''.'' token = [h, q, s]")
  case False
  then have "verify_signature lib cfg token = None"
    by (auto simp: verify_signature_def split: list.splits)
  moreover have "\<not> properly_signed lib cfg token p"
    using False unfolding properly_signed_def splitn3 by blast
  ultimately show ?thesis by simp
next
  case True
  then obtain h q s where t: "splitn 3 CHR ''.'' token = [h, q, s]" by blast
  have "properly_signed lib cfg token p \<longleftrightarrow> (\<exists>h' s'. splitn 3 CHR ''.'' token = [h', p, s'] \<and> mac_valid lib cfg h' p s')"
    unfolding properly_signed_def splitn3 by simp
  also have "\<dots> \<longleftrightarrow> q = p \<and> mac_valid lib cfg h q s" unfolding t by auto
  finally show ?thesis using verify_segments [OF t] by simp
qed

definition claims_hold :: "GatewayConfig \<Rightarrow> u64 \<Rightarrow> JwtClaims \<Rightarrow> u64 \<Rightarrow> bool" where
  "claims_hold cfg now claims expiry \<longleftrightarrow>
     jc_exp claims = Some expiry \<and> now < expiry
   \<and> (\<forall>nbf. jc_nbf claims = Some nbf \<longrightarrow> nbf \<le> now)
   \<and> (\<forall>iat. jc_iat claims = Some iat \<longrightarrow> now \<le> iat + 86400)
   \<and> jc_iss claims = Some (expected_issuer cfg) \<and> jc_aud claims = Some (expected_audience cfg)"

lemma check_claims_iff: "check_claims cfg now claims = Some expiry \<longleftrightarrow> claims_hold cfg now claims expiry"
  by (cases "jc_exp claims") (auto simp: check_claims_def claims_hold_def not_le not_less split: option.splits if_splits)

definition header_safe :: "string \<Rightarrow> bool" where
  "header_safe v \<longleftrightarrow> CHR 0x0D \<notin> set v \<and> CHR 0x0A \<notin> set v \<and> CHR 0x00 \<notin> set v"

lemma sanitize_iff: "sanitize_header_val v = Some w \<longleftrightarrow> w = v \<and> header_safe v"
  by (auto simp: sanitize_header_val_def header_safe_def)

lemma build_identity_iff:
  "build_identity lib payload claims = Some uid \<longleftrightarrow>
     raw_user_id lib payload claims = Some (ui_user_id uid) \<and> header_safe (ui_user_id uid)
   \<and> ui_home_region uid = jc_home_region claims \<and> (\<forall>r. jc_home_region claims = Some r \<longrightarrow> header_safe r)"
  by (cases uid; cases "jc_home_region claims")
    (auto simp: build_identity_def Option.bind_eq_Some_conv sanitize_iff)

definition genuine ::
    "jwt_lib \<Rightarrow> GatewayConfig \<Rightarrow> auth_reads \<Rightarrow> string \<Rightarrow> UserIdentity \<Rightarrow> u64 \<Rightarrow> u64 option \<Rightarrow> bool" where
  "genuine lib cfg rd token uid expiry tv \<longleftrightarrow>
     (\<exists>p payload claims. properly_signed lib cfg token p \<and> jl_decode lib p = Some payload
      \<and> jl_claims lib payload = Some claims \<and> claims_hold cfg (ar_now rd) claims expiry \<and> tv = jc_tv claims
      \<and> (\<forall>k \<in> set (revocation_keys lib token (jc_jti claims)). \<not> live_entry (ar_snap_rev rd) (ar_now_rev rd) k)
      \<and> (ui_user_id uid = [] \<or> tv_status (ar_snap_tv rd) (ui_user_id uid) tv = TvValid)
      \<and> raw_user_id lib payload claims = Some (ui_user_id uid) \<and> header_safe (ui_user_id uid)
      \<and> ui_home_region uid = jc_home_region claims \<and> (\<forall>r. jc_home_region claims = Some r \<longrightarrow> header_safe r))"

lemma not_revoked_iff:
  "\<not> is_revoked snap now jti (token_hash_hex lib token)
     \<longleftrightarrow> (\<forall>k \<in> set (revocation_keys lib token jti). \<not> live_entry snap now k)"
  by (auto simp: is_revoked_def revocation_keys_def split: option.splits)

lemma tv_not_stale: "tv_status snap u tv \<noteq> TvStale \<longleftrightarrow> tv_status snap u tv = TvValid"
  by (cases "tv_status snap u tv") auto

lemma verify_token_iff:
  "verify_token lib cfg rd token = Some (uid, expiry, tv) \<longleftrightarrow> genuine lib cfg rd token uid expiry tv"
proof -
  have "check_revocation lib rd token payload claims \<longleftrightarrow>
      (\<forall>k \<in> set (revocation_keys lib token (jc_jti claims)). \<not> live_entry (ar_snap_rev rd) (ar_now_rev rd) k)
      \<and> (ui_user_id uid = [] \<or> tv_status (ar_snap_tv rd) (ui_user_id uid) (jc_tv claims) = TvValid)"
    if "raw_user_id lib payload claims = Some (ui_user_id uid)" for payload claims
    using that tv_not_stale unfolding check_revocation_def not_revoked_iff by (auto simp: Let_def)
  then show ?thesis
    unfolding verify_token_def genuine_def
    by (auto simp: Option.bind_eq_Some_conv verify_signature_iff check_claims_iff build_identity_iff split: if_splits)
qed

section \<open>Sequences of validations\<close>

text \<open>
  The laws of the cache the code relies on, over its content: a lookup finds what is stored and
  changes nothing stored, a removal removes, and an insertion may evict other entries but adds
  or alters none.
\<close>

definition lru_laws :: "'c lru_lib \<Rightarrow> ('c \<Rightarrow> string \<rightharpoonup> CachedToken) \<Rightarrow> bool" where
  "lru_laws lru content \<longleftrightarrow>
     content (lru_new lru) = Map.empty
   \<and> (\<forall>k c. fst (lru_get lru k c) = content c k \<and> content (snd (lru_get lru k c)) = content c)
   \<and> (\<forall>k c. content (lru_pop lru k c) = (content c)(k := None))
   \<and> (\<forall>k v c k' e. content (lru_put lru k v c) k' = Some e \<longrightarrow> (if k' = k then e = v else content c k' = Some e))"

type_synonym auth_call = "GatewayConfig \<times> auth_reads \<times> string"

definition auth_step :: "jwt_lib \<Rightarrow> 'c lru_lib \<Rightarrow> env \<Rightarrow> 'c \<Rightarrow> auth_call \<Rightarrow> 'c" where
  "auth_step lib lru env c = (\<lambda>(cfg, rd, hdr). snd (validate_token lib lru env cfg rd hdr c))"

lemma auth_step_call [simp]:
  "auth_step lib lru env c (cfg, rd, hdr) = snd (validate_token lib lru env cfg rd hdr c)"
  by (simp add: auth_step_def)

text \<open>An entry is justified by an earlier call that verified its token.\<close>

definition justified :: "jwt_lib \<Rightarrow> env \<Rightarrow> auth_call list \<Rightarrow> string \<Rightarrow> CachedToken \<Rightarrow> bool" where
  "justified lib env calls token e \<longleftrightarrow>
     (\<exists>cfg rd expiry. (cfg, rd, ''Bearer '' @ token) \<in> set calls
        \<and> genuine lib cfg rd token (ct_identity e) expiry (ct_tv e)
        \<and> ct_expires_at e = effective_cache_expiry expiry (ar_now rd) (cache_ttl_secs env))"

definition cache_ok :: "jwt_lib \<Rightarrow> env \<Rightarrow> ('c \<Rightarrow> string \<rightharpoonup> CachedToken) \<Rightarrow> auth_call list \<Rightarrow> 'c \<Rightarrow> bool" where
  "cache_ok lib env content calls c \<longleftrightarrow> (\<forall>t e. content c t = Some e \<longrightarrow> justified lib env calls t e)"

lemma cache_ok_mono: "cache_ok lib env content calls c \<Longrightarrow> set calls \<subseteq> set calls' \<Longrightarrow> cache_ok lib env content calls' c"
  unfolding cache_ok_def justified_def by blast

lemma cache_ok_smaller:
  "cache_ok lib env content calls c \<Longrightarrow> (\<And>t e. content c' t = Some e \<Longrightarrow> content c t = Some e)
    \<Longrightarrow> cache_ok lib env content calls c'"
  unfolding cache_ok_def by blast

lemma validate_miss_ok:
  assumes "lru_laws lru content" and "cache_ok lib env content calls c" and "(cfg, rd, ''Bearer '' @ token) \<in> set calls"
  shows "cache_ok lib env content calls (snd (validate_miss lib lru env cfg rd token c))"
proof (cases "verify_token lib cfg rd token")
  case None
  then show ?thesis using assms(2) by (simp add: validate_miss_def)
next
  case (Some r)
  obtain uid expiry tv where r: "r = (uid, expiry, tv)" by (cases r)
  let ?e = "\<lparr>ct_identity = uid, ct_expires_at = effective_cache_expiry expiry (ar_now rd) (cache_ttl_secs env), ct_tv = tv\<rparr>"
  have "genuine lib cfg rd token uid expiry tv" using Some r verify_token_iff by simp
  then have "justified lib env calls token ?e" unfolding justified_def using assms(3) by auto
  moreover have "content (lru_put lru token ?e c) t = Some e \<Longrightarrow> (if t = token then e = ?e else content c t = Some e)" for t e
    using assms(1) unfolding lru_laws_def by blast
  ultimately have "cache_ok lib env content calls (lru_put lru token ?e c)"
    using assms(2) unfolding cache_ok_def by metis
  then show ?thesis using Some r by (simp add: validate_miss_def)
qed

lemma lru_get_pop:
  assumes "lru_laws lru content" and "lru_get lru t c = (r, c1)"
  shows "r = content c t" and "content c1 = content c" and "content (lru_pop lru t c1) = (content c)(t := None)"
proof -
  have "fst (lru_get lru t c) = content c t" "content (snd (lru_get lru t c)) = content c"
    using assms(1) unfolding lru_laws_def by blast+
  then show r: "r = content c t" "content c1 = content c" using assms(2) by simp_all
  have "content (lru_pop lru t c1) = (content c1)(t := None)" using assms(1) unfolding lru_laws_def by blast
  then show "content (lru_pop lru t c1) = (content c)(t := None)" by (simp only: r(2))
qed

lemma validate_token_ok:
  assumes "lru_laws lru content" and "cache_ok lib env content calls c" and "(cfg, rd, hdr) \<in> set calls"
  shows "cache_ok lib env content calls (snd (validate_token lib lru env cfg rd hdr c))"
proof (cases "strip_prefix ''Bearer '' hdr")
  case None
  then show ?thesis using assms(2) by (simp add: validate_token_def)
next
  case (Some token)
  then have hdr: "hdr = ''Bearer '' @ token" by (simp only: strip_prefix_Some)
  obtain r c1 where g: "lru_get lru token c = (r, c1)" by fastforce
  note lg = lru_get_pop [OF assms(1) g]
  have c1: "cache_ok lib env content calls c1" using assms(2) lg(2) by (simp add: cache_ok_def)
  have p1: "cache_ok lib env content calls (lru_pop lru token c1)"
    using assms(2) by (rule cache_ok_smaller) (simp add: lg(3) split: if_splits)
  show ?thesis
    using assms(2) c1 p1 validate_miss_ok [OF assms(1) c1] validate_miss_ok [OF assms(1) p1] assms(3) g Some
    by (simp add: validate_token_def hdr split: option.splits)
qed

lemma auth_run_ok:
  assumes "lru_laws lru content"
  shows "cache_ok lib env content calls (run (auth_step lib lru env) (lru_new lru) calls)"
proof (induction calls rule: rev_induct)
  case Nil
  have "content (lru_new lru) = Map.empty" using assms unfolding lru_laws_def by blast
  then show ?case by (simp add: cache_ok_def)
next
  case (snoc call calls)
  obtain cfg rd hdr where c: "call = (cfg, rd, hdr)" by (cases call)
  have "cache_ok lib env content (calls @ [call]) (run (auth_step lib lru env) (lru_new lru) calls)"
    using snoc by (rule cache_ok_mono) auto
  then show ?case
    using validate_token_ok [OF assms] by (simp add: run_append c)
qed

lemma cache_ttl_bounds: "1 \<le> cache_ttl_secs env \<and> cache_ttl_secs env \<le> 300"
  by (auto simp: cache_ttl_secs_def split: option.splits)

text \<open>The verification behind an accepted token: how fresh it is, and what holds now.\<close>

definition backed ::
    "jwt_lib \<Rightarrow> env \<Rightarrow> auth_call list \<Rightarrow> auth_reads \<Rightarrow> string \<Rightarrow> UserIdentity \<Rightarrow> bool" where
  "backed lib env calls rd token uid \<longleftrightarrow>
     (\<exists>cfg0 rd0 expiry tv. (cfg0, rd0, ''Bearer '' @ token) \<in> set calls
        \<and> genuine lib cfg0 rd0 token uid expiry tv \<and> ar_now rd < expiry
        \<and> unat (ar_now rd) < unat (ar_now rd0) + unat (cache_ttl_secs env)
        \<and> (ui_user_id uid = [] \<or> tv_status (ar_snap_tv rd) (ui_user_id uid) tv = TvValid))"

lemma miss_backed:
  assumes "fst (validate_miss lib lru env cfg rd token c) = Some uid" and "(cfg, rd, ''Bearer '' @ token) \<in> set calls"
  shows "backed lib env calls rd token uid"
proof -
  obtain expiry tv where g: "genuine lib cfg rd token uid expiry tv"
    using assms(1) by (auto simp: validate_miss_def verify_token_iff split: option.splits)
  then have "ar_now rd < expiry" "ui_user_id uid = [] \<or> tv_status (ar_snap_tv rd) (ui_user_id uid) tv = TvValid"
    unfolding genuine_def claims_hold_def by blast+
  moreover have "0 < unat (cache_ttl_secs env)" using cache_ttl_bounds [of env] by (simp add: word_le_nat_alt)
  ultimately show ?thesis
    unfolding backed_def using g assms(2) by (intro exI [of _ cfg] exI [of _ rd] exI [of _ expiry] exI [of _ tv]) simp
qed

lemma hit_backed:
  assumes "justified lib env calls token e" and "ar_now rd < ct_expires_at e"
    and "tv_status (ar_snap_tv rd) (ui_user_id (ct_identity e)) (ct_tv e) \<noteq> TvStale"
  shows "backed lib env calls rd token (ct_identity e)"
proof -
  obtain cfg rd0 expiry where j: "(cfg, rd0, ''Bearer '' @ token) \<in> set calls"
      "genuine lib cfg rd0 token (ct_identity e) expiry (ct_tv e)"
      "ct_expires_at e = effective_cache_expiry expiry (ar_now rd0) (cache_ttl_secs env)"
    using assms(1) unfolding justified_def by blast
  then have "ar_now rd < expiry" "ar_now rd < sat_add (ar_now rd0) (cache_ttl_secs env)"
    using assms(2) by (simp_all add: effective_cache_expiry_def)
  moreover from this(2) have "unat (ar_now rd) < unat (ar_now rd0) + unat (cache_ttl_secs env)"
    unfolding word_less_nat_alt unat_sat_add by linarith
  ultimately show ?thesis unfolding backed_def using j assms(3) tv_not_stale by blast
qed

text \<open>(C7)
  Soundness of authentication over any sequence of calls. Whenever an identity is returned, the
  header carries a token that this call or an earlier one verified completely (segments, \<open>HS256\<close>,
  signature under the configured key, claims, no live revocation, floor), the identity is the
  token's and free of CR, LF and NUL, the token has not expired now, an earlier verification is
  less than the cache lifetime (at most 300 seconds) old, the token version is not stale now, and
  in fail-closed mode the snapshot is fresh.
\<close>
theorem accepted_token_genuine:
  assumes "lru_laws lru content"
    and "fst (validate_token lib lru env cfg rd hdr (run (auth_step lib lru env) (lru_new lru) calls)) = Some uid"
  shows "\<exists>token cfg0 rd0 expiry tv. hdr = ''Bearer '' @ token \<and> (cfg0, rd0, hdr) \<in> set (calls @ [(cfg, rd, hdr)])
    \<and> genuine lib cfg0 rd0 token uid expiry tv \<and> ar_now rd < expiry
    \<and> unat (ar_now rd) < unat (ar_now rd0) + unat (cache_ttl_secs env) \<and> cache_ttl_secs env \<le> 300
    \<and> (ui_user_id uid = [] \<or> tv_status (ar_snap_tv rd) (ui_user_id uid) tv = TvValid)
    \<and> header_safe (ui_user_id uid)
    \<and> \<not> (revocation_fail_closed env \<and> snapshot_stale env (ar_now_ms rd) (ar_snap_stale rd))"
proof -
  let ?c = "run (auth_step lib lru env) (lru_new lru) calls"
  obtain token where t: "strip_prefix ''Bearer '' hdr = Some token"
    using assms(2) by (cases "strip_prefix ''Bearer '' hdr") (auto simp: validate_token_def)
  then have hdr: "hdr = ''Bearer '' @ token" by (simp only: strip_prefix_Some)
  have guard: "\<not> (revocation_fail_closed env \<and> snapshot_stale env (ar_now_ms rd) (ar_snap_stale rd))"
    using assms(2) t by (auto simp: validate_token_def split: if_splits)
  let ?all = "calls @ [(cfg, rd, hdr)]"
  obtain r c1 where g: "lru_get lru token ?c = (r, c1)" by fastforce
  have r: "r = content ?c token" by (rule lru_get_pop(1) [OF assms(1) g])
  have miss: "fst (validate_miss lib lru env cfg rd token c') = Some uid \<Longrightarrow> backed lib env ?all rd token uid" for c'
    by (rule miss_backed [of _ lru _ cfg _ _ c']) (simp_all add: hdr)
  have hit: "justified lib env ?all token e" if "r = Some e" for e
    using auth_run_ok [OF assms(1), of lib env calls] that r
    unfolding cache_ok_def justified_def by (metis UnI1 set_append)
  have "backed lib env ?all rd token uid"
    using assms(2) guard g t miss hit hit_backed
    by (auto simp: validate_token_def split: option.splits if_splits)
  moreover have "header_safe (ui_user_id uid)" if "genuine lib cfg0 rd0 token uid expiry tv" for cfg0 rd0 expiry tv
    using that unfolding genuine_def by blast
  ultimately show ?thesis using hdr guard cache_ttl_bounds unfolding backed_def by blast
qed

text \<open>A library and a cache for concrete instances: every segment decodes, and the MAC is constant.\<close>

definition demo_claims :: JwtClaims where
  "demo_claims = \<lparr>jc_user_id = ''al'', jc_home_region = None, jc_exp = Some 500, jc_nbf = None, jc_iat = None,
     jc_iss = Some ''api-gateway-auth-server'', jc_aud = Some ''api-gateway-clients'', jc_jti = None, jc_tv = None\<rparr>"

definition demo_lib :: jwt_lib where
  "demo_lib = \<lparr>jl_decode = (\<lambda>_. Some [7]), jl_header = (\<lambda>_. Some \<lparr>jh_alg = ''HS256'', jh_kid = []\<rparr>),
     jl_claims = (\<lambda>_. Some demo_claims), jl_alt_user_id = (\<lambda>_. None), jl_hmac = (\<lambda>_ _. Some [7]), jl_sha256 = (\<lambda>_. [1])\<rparr>"

definition map_cache :: "(string \<rightharpoonup> CachedToken) lru_lib" where
  "map_cache = \<lparr>lru_new = Map.empty, lru_get = (\<lambda>k c. (c k, c)), lru_pop = (\<lambda>k c. c(k := None)),
     lru_put = (\<lambda>k v c. c(k \<mapsto> v))\<rparr>"

lemma map_cache_laws: "lru_laws map_cache (\<lambda>c. c)"
  by (simp add: lru_laws_def map_cache_def)

definition demo_reads :: "u64 \<Rightarrow> auth_reads" where
  "demo_reads now = \<lparr>ar_now = now, ar_now_ms = now * 1000, ar_now_rev = now, ar_snap_stale = snapshot_empty,
     ar_snap_rev = snapshot_empty, ar_snap_tv = snapshot_empty\<rparr>"

lemma demo_verifies:
  "now < 500 \<Longrightarrow> verify_token demo_lib GatewayConfig_default (demo_reads now) ''h.p.s''
     = Some (\<lparr>ui_user_id = ''al'', ui_home_region = None\<rparr>, 500, None)"
  by (simp add: verify_token_def verify_signature_def demo_lib_def demo_claims_def demo_reads_def numeral_3_eq_3 Let_def
      constant_time_eq_iff check_claims_def GatewayConfig_default_def check_revocation_def is_revoked_def live_entry_def
      snapshot_empty_def tv_status_def raw_user_id_def build_identity_def sanitize_header_val_def not_le)

lemma demo_accepts:
  "fst (validate_token demo_lib map_cache Map.empty GatewayConfig_default (demo_reads 100) ''Bearer h.p.s'' Map.empty)
     = Some \<lparr>ui_user_id = ''al'', ui_home_region = None\<rparr>"
  by (simp add: validate_token_def strip_prefix_def revocation_fail_closed_def env_flag_def map_cache_def
      validate_miss_def demo_verifies)

theorem accepted_token_genuine_witness:
  "\<exists>token cfg0 rd0 expiry tv. ''Bearer h.p.s'' = ''Bearer '' @ token
    \<and> (cfg0, rd0, ''Bearer h.p.s'') \<in> set [(GatewayConfig_default, demo_reads 100, ''Bearer h.p.s'')]
    \<and> genuine demo_lib cfg0 rd0 token \<lparr>ui_user_id = ''al'', ui_home_region = None\<rparr> expiry tv \<and> 100 < expiry"
proof -
  have "fst (validate_token demo_lib map_cache Map.empty GatewayConfig_default (demo_reads 100) ''Bearer h.p.s''
      (run (auth_step demo_lib map_cache Map.empty) (lru_new map_cache) []))
     = Some \<lparr>ui_user_id = ''al'', ui_home_region = None\<rparr>"
    using demo_accepts by (simp add: map_cache_def)
  from accepted_token_genuine [OF map_cache_laws this] show ?thesis
    by (auto simp: demo_reads_def)
qed

text \<open>(C8)
  A first validation is exact: on a cache without the token, a bearer header is accepted with an
  identity exactly when the token is genuine for that identity and the fail-closed guard does not
  apply; anything else, a header without the scheme included, is refused.
\<close>
theorem first_validation_exact:
  assumes "lru_laws lru content" and "content c token = None"
  shows "fst (validate_token lib lru env cfg rd (''Bearer '' @ token) c) = Some uid \<longleftrightarrow>
      \<not> (revocation_fail_closed env \<and> snapshot_stale env (ar_now_ms rd) (ar_snap_stale rd))
    \<and> (\<exists>expiry tv. genuine lib cfg rd token uid expiry tv)"
proof -
  obtain r c1 where g: "lru_get lru token c = (r, c1)" by fastforce
  have r: "r = None" using lru_get_pop(1) [OF assms(1) g] assms(2) by simp
  have p: "strip_prefix ''Bearer '' (''Bearer '' @ token) = Some token" by (simp add: strip_prefix_Some del: append.simps)
  have "fst (validate_miss lib lru env cfg rd token c1) = Some uid \<longleftrightarrow> (\<exists>expiry tv. genuine lib cfg rd token uid expiry tv)"
    by (auto simp: validate_miss_def verify_token_iff [symmetric] split: option.splits)
  then show ?thesis
    unfolding validate_token_def p option.case using g r by simp
qed

theorem first_validation_exact_witness:
  "\<exists>expiry tv. genuine demo_lib GatewayConfig_default (demo_reads 100) ''h.p.s''
     \<lparr>ui_user_id = ''al'', ui_home_region = None\<rparr> expiry tv"
  using first_validation_exact [OF map_cache_laws, of Map.empty "''h.p.s''" demo_lib Map.empty GatewayConfig_default
      "demo_reads 100" "\<lparr>ui_user_id = ''al'', ui_home_region = None\<rparr>"] demo_accepts
  by simp

end
