(* ===== verification/Router.thy ===== *)
theory Router
  imports Config
begin

text \<open>
  Routing, \<open>rust-ext/src/router.rs\<close>: the construction of the path router from the routes, the
  residency rule, and the resolution of a request. The radix tree of \<open>matchit\<close> is a parameter:
  its empty tree, its insertion (a conflicting insertion is refused and ignored) and its lookup.
\<close>

record RouteMeta =
  rm_service_name :: string
  rm_tier :: string
  rm_validation :: "ValidationConfig option"

record 'r matchit =
  mt_new :: 'r
  mt_insert :: "string \<Rightarrow> RouteMeta \<Rightarrow> 'r \<Rightarrow> 'r"
  mt_at :: "'r \<Rightarrow> string \<Rightarrow> RouteMeta option"

definition current_region :: "env \<Rightarrow> string" where
  "current_region env = (case env ''GATEWAY_REGION'' of Some r \<Rightarrow> r | None \<Rightarrow> ''US'')"

definition route_meta :: "Route \<Rightarrow> RouteMeta" where
  "route_meta route =
     \<lparr>rm_service_name = rt_service_name route, rm_tier = effective_tier route, rm_validation = rt_validation route\<rparr>"

definition wildcard_path :: "string \<Rightarrow> string" where
  "wildcard_path p = (if ends_with p ''/'' then p @ ''*path'' else p @ ''/*path'')"

definition insert_route :: "'r matchit \<Rightarrow> Route \<Rightarrow> 'r \<Rightarrow> 'r" where
  "insert_route mt route r =
     mt_insert mt (path_prefix route) (route_meta route)
       (mt_insert mt (wildcard_path (path_prefix route)) (route_meta route) r)"

definition update_router :: "'r matchit \<Rightarrow> GatewayConfig \<Rightarrow> 'r" where
  "update_router mt config = fold (insert_route mt) (routes config) (mt_new mt)"

record ResolvedRoute =
  rr_service :: "ServiceConfig option"
  rr_region :: string
  rr_tier :: string
  rr_validation :: "ValidationConfig option"

definition resolve_region :: "string option \<Rightarrow> string \<Rightarrow> int + string" where
  "resolve_region identity_region current =
     (let required = (case identity_region of
                        Some r \<Rightarrow> r
                      | None \<Rightarrow> if current = ''GLOBAL'' then ''US'' else current) in
      if required = current \<or> current = ''GLOBAL'' \<or> required = ''GLOBAL'' then Inr required else Inl 403)"

definition find_service ::
    "'r matchit \<Rightarrow> 'r \<Rightarrow> string \<Rightarrow> GatewayConfig \<Rightarrow> ServiceConfig option \<times> string \<times> ValidationConfig option" where
  "find_service mt router path config =
     (case mt_at mt router path of
        Some m \<Rightarrow> (services config (rm_service_name m), rm_tier m, rm_validation m)
      | None \<Rightarrow> (None, ''normal'', None))"

text \<open>Only the home region of the identity is used; the breaker state is ignored by the code.\<close>

definition route_request ::
    "'r matchit \<Rightarrow> env \<Rightarrow> 'r \<Rightarrow> GatewayConfig \<Rightarrow> string \<Rightarrow> string option option \<Rightarrow> int + ResolvedRoute" where
  "route_request mt env router config path identity =
     (case find_service mt router path config of
        (service, tier, validation) \<Rightarrow>
          (case resolve_region (Option.bind identity id) (current_region env) of
             Inl e \<Rightarrow> Inl e
           | Inr region \<Rightarrow>
               Inr \<lparr>rr_service = service, rr_region = region, rr_tier = tier, rr_validation = validation\<rparr>))"

text \<open>(C28)
  Data residency. A request of a user with a home region is routed on this node exactly when the
  home region is the node's region or one of the two is \<open>GLOBAL\<close>, and then to the pool of the home
  region; otherwise the answer is 403. A request without a home region is never refused here.
\<close>
theorem residency_enforced:
  "(case route_request mt env router config path (Some (Some home)) of
      Inr rr \<Rightarrow> rr_region rr = home \<and> (home = current_region env \<or> current_region env = ''GLOBAL'' \<or> home = ''GLOBAL'')
    | Inl e \<Rightarrow> e = 403 \<and> home \<noteq> current_region env \<and> current_region env \<noteq> ''GLOBAL'' \<and> home \<noteq> ''GLOBAL'')
   \<and> (\<exists>rr rr'. route_request mt env router config path None = Inr rr
        \<and> route_request mt env router config path (Some None) = Inr rr'
        \<and> rr_region rr = (if current_region env = ''GLOBAL'' then ''US'' else current_region env)
        \<and> rr_region rr' = rr_region rr)"
  by (cases "find_service mt router path config")
    (simp add: route_request_def resolve_region_def Let_def split: sum.splits)

text \<open>Every route of the configuration carries one of the three tiers.\<close>

lemma route_meta_tier: "rm_tier (route_meta r) \<in> {''fast'', ''normal'', ''slow''}"
  by (simp add: route_meta_def effective_tier_def)

text \<open>
  Between the two stores of a reload a request is answered from a new router and an old
  configuration. Example: the path \<open>/x\<close> moves from service \<open>a\<close> to service \<open>b\<close>. Before and after the
  reload the path has a service; a request in between finds none, which the pipeline answers by 404.
\<close>

definition exact_paths :: "(string \<rightharpoonup> RouteMeta) matchit" where
  "exact_paths = \<lparr>mt_new = Map.empty, mt_insert = (\<lambda>p m r. if r p = None then r(p \<mapsto> m) else r), mt_at = (\<lambda>r p. r p)\<rparr>"

definition one_service :: "string \<Rightarrow> GatewayConfig" where
  "one_service name = GatewayConfig_default\<lparr>
     services := [name \<mapsto> \<lparr>sc_name = name, rate_limit_max = 0, regional_upstreams = Map.empty, require_auth = False,
       canary = None, quota = None\<rparr>],
     routes := [\<lparr>path_prefix = ''/x'', rt_service_name = name, rt_strip_prefix = False, rt_tier = ''normal'',
       rt_validation = None\<rparr>]\<rparr>"

lemma lookup_during_reload:
  "let seen = published_states (\<lambda>name. Some (one_service name)) (\<lambda>_. None) (update_router exact_paths)
         [(Map.empty, Some (1, Some ''a'')), (Map.empty, Some (2, Some ''b''))];
       service = (\<lambda>n. map_option sc_name (fst (find_service exact_paths (cs_router (seen ! n)) ''/x'' (cs_config (seen ! n))))) in
   service 3 = Some ''a'' \<and> service 4 = None \<and> service 5 = Some ''b''"
  by (simp add: published_states_def try_reload_config_def config_start_def Let_def update_router_def exact_paths_def
      one_service_def insert_route_def find_service_def wildcard_path_def ends_with_def apply_secret_overrides_def
      GatewayConfig_default_def override_upstreams_def override_cors_def route_meta_def)

end
