(* ===== verification/Redis_Window.thy ===== *)
theory Redis_Window
  imports F64
begin

text \<open>
  The health recorder of \<open>rust-ext/src/redis_cb.rs\<close>: a ring of one-second buckets, each with
  its counters and a latency histogram of 18 bands, and the statistics computed from the
  buckets that are not stale. The main result is that the ring computes what it promises: for
  calls recorded in the order of their timestamps the aggregated counters are the numbers of
  recorded calls of the window. The bucket mutexes make \<open>record\<close> atomic, so the ring is a plain
  list of buckets; \<open>now_ts\<close> is the reading of the clock.
\<close>

section \<open>Outcomes\<close>

datatype RedisCallOutcome = Success | RedisError | Timeout | CircuitOpen | ConcurrencyRejected

section \<open>The rolling window\<close>

definition HIST_BANDS :: nat where [simp]: "HIST_BANDS = 18"

definition HIST_BOUNDS_US :: "u64 list" where
  "HIST_BOUNDS_US =
     [500, 1000, 2000, 4000, 8000, 16000, 32000, 64000,
      100000, 150000, 200000, 300000, 400000, 500000,
      750000, 1000000, 2000000]"

definition MAX_WINDOW_BUCKETS :: nat where [simp]: "MAX_WINDOW_BUCKETS = 64"

record TimeBucket =
  tb_ts :: u32
  tb_total :: u64
  tb_errors :: u64
  tb_timeouts :: u64
  tb_latency_sum :: u64
  tb_hist :: "u64 list"

definition TimeBucket_default :: TimeBucket where
  "TimeBucket_default =
     \<lparr>tb_ts = 0, tb_total = 0, tb_errors = 0, tb_timeouts = 0, tb_latency_sum = 0,
      tb_hist = replicate HIST_BANDS 0\<rparr>"

type_synonym RollingWindow = "TimeBucket list"

definition RollingWindow_new :: "nat \<Rightarrow> RollingWindow" where
  "RollingWindow_new n = replicate n TimeBucket_default"

text \<open>\<open>partition_point\<close>: the number of leading bounds that the latency exceeds.\<close>

definition hist_band :: "u64 \<Rightarrow> nat" where
  "hist_band latency_us = length (takeWhile (\<lambda>bound. bound < latency_us) HIST_BOUNDS_US)"

definition bucket_record :: "u32 \<Rightarrow> RedisCallOutcome \<Rightarrow> u64 \<Rightarrow> TimeBucket \<Rightarrow> TimeBucket" where
  "bucket_record ts outcome latency_us b0 =
     (let b1 = (if tb_ts b0 \<noteq> ts then TimeBucket_default\<lparr>tb_ts := ts\<rparr> else b0);
          band = hist_band latency_us;
          b2 = b1\<lparr>tb_total := tb_total b1 + 1,
                  tb_latency_sum := tb_latency_sum b1 + latency_us,
                  tb_hist := (tb_hist b1)[band := tb_hist b1 ! band + 1]\<rparr> in
      case outcome of
        RedisError \<Rightarrow> b2\<lparr>tb_errors := tb_errors b2 + 1\<rparr>
      | Timeout \<Rightarrow> b2\<lparr>tb_timeouts := tb_timeouts b2 + 1\<rparr>
      | _ \<Rightarrow> b2)"

definition window_record :: "u32 \<Rightarrow> RedisCallOutcome \<Rightarrow> u64 \<Rightarrow> RollingWindow \<Rightarrow> RollingWindow" where
  "window_record ts outcome latency_us w =
     (let i = unat ts mod length w in w[i := bucket_record ts outcome latency_us (w ! i)])"

record WindowStats =
  ws_total :: u64
  ws_errors :: u64
  ws_timeouts :: u64
  ws_hist :: "u64 list"

definition stats_zero :: WindowStats where
  "stats_zero = \<lparr>ws_total = 0, ws_errors = 0, ws_timeouts = 0, ws_hist = replicate HIST_BANDS 0\<rparr>"

definition stats_add :: "TimeBucket \<Rightarrow> WindowStats \<Rightarrow> WindowStats" where
  "stats_add b s =
     \<lparr>ws_total = ws_total s + tb_total b, ws_errors = ws_errors s + tb_errors b,
      ws_timeouts = ws_timeouts s + tb_timeouts b, ws_hist = map2 (+) (ws_hist s) (tb_hist b)\<rparr>"

definition aggregate :: "u32 \<Rightarrow> u64 \<Rightarrow> RollingWindow \<Rightarrow> WindowStats" where
  "aggregate now_ts secs w =
     (let cutoff = sat_sub now_ts (ucast secs) in
      fold (\<lambda>b s. if tb_ts b < cutoff \<or> now_ts < tb_ts b then s else stats_add b s) w stats_zero)"

definition ws_error_rate :: "WindowStats \<Rightarrow> f64" where
  "ws_error_rate s = (if ws_total s = 0 then Fin 0 else f_div (f_of_word (ws_errors s)) (f_of_word (ws_total s)))"

definition ws_timeout_rate :: "WindowStats \<Rightarrow> f64" where
  "ws_timeout_rate s = (if ws_total s = 0 then Fin 0 else f_div (f_of_word (ws_timeouts s)) (f_of_word (ws_total s)))"

text \<open>The rank \<open>(total as f64 * pct / 100.0).ceil() as u64\<close>, then the walk over the bands.\<close>

definition percentile_target :: "u64 \<Rightarrow> f64 \<Rightarrow> u64" where
  "percentile_target n pct = f_to_word (f_ceil (f_div (f_mul (f_of_word n) pct) (Fin 100)))"

fun percentile_walk :: "u64 \<Rightarrow> u64 \<Rightarrow> nat \<Rightarrow> u64 list \<Rightarrow> u64" where
  "percentile_walk target cumulative i [] = - 1"
| "percentile_walk target cumulative i (c # cs) =
     (let cumulative' = cumulative + c in
      if target \<le> cumulative'
      then (if i < length HIST_BOUNDS_US then HIST_BOUNDS_US ! i else - 1)
      else percentile_walk target cumulative' (Suc i) cs)"

definition percentile_us :: "f64 \<Rightarrow> WindowStats \<Rightarrow> u64" where
  "percentile_us pct s =
     (if ws_total s = 0 then 0 else percentile_walk (percentile_target (ws_total s) pct) 0 0 (ws_hist s))"

section \<open>One bucket\<close>

text \<open>A recorded call: its second, its outcome and its latency.\<close>

type_synonym call = "u32 \<times> RedisCallOutcome \<times> u64"

abbreviation call_ts :: "call \<Rightarrow> u32" where "call_ts \<equiv> fst"
abbreviation call_outcome :: "call \<Rightarrow> RedisCallOutcome" where "call_outcome e \<equiv> fst (snd e)"
abbreviation call_latency :: "call \<Rightarrow> u64" where "call_latency e \<equiv> snd (snd e)"

definition cnt :: "('a \<Rightarrow> bool) \<Rightarrow> 'a list \<Rightarrow> u64" where
  "cnt P xs = of_nat (length (filter P xs))"

lemma cnt_simps [simp]:
  "cnt P [] = 0" "cnt P (x # xs) = (if P x then 1 else 0) + cnt P xs" "cnt P (xs @ ys) = cnt P xs + cnt P ys"
  by (simp_all add: cnt_def)

lemma hist_band_le: "hist_band l < HIST_BANDS"
proof -
  have "length (takeWhile (\<lambda>bound. bound < l) HIST_BOUNDS_US) \<le> length HIST_BOUNDS_US"
    by (rule length_takeWhile_le)
  then show ?thesis by (simp add: hist_band_def HIST_BOUNDS_US_def)
qed

text \<open>The bucket that holds exactly the given calls of one second.\<close>

definition bucket_of :: "u32 \<Rightarrow> call list \<Rightarrow> TimeBucket" where
  "bucket_of ts L =
     \<lparr>tb_ts = ts, tb_total = cnt (\<lambda>_. True) L,
      tb_errors = cnt (\<lambda>e. call_outcome e = RedisError) L,
      tb_timeouts = cnt (\<lambda>e. call_outcome e = Timeout) L,
      tb_latency_sum = sum_list (map call_latency L),
      tb_hist = map (\<lambda>b. cnt (\<lambda>e. hist_band (call_latency e) = b) L) [0..<HIST_BANDS]\<rparr>"

lemma bucket_of_Nil: "bucket_of ts [] = TimeBucket_default\<lparr>tb_ts := ts\<rparr>"
  by (simp add: bucket_of_def TimeBucket_default_def map_replicate_const del: upt_Suc HIST_BANDS_def)

lemma hist_update:
  "b < HIST_BANDS \<Longrightarrow>
   (map (\<lambda>b. cnt (\<lambda>e. f e = b) L) [0..<HIST_BANDS])
     [b := map (\<lambda>b. cnt (\<lambda>e. f e = b) L) [0..<HIST_BANDS] ! b + 1]
   = map (\<lambda>b'. cnt (\<lambda>e. f e = b') (L @ [x])) [0..<HIST_BANDS]"
  if "f x = b" for f :: "'a \<Rightarrow> nat"
  using that by (intro nth_equalityI) (auto simp del: upt_Suc HIST_BANDS_def simp: nth_list_update)

lemma bucket_record_same:
  "bucket_record ts out lat (bucket_of ts L) = bucket_of ts (L @ [(ts, out, lat)])"
  using hist_update [OF _ hist_band_le, of "\<lambda>e. hist_band (call_latency e)" "(ts, out, lat)" lat L]
  by (cases out) (simp_all add: bucket_record_def Let_def bucket_of_def del: upt_Suc HIST_BANDS_def)

lemma bucket_record_fresh:
  "tb_ts b \<noteq> ts \<Longrightarrow> bucket_record ts out lat b = bucket_of ts [(ts, out, lat)]"
  using bucket_record_same [of ts out lat "[]"]
  by (simp add: bucket_record_def bucket_of_Nil Let_def TimeBucket_default_def)

section \<open>The ring\<close>

definition record_all :: "nat \<Rightarrow> call list \<Rightarrow> RollingWindow" where
  "record_all n evs = fold (\<lambda>e. window_record (call_ts e) (call_outcome e) (call_latency e)) evs (RollingWindow_new n)"

abbreviation slot :: "nat \<Rightarrow> call \<Rightarrow> nat" where "slot n e \<equiv> unat (call_ts e) mod n"

definition in_slot :: "nat \<Rightarrow> nat \<Rightarrow> call list \<Rightarrow> call list" where
  "in_slot n i evs = filter (\<lambda>e. slot n e = i) evs"

definition slot_ts :: "nat \<Rightarrow> nat \<Rightarrow> call list \<Rightarrow> u32" where
  "slot_ts n i evs = (if in_slot n i evs = [] then 0 else call_ts (last (in_slot n i evs)))"

definition slot_calls :: "nat \<Rightarrow> nat \<Rightarrow> call list \<Rightarrow> call list" where
  "slot_calls n i evs = filter (\<lambda>e. call_ts e = slot_ts n i evs) (in_slot n i evs)"

lemma length_window_record [simp]: "length (window_record ts out lat w) = length w"
  by (simp add: window_record_def Let_def)

lemma record_all_snoc:
  "record_all n (evs @ [e]) = window_record (call_ts e) (call_outcome e) (call_latency e) (record_all n evs)"
  by (simp add: record_all_def)

lemma length_record_all [simp]: "length (record_all n evs) = n"
  by (induction evs rule: rev_induct) (simp_all add: record_all_snoc, simp add: record_all_def RollingWindow_new_def)

lemma in_slot_snoc: "in_slot n i (evs @ [e]) = in_slot n i evs @ (if slot n e = i then [e] else [])"
  by (simp add: in_slot_def)

lemma in_slot_le_last:
  assumes "sorted (map call_ts evs)" and "x \<in> set (in_slot n i evs)"
  shows "call_ts x \<le> slot_ts n i evs"
proof -
  let ?L = "in_slot n i evs"
  have L: "?L \<noteq> []" using assms(2) by auto
  have "sorted (map call_ts ?L)" unfolding in_slot_def by (rule sorted_filter [OF assms(1)])
  then have "sorted (map call_ts (butlast ?L @ [last ?L]))" using L by simp
  moreover have "x \<in> set (butlast ?L) \<or> x = last ?L"
    using assms(2) L by (metis append_butlast_last_id in_set_butlastD UnE empty_iff empty_set set_ConsD set_append)
  ultimately show ?thesis using L by (auto simp: slot_ts_def sorted_append simp del: append_butlast_last_id)
qed

lemma ring_contents:
  assumes "sorted (map call_ts evs)" and "i < n"
  shows "record_all n evs ! i = bucket_of (slot_ts n i evs) (slot_calls n i evs)"
  using assms(1)
proof (induction evs rule: rev_induct)
  case Nil
  then show ?case
    using assms(2) bucket_of_Nil [of 0]
    by (simp add: record_all_def RollingWindow_new_def slot_calls_def slot_ts_def in_slot_def TimeBucket_default_def)
next
  case (snoc e evs)
  obtain ts out lat where e: "e = (ts, out, lat)" by (cases e) auto
  have srt: "sorted (map call_ts evs)" and le: "\<forall>x\<in>set evs. call_ts x \<le> ts"
    using snoc.prems by (auto simp: sorted_append e)
  have IH: "record_all n evs ! i = bucket_of (slot_ts n i evs) (slot_calls n i evs)"
    by (rule snoc.IH [OF srt])
  show ?case
  proof (cases "slot n e = i")
    case False
    then have "in_slot n i (evs @ [e]) = in_slot n i evs" by (simp add: in_slot_snoc)
    then have "slot_ts n i (evs @ [e]) = slot_ts n i evs" "slot_calls n i (evs @ [e]) = slot_calls n i evs"
      by (simp_all add: slot_ts_def slot_calls_def)
    with False IH show ?thesis by (simp add: record_all_snoc window_record_def Let_def e)
  next
    case True
    then have ins: "in_slot n i (evs @ [e]) = in_slot n i evs @ [e]" by (simp add: in_slot_snoc)
    then have tse: "slot_ts n i (evs @ [e]) = ts" by (simp add: slot_ts_def e)
    have step: "record_all n (evs @ [e]) ! i = bucket_record ts out lat (record_all n evs ! i)"
      using True assms(2) by (simp add: record_all_snoc window_record_def Let_def e)
    show ?thesis
    proof (cases "slot_ts n i evs = ts")
      case same: True
      have "slot_calls n i (evs @ [e]) = slot_calls n i evs @ [e]"
        by (simp add: slot_calls_def tse ins same) (simp add: e)
      then show ?thesis unfolding step IH tse same by (simp add: bucket_record_same e)
    next
      case diff: False
      have "call_ts x \<noteq> ts" if x: "x \<in> set (in_slot n i evs)" for x
      proof -
        have "in_slot n i evs \<noteq> []" using x by auto
        then have "last (in_slot n i evs) \<in> set evs"
          using last_in_set [of "in_slot n i evs"] by (auto simp: in_slot_def)
        then have "slot_ts n i evs \<le> ts" using x le by (auto simp: slot_ts_def)
        then show ?thesis using in_slot_le_last [OF srt x] diff by auto
      qed
      then have "filter (\<lambda>e. call_ts e = ts) (in_slot n i evs) = []" by (simp add: filter_empty_conv)
      then have "slot_calls n i (evs @ [e]) = [e]"
        unfolding slot_calls_def tse ins by (simp add: e)
      then show ?thesis
        unfolding step IH tse using diff by (simp add: bucket_record_fresh bucket_of_def [of "slot_ts n i evs"] e)
    qed
  qed
qed

section \<open>The statistics of the window\<close>

text \<open>
  The calls that the aggregation counts: those of the last second of their slot, when that
  second is neither before the cutoff nor in the future.
\<close>

definition live :: "nat \<Rightarrow> call list \<Rightarrow> u32 \<Rightarrow> u64 \<Rightarrow> call \<Rightarrow> bool" where
  "live n evs now_ts secs e \<longleftrightarrow>
     call_ts e = slot_ts n (slot n e) evs \<and> sat_sub now_ts (ucast secs) \<le> call_ts e \<and> call_ts e \<le> now_ts"

definition stats_of :: "call list \<Rightarrow> WindowStats" where
  "stats_of L =
     \<lparr>ws_total = cnt (\<lambda>_. True) L, ws_errors = cnt (\<lambda>e. call_outcome e = RedisError) L,
      ws_timeouts = cnt (\<lambda>e. call_outcome e = Timeout) L,
      ws_hist = map (\<lambda>b. cnt (\<lambda>e. hist_band (call_latency e) = b) L) [0..<HIST_BANDS]\<rparr>"

lemma stats_of_Nil: "stats_of [] = stats_zero"
  by (simp add: stats_of_def stats_zero_def map_replicate_const del: upt_Suc HIST_BANDS_def)

lemma stats_add_bucket_of: "stats_add (bucket_of ts L) (stats_of M) = stats_of (M @ L)"
  by (simp add: stats_add_def bucket_of_def stats_of_def map2_map_map del: upt_Suc HIST_BANDS_def)

lemma stats_of_cong:
  assumes "\<And>P. cnt P L = cnt P M"
  shows "stats_of L = stats_of M"
  by (simp add: stats_of_def assms)

lemma stats_fold:
  assumes "sorted (map call_ts evs)" and "0 < n" and "set is \<subseteq> {..<n}"
  shows "fold (\<lambda>b s. if tb_ts b < cutoff \<or> now_ts < tb_ts b then s else stats_add b s)
            (map ((!) (record_all n evs)) is) (stats_of M)
       = stats_of (M @ concat (map (\<lambda>i. if slot_ts n i evs < cutoff \<or> now_ts < slot_ts n i evs then []
                                     else slot_calls n i evs) is))"
  using assms(3)
proof (induction "is" arbitrary: M)
  case (Cons i "is")
  have b: "record_all n evs ! i = bucket_of (slot_ts n i evs) (slot_calls n i evs)"
    using Cons.prems by (intro ring_contents [OF assms(1)]) auto
  have ts: "tb_ts (bucket_of t L) = t" for t L by (simp add: bucket_of_def)
  show ?case
    using Cons.prems by (simp add: b ts Cons.IH stats_add_bucket_of)
qed simp

lemma cnt_concat: "cnt P (concat xss) = sum_list (map (cnt P) xss)"
  by (induction xss) simp_all

lemma sum_list_slots:
  assumes "\<And>e. e \<in> set evs \<Longrightarrow> slot n e < n"
  shows "sum_list (map (\<lambda>i. cnt (\<lambda>e. slot n e = i \<and> Q e) evs) [0..<n]) = cnt Q evs"
  using assms
proof (induction evs)
  case (Cons e evs)
  have one: "sum_list (map (\<lambda>i. if k = i \<and> Q e then 1 else 0) [0..<n]) = (if Q e then 1 else (0 :: u64))"
    if "k < n" for k
    using that by (simp add: interv_sum_list_conv_sum_set_nat sum.delta if_distrib cong: conj_cong)
  show ?case
    using Cons one [of "slot n e"] by (simp add: sum_list_addf)
qed (simp add: map_replicate_const sum_list_replicate)

lemma cnt_slot_calls:
  "cnt P (if slot_ts n i evs < cutoff \<or> now_ts < slot_ts n i evs then [] else slot_calls n i evs)
   = cnt (\<lambda>e. slot n e = i \<and> call_ts e = slot_ts n (slot n e) evs \<and> cutoff \<le> call_ts e
             \<and> call_ts e \<le> now_ts \<and> P e) evs"
proof -
  have "filter P (if slot_ts n i evs < cutoff \<or> now_ts < slot_ts n i evs then [] else slot_calls n i evs)
    = filter (\<lambda>e. slot n e = i \<and> call_ts e = slot_ts n (slot n e) evs \<and> cutoff \<le> call_ts e
             \<and> call_ts e \<le> now_ts \<and> P e) evs"
    unfolding slot_calls_def in_slot_def
    by (auto simp: not_less filter_empty_conv eq_commute [of "[]"] intro!: filter_cong)
  then show ?thesis by (simp add: cnt_def)
qed

lemma aggregate_counts:
  assumes "sorted (map call_ts evs)" and "0 < n"
  shows "aggregate now_ts secs (record_all n evs) = stats_of (filter (live n evs now_ts secs) evs)"
proof -
  let ?c = "sat_sub now_ts (ucast secs) :: u32"
  let ?sel = "\<lambda>i. if slot_ts n i evs < ?c \<or> now_ts < slot_ts n i evs then [] else slot_calls n i evs"
  have "record_all n evs = map ((!) (record_all n evs)) [0..<n]"
    using map_nth [of "record_all n evs"] by simp
  then have "aggregate now_ts secs (record_all n evs) = stats_of (concat (map ?sel [0..<n]))"
    using stats_fold [OF assms, of "[0..<n]" ?c now_ts "[]"]
    by (simp add: aggregate_def Let_def stats_of_Nil lessThan_atLeast0)
  also have "\<dots> = stats_of (filter (live n evs now_ts secs) evs)"
  proof (rule stats_of_cong)
    fix P
    have "cnt P (concat (map ?sel [0..<n])) = sum_list (map (\<lambda>i. cnt P (?sel i)) [0..<n])"
      by (simp add: cnt_concat comp_def)
    also have "\<dots> = cnt (\<lambda>e. call_ts e = slot_ts n (slot n e) evs \<and> ?c \<le> call_ts e
             \<and> call_ts e \<le> now_ts \<and> P e) evs"
      unfolding cnt_slot_calls using assms(2) by (intro sum_list_slots) simp
    also have "\<dots> = cnt P (filter (live n evs now_ts secs) evs)"
      by (auto simp: cnt_def live_def intro!: arg_cong [of _ _ length] filter_cong)
    finally show "cnt P (concat (map ?sel [0..<n])) = cnt P (filter (live n evs now_ts secs) evs)" .
  qed
  finally show ?thesis .
qed

text \<open>A call of the last \<open>n\<close> seconds is never overwritten: two seconds of one slot are \<open>n\<close> apart.\<close>

lemma recent_is_live:
  assumes "sorted (map call_ts evs)" and now: "\<forall>e\<in>set evs. call_ts e \<le> now_ts"
    and secs: "unat secs = n" "n \<le> 64" and e: "e \<in> set evs"
    and rec: "unat now_ts < unat (call_ts e) + n"
  shows "live n evs now_ts secs e"
proof -
  let ?L = "in_slot n (slot n e) evs"
  have eL: "e \<in> set ?L" using e by (simp add: in_slot_def)
  then have L: "?L \<noteq> []" by auto
  then have last: "last ?L \<in> set evs" "slot n (last ?L) = slot n e"
    using last_in_set [OF L] by (auto simp: in_slot_def)
  have le: "call_ts e \<le> call_ts (last ?L)"
    using in_slot_le_last [OF assms(1) eL] L by (simp add: slot_ts_def)
  have "unat (call_ts (last ?L)) \<le> unat now_ts" using now last(1) by (simp add: word_le_nat_alt)
  then have "unat (call_ts e) = unat (call_ts (last ?L))"
    using same_slot_close [of "unat (call_ts e)" n "unat (call_ts (last ?L))"] last(2) le rec
    by (simp add: word_le_nat_alt)
  then have "call_ts e = call_ts (last ?L)" by (rule word_unat_eq_iff [THEN iffD2])
  then have a: "call_ts e = slot_ts n (slot n e) evs" using L by (simp add: slot_ts_def)
  have "unat (ucast secs :: u32) = n" using secs by (simp add: unat_ucast_small)
  then have "sat_sub now_ts (ucast secs) \<le> call_ts e"
    using rec by (simp add: word_le_nat_alt unat_sat_sub)
  with a now e show ?thesis by (simp add: live_def)
qed

text \<open>(C25)
  The rolling window counts the calls of its last seconds. Let calls be recorded in the order
  of their timestamps in a ring of as many buckets as the window has seconds, and let no call
  be later than the clock. Then the aggregated total, error and timeout counters and every band
  of the latency histogram are the numbers of recorded calls that are live, where every call of
  the last \<open>n\<close> seconds is live and no call older than \<open>n\<close> seconds is.
\<close>
theorem rolling_window_counts_recent_calls:
  assumes "sorted (map call_ts evs)" and "\<forall>e\<in>set evs. call_ts e \<le> now_ts"
    and "unat secs = n" and "0 < n" and "n \<le> MAX_WINDOW_BUCKETS"
  shows "ws_total (aggregate now_ts secs (record_all n evs)) = cnt (live n evs now_ts secs) evs
       \<and> ws_errors (aggregate now_ts secs (record_all n evs))
           = cnt (\<lambda>e. live n evs now_ts secs e \<and> call_outcome e = RedisError) evs
       \<and> ws_timeouts (aggregate now_ts secs (record_all n evs))
           = cnt (\<lambda>e. live n evs now_ts secs e \<and> call_outcome e = Timeout) evs
       \<and> (\<forall>b < HIST_BANDS. ws_hist (aggregate now_ts secs (record_all n evs)) ! b
           = cnt (\<lambda>e. live n evs now_ts secs e \<and> hist_band (call_latency e) = b) evs)
       \<and> (\<forall>e \<in> set evs. unat now_ts - unat (call_ts e) < n \<longrightarrow> live n evs now_ts secs e)
       \<and> (\<forall>e \<in> set evs. live n evs now_ts secs e \<longrightarrow> unat now_ts - unat (call_ts e) \<le> n)"
proof (intro conjI ballI impI)
  have agg: "aggregate now_ts secs (record_all n evs) = stats_of (filter (live n evs now_ts secs) evs)"
    by (rule aggregate_counts [OF assms(1,4)])
  show "ws_total (aggregate now_ts secs (record_all n evs)) = cnt (live n evs now_ts secs) evs"
    and "ws_errors (aggregate now_ts secs (record_all n evs))
           = cnt (\<lambda>e. live n evs now_ts secs e \<and> call_outcome e = RedisError) evs"
    and "ws_timeouts (aggregate now_ts secs (record_all n evs))
           = cnt (\<lambda>e. live n evs now_ts secs e \<and> call_outcome e = Timeout) evs"
    and "\<forall>b < HIST_BANDS. ws_hist (aggregate now_ts secs (record_all n evs)) ! b
           = cnt (\<lambda>e. live n evs now_ts secs e \<and> hist_band (call_latency e) = b) evs"
    unfolding agg by (simp_all add: stats_of_def cnt_def del: upt_Suc HIST_BANDS_def)
  fix e assume e: "e \<in> set evs"
  show "live n evs now_ts secs e" if "unat now_ts - unat (call_ts e) < n"
    using that assms e by (intro recent_is_live) (auto simp: word_le_nat_alt)
  have u: "unat (ucast secs :: u32) = n"
    using assms(3,5) by (simp add: unat_ucast_small)
  show "unat now_ts - unat (call_ts e) \<le> n" if "live n evs now_ts secs e"
    using that by (simp add: live_def word_le_nat_alt unat_sat_sub u) linarith
qed

theorem rolling_window_counts_recent_calls_witness:
  "ws_errors (aggregate 102 2 (record_all 2 [(100, RedisError, 7), (101, RedisError, 900), (102, Success, 5)]))
     = cnt (\<lambda>e. live 2 [(100, RedisError, 7), (101, RedisError, 900), (102, Success, 5)] 102 2 e
              \<and> call_outcome e = RedisError)
         [(100, RedisError, 7), (101, RedisError, 900), (102, Success, 5)]"
  using rolling_window_counts_recent_calls
    [of "[(100, RedisError, 7), (101, RedisError, 900), (102, Success, 5)]" 102 2 2]
  by simp

section \<open>Percentiles\<close>

lemma takeWhile_less_le:
  fixes x :: "'a::linorder"
  assumes "sorted xs" and "j < length xs"
  shows "length (takeWhile (\<lambda>b. b < x) xs) \<le> j \<longleftrightarrow> x \<le> xs ! j"
  using assms
proof (induction xs arbitrary: j)
  case (Cons b bs)
  show ?case
  proof (cases j)
    case (Suc k)
    then show ?thesis using Cons.IH [of k] Cons.prems nth_mem [of k bs] by (auto simp del: nth_mem)
  qed auto
qed simp

lemma sorted_bounds: "sorted HIST_BOUNDS_US"
  by (simp add: HIST_BOUNDS_US_def)

definition band_bound :: "nat \<Rightarrow> u64" where
  "band_bound i = (if i < length HIST_BOUNDS_US then HIST_BOUNDS_US ! i else - 1)"

lemma length_bounds [simp]: "length HIST_BOUNDS_US = 17"
  by (simp add: HIST_BOUNDS_US_def)

lemma hist_band_bound: "i < HIST_BANDS \<Longrightarrow> hist_band l \<le> i \<longleftrightarrow> l \<le> band_bound i"
  using takeWhile_less_le [OF sorted_bounds, of i l] hist_band_le [of l]
  by (cases "i < 17") (auto simp: hist_band_def band_bound_def)

lemma unat_cnt:
  assumes "length L < 2 ^ 64"
  shows "unat (cnt P L) = length (filter P L)"
proof -
  have "length (filter P L) < 2 ^ 64" using length_filter_le [of P L] assms by linarith
  then show ?thesis unfolding cnt_def by (intro unat_of_nat_small) simp
qed

lemma length_filter_mono:
  "(\<And>x. x \<in> set xs \<Longrightarrow> P x \<Longrightarrow> Q x) \<Longrightarrow> length (filter P xs) \<le> length (filter Q xs)"
  by (induction xs) auto

lemma cnt_step:
  fixes f :: "'a \<Rightarrow> nat"
  shows "cnt (\<lambda>e. f e < i) L + cnt (\<lambda>e. f e = i) L = cnt (\<lambda>e. f e < Suc i) L"
  by (induction L) (auto simp: less_Suc_eq algebra_simps)

lemma percentile_walk_finds:
  fixes L :: "call list"
  defines "band \<equiv> \<lambda>e. hist_band (call_latency e)"
  assumes "i \<le> HIST_BANDS" and "cnt (\<lambda>e. band e < i) L < t" and "t \<le> cnt (\<lambda>_. True) L"
  shows "\<exists>j \<ge> i. j < HIST_BANDS
    \<and> percentile_walk t (cnt (\<lambda>e. band e < i) L) i
         (map (\<lambda>b. cnt (\<lambda>e. band e = b) L) [i..<HIST_BANDS]) = band_bound j
    \<and> t \<le> cnt (\<lambda>e. band e \<le> j) L \<and> cnt (\<lambda>e. band e < j) L < t"
  using assms(2-)
proof (induction "HIST_BANDS - i" arbitrary: i)
  case 0
  have "band e < i" for e using 0 hist_band_le [of "call_latency e"] by (simp add: band_def)
  with 0 have False by simp
  then show ?case ..
next
  case (Suc k)
  then have i: "i < HIST_BANDS" by simp
  have up: "[i..<HIST_BANDS] = i # [Suc i..<HIST_BANDS]" by (rule upt_conv_Cons [OF i])
  have st: "cnt (\<lambda>e. band e < i) L + cnt (\<lambda>e. band e = i) L = cnt (\<lambda>e. band e < Suc i) L"
    by (rule cnt_step)
  show ?case
  proof (cases "t \<le> cnt (\<lambda>e. band e < Suc i) L")
    case True
    then have "percentile_walk t (cnt (\<lambda>e. band e < i) L) i
         (map (\<lambda>b. cnt (\<lambda>e. band e = b) L) [i..<HIST_BANDS]) = band_bound i"
      unfolding up by (simp add: Let_def st band_bound_def del: HIST_BANDS_def upt_Suc)
    with True i Suc.prems show ?thesis
      by (intro exI [of _ i]) (simp add: less_Suc_eq_le)
  next
    case False
    then have "\<exists>j\<ge>Suc i. j < HIST_BANDS
      \<and> percentile_walk t (cnt (\<lambda>e. band e < Suc i) L) (Suc i)
         (map (\<lambda>b. cnt (\<lambda>e. band e = b) L) [Suc i..<HIST_BANDS]) = band_bound j
      \<and> t \<le> cnt (\<lambda>e. band e \<le> j) L \<and> cnt (\<lambda>e. band e < j) L < t"
      using Suc.hyps(2) i Suc.prems by (intro Suc.hyps(1)) auto
    then obtain j where "Suc i \<le> j" "j < HIST_BANDS"
      "percentile_walk t (cnt (\<lambda>e. band e < Suc i) L) (Suc i)
         (map (\<lambda>b. cnt (\<lambda>e. band e = b) L) [Suc i..<HIST_BANDS]) = band_bound j"
      "t \<le> cnt (\<lambda>e. band e \<le> j) L" "cnt (\<lambda>e. band e < j) L < t" by blast
    moreover have "\<not> t \<le> cnt (\<lambda>e. band e < i) L + cnt (\<lambda>e. band e = i) L" using False st by simp
    ultimately show ?thesis
      unfolding up by (intro exI [of _ j]) (simp add: Let_def st del: HIST_BANDS_def upt_Suc not_le)
  qed
qed

text \<open>The rank computed in floating point is the exact rounded-up rank.\<close>

lemma percentile_target_exact:
  assumes n: "1 \<le> n" "n \<le> 2 ^ 40" and p: "1 \<le> p" "p \<le> 100"
  shows "unat (percentile_target (of_nat n) (Fin (of_nat p))) = (p * n + 99) div 100"
proof -
  define k where "k = (p * n + 99) div 100"
  let ?x = "of_nat (p * n) / 100 :: rat"
  have pn: "1 \<le> p * n" "p * n \<le> 100 * n" using n p by simp_all
  have k: "1 \<le> k" "k \<le> n" "p * n \<le> 100 * k" "100 * (k - 1) + 1 \<le> p * n"
    unfolding k_def using pn by linarith+
  have kb: "int k \<le> 2 ^ 40" using k(2) n(2) by simp
  have n53: "n \<le> 2 ^ 53" using n(2) by simp_all
  have "100 * n \<le> 2 ^ 53" using n(2) by simp
  with pn(2) have pn53: "p * n \<le> 2 ^ 53" by (rule order_trans)
  have un: "unat (of_nat n :: u64) = n" using n(2) by (simp add: unat_of_nat)
  have fn: "f_of_word (of_nat n :: u64) = Fin (of_nat n)"
    unfolding f_of_word_def un by (rule f_of_nat_exact [OF n53])
  have m: "f_mul (Fin (of_nat n)) (Fin (of_nat p)) = Fin (of_nat (p * n))"
    using f_of_nat_exact [OF pn53] by (simp add: f_of_nat_def mult.commute)
  have hi: "fl ?x \<le> of_nat k"
  proof (rule f64r.le_nat)
    have "(of_nat (p * n) :: rat) \<le> of_nat (100 * k)" using k(3) by (simp only: of_nat_le_iff)
    then show "?x \<le> of_nat k" by simp
    show "int k \<le> 2 ^ 53" using kb by simp
  qed
  have "(of_int (128 * (int k - 1) + 1) :: rat) * 2 powi (- 7) \<le> fl ?x"
  proof -
    have "(of_nat (100 * (k - 1) + 1) :: rat) \<le> of_nat (p * n)" using k(4) by (simp only: of_nat_le_iff)
    then have "(of_int (128 * (int k - 1) + 1) :: rat) * 2 powi (- 7) \<le> ?x"
      using k(1) by (simp add: power_int_def of_nat_diff field_simps)
    then have "fl (of_int (128 * (int k - 1) + 1) * 2 powi (- 7)) \<le> fl ?x" by (rule fl_mono)
    moreover have "0 < 128 * (int k - 1) + 1" "128 * (int k - 1) + 1 \<le> 2 ^ 53" using k(1) kb by simp_all
    ultimately show ?thesis using fl_exact_pos [of "128 * (int k - 1) + 1" "- 7"] by simp
  qed
  then have lo: "of_int (int k - 1) < fl ?x" by (simp add: power_int_def field_simps)
  have ceil: "\<lceil>fl ?x\<rceil> = int k" using hi lo by (intro ceiling_unique) simp_all
  have "(0 :: rat) \<le> ?x" "?x \<le> of_nat k"
    using k(3) of_nat_le_iff [of "p * n" "100 * k", where ?'a = rat] by (simp_all add: field_simps)
  moreover have "(of_nat k :: rat) \<le> of_nat (2 ^ 40)" using k(2) n(2) by (simp only: of_nat_le_iff)
  ultimately have small: "\<bar>?x\<bar> \<le> 2 ^ 100" by (simp add: abs_le_iff)
  have "percentile_target (of_nat n) (Fin (of_nat p)) = f_to_word (Fin (of_int (int k)))"
    unfolding percentile_target_def fn m f_div.simps f64_of_small [OF small] 
    by (simp only: zero_neq_numeral [symmetric] if_False f_ceil.simps ceil)
  also have "\<dots> = (of_nat k :: u64)"
  proof -
    have "k < 2 ^ 64" using k(2) n(2) by simp
    then have "(of_nat k :: rat) < of_nat (2 ^ 64)" by (simp only: of_nat_less_iff)
    then show ?thesis using k(1) by simp
  qed
  finally show ?thesis using k(2) n(2) by (simp add: unat_of_nat k_def)
qed

text \<open>The percentile query returns a quantile of the recorded latencies. For the calls that are
  live in the window (at least one, at most \<open>2^40\<close>) and a whole percentage \<open>p\<close>, the result is
  the bound of the first histogram band that covers the rank \<open>\<lceil>p n / 100\<rceil>\<close>: at least that many
  calls took no longer than the result, and fewer took no longer than any smaller band bound.
\<close>
lemma percentile_is_quantile:
  assumes "sorted (map call_ts evs)" and "0 < n"
    and "calls = filter (live n evs now_ts secs) evs" and "calls \<noteq> []" and "length calls \<le> 2 ^ 40"
    and "1 \<le> p" and "p \<le> 100" and "rank = (p * length calls + 99) div 100"
  shows "\<exists>j < HIST_BANDS.
      percentile_us (Fin (of_nat p)) (aggregate now_ts secs (record_all n evs)) = band_bound j
    \<and> rank \<le> length (filter (\<lambda>e. call_latency e \<le> band_bound j) calls)
    \<and> (\<forall>k < j. length (filter (\<lambda>e. call_latency e \<le> band_bound k) calls) < rank)"
proof -
  let ?t = "percentile_target (of_nat (length calls)) (Fin (of_nat p))"
  have len: "1 \<le> length calls" "length calls < 2 ^ 64" using assms(4,5) by (simp_all add: Suc_leI)
  have t: "unat ?t = rank" using percentile_target_exact [OF len(1) assms(5-7)] assms(8) by simp
  have tot: "ws_total (stats_of calls) = of_nat (length calls)" by (simp add: stats_of_def cnt_def)
  then have nz: "ws_total (stats_of calls) \<noteq> 0"
    using len unat_of_nat_small [of "length calls", where ?'a = 64] by auto
  have rk: "1 \<le> rank" "rank \<le> length calls"
    using mult_le_mono1 [OF assms(7), of "length calls"] mult_le_mono [OF assms(6) len(1)] assms(8) by linarith+
  have cu: "unat (cnt P calls) = length (filter P calls)" for P by (rule unat_cnt [OF len(2)])
  have "\<exists>j\<ge>0. j < HIST_BANDS
    \<and> percentile_walk ?t (cnt (\<lambda>e. hist_band (call_latency e) < 0) calls) 0
         (map (\<lambda>b. cnt (\<lambda>e. hist_band (call_latency e) = b) calls) [0..<HIST_BANDS]) = band_bound j
    \<and> ?t \<le> cnt (\<lambda>e. hist_band (call_latency e) \<le> j) calls
    \<and> cnt (\<lambda>e. hist_band (call_latency e) < j) calls < ?t"
    by (rule percentile_walk_finds) (use rk in \<open>simp_all add: word_less_nat_alt word_le_nat_alt t cu\<close>)
  then obtain j where j: "j < HIST_BANDS"
    and w: "percentile_walk ?t 0 0 (ws_hist (stats_of calls)) = band_bound j"
    and ge: "rank \<le> length (filter (\<lambda>e. hist_band (call_latency e) \<le> j) calls)"
    and lt: "length (filter (\<lambda>e. hist_band (call_latency e) < j) calls) < rank"
    by (auto simp: stats_of_def word_less_nat_alt word_le_nat_alt t cu cnt_def [of "\<lambda>_. False"]
        simp del: upt_Suc HIST_BANDS_def)
  have "percentile_us (Fin (of_nat p)) (aggregate now_ts secs (record_all n evs)) = band_bound j"
    unfolding aggregate_counts [OF assms(1,2)] assms(3) [symmetric]
    using nz w tot by (simp add: percentile_us_def)
  moreover have "rank \<le> length (filter (\<lambda>e. call_latency e \<le> band_bound j) calls)"
    using ge j by (simp add: hist_band_bound)
  moreover have "length (filter (\<lambda>e. call_latency e \<le> band_bound k) calls) < rank" if "k < j" for k
  proof -
    have "length (filter (\<lambda>e. call_latency e \<le> band_bound k) calls)
        \<le> length (filter (\<lambda>e. hist_band (call_latency e) < j) calls)"
      using that j by (intro length_filter_mono) (simp add: hist_band_bound [symmetric])
    with lt show ?thesis by linarith
  qed
  ultimately show ?thesis using j by blast
qed

lemma percentile_is_quantile_witness:
  "\<exists>j < HIST_BANDS.
      percentile_us (Fin (of_nat 50))
        (aggregate 102 2 (record_all 2 [(101, Success, 700), (102, Success, 900), (102, Success, 90000)]))
      = band_bound j"
proof -
  let ?evs = "[(101, Success, 700), (102, Success, 900), (102, Success, 90000)] :: call list"
  have "filter (live 2 ?evs 102 2) ?evs = ?evs"
    by (simp add: live_def slot_ts_def in_slot_def sat_sub_def)
  then have "\<exists>j < HIST_BANDS.
      percentile_us (Fin (of_nat 50)) (aggregate 102 2 (record_all 2 ?evs)) = band_bound j
    \<and> 2 \<le> length (filter (\<lambda>e. call_latency e \<le> band_bound j) ?evs)
    \<and> (\<forall>k < j. length (filter (\<lambda>e. call_latency e \<le> band_bound k) ?evs) < 2)"
    by (intro percentile_is_quantile) simp_all
  then show ?thesis by blast
qed

end
