(* ===== verification/Redis_CB.thy ===== *)
theory Redis_CB
  imports Breaker_Spec Redis_Window Std_Parse
begin

text \<open>
  The Redis circuit breaker, \<open>rust-ext/src/redis_cb.rs\<close>: its configuration, the two detectors
  (consecutive failures, rolling statistics of theory \<open>Redis_Window\<close>), and the breaker with its
  concurrency limit, its probe budget and its half-open deadline.

  The clock is a function of the number of the read within an operation (\<open>ms\<close> for
  \<open>now_ms()\<close>, \<open>sec\<close> for \<open>RollingWindow::current_ts()\<close>), so that two reads of one operation may
  differ. The process id that seeds the jitter is a parameter. The mutexes of the buckets make
  \<open>record\<close> and each step of \<open>aggregate\<close> atomic, so the window is a plain list of buckets.
  \<open>inflight\<close> (an \<open>AtomicI64\<close>) is an \<open>int\<close>. Messages written to the error stream are left out.
\<close>

section \<open>Configuration\<close>

record CbConfig =
  window_secs :: u64
  min_samples :: u64
  consecutive_fail_open :: u32
  consecutive_to_open :: u32
  error_rate_open :: f64
  timeout_rate_open :: f64
  p99_us_open :: u64
  p99_us_recovery :: f64
  error_rate_recovery :: f64
  open_cooldown_ms :: u64
  cooldown_jitter_ms :: u64
  half_open_probes :: u32
  recovery_successes :: u32
  max_inflight :: int
  half_open_max_ms :: u64

text \<open>The two comparisons of the recovery thresholds only print warnings.\<close>

definition normalize :: "CbConfig \<Rightarrow> CbConfig" where
  "normalize c =
     (if half_open_probes c < recovery_successes c
      then c\<lparr>recovery_successes := half_open_probes c\<rparr> else c)"

definition from_env :: "env \<Rightarrow> CbConfig" where
  "from_env env =
     (let u64v = env_parse parse_uint env; u32v = env_parse parse_uint env; f64v = env_parse parse_f64 env in
      normalize
        \<lparr>window_secs = clamp 1 60 (u64v ''REDIS_CB_WINDOW_SECS'' 10),
         min_samples = clamp 5 1000 (u64v ''REDIS_CB_MIN_SAMPLES'' 20),
         consecutive_fail_open = clamp 1 100 (u32v ''REDIS_CB_CONSECUTIVE_FAIL_OPEN'' 5),
         consecutive_to_open = clamp 1 100 (u32v ''REDIS_CB_CONSECUTIVE_TIMEOUT_OPEN'' 3),
         error_rate_open = f_clamp (Fin 0) (Fin 1) (f64v ''REDIS_CB_ERROR_RATE_OPEN'' (lit (1 / 2))),
         timeout_rate_open = f_clamp (Fin 0) (Fin 1) (f64v ''REDIS_CB_TIMEOUT_RATE_OPEN'' (lit (4 / 10))),
         p99_us_open = clamp 1000 60000000 (u64v ''REDIS_CB_P99_US_OPEN'' 200000),
         p99_us_recovery =
           f_clamp (Fin 1000) (Fin 60000000) (f64v ''REDIS_CB_P99_US_RECOVERY'' (Fin 30000)),
         error_rate_recovery = f_clamp (Fin 0) (Fin 1) (f64v ''REDIS_CB_ERROR_RATE_RECOVERY'' (lit (1 / 10))),
         open_cooldown_ms = clamp 100 300000 (u64v ''REDIS_CB_OPEN_COOLDOWN_MS'' 5000),
         cooldown_jitter_ms = clamp 0 60000 (u64v ''REDIS_CB_COOLDOWN_JITTER_MS'' 2000),
         half_open_probes = clamp 1 20 (u32v ''REDIS_CB_HALF_OPEN_PROBES'' 3),
         recovery_successes = clamp 1 20 (u32v ''REDIS_CB_RECOVERY_SUCCESSES'' 3),
         max_inflight = clamp 1 10000 (sint (u64v ''REDIS_CB_MAX_INFLIGHT'' 32)),
         half_open_max_ms = clamp 1000 600000 (u64v ''REDIS_CB_HALF_OPEN_MAX_MS'' 10000)\<rparr>)"

section \<open>The breaker\<close>

definition RCB_CLOSED :: u32 where [simp]: "RCB_CLOSED = 0"
definition RCB_OPEN :: u32 where [simp]: "RCB_OPEN = 1"
definition RCB_HALF_OPEN :: u32 where [simp]: "RCB_HALF_OPEN = 2"

record CircuitBreaker =
  config :: CbConfig
  state :: u32
  opened_at_ms :: u64
  cooldown_ms :: u64
  consecutive_fail :: u32
  consecutive_timeout :: u32
  probes_dispatched :: u32
  half_open_successes :: u32
  half_open_started_at_ms :: u64
  window :: RollingWindow
  inflight :: int
  redis_requests_total :: u64
  redis_success_total :: u64
  redis_errors_total :: u64
  redis_timeouts_total :: u64
  circuit_open_total :: u64
  circuit_half_open_total :: u64
  circuit_rejected_total :: u64

definition CircuitBreaker_new :: "CbConfig \<Rightarrow> CircuitBreaker" where
  "CircuitBreaker_new cfg =
     (let c = normalize cfg; n = unat (clamp 1 (of_nat MAX_WINDOW_BUCKETS) (window_secs c)) in
      \<lparr>config = c, state = RCB_CLOSED, opened_at_ms = 0, cooldown_ms = 0,
       consecutive_fail = 0, consecutive_timeout = 0, probes_dispatched = 0,
       half_open_successes = 0, half_open_started_at_ms = 0,
       window = RollingWindow_new n, inflight = 0,
       redis_requests_total = 0, redis_success_total = 0, redis_errors_total = 0,
       redis_timeouts_total = 0, circuit_open_total = 0, circuit_half_open_total = 0,
       circuit_rejected_total = 0\<rparr>)"

definition rcb_reject :: "CircuitBreaker \<Rightarrow> CircuitBreaker" where
  "rcb_reject cb = cb\<lparr>circuit_rejected_total := circuit_rejected_total cb + 1\<rparr>"

text \<open>Cooldown of one open cycle: a base and a jitter seeded by the process id and the clock.\<close>

definition jittered_cooldown :: "u32 \<Rightarrow> u64 \<Rightarrow> CbConfig \<Rightarrow> u64" where
  "jittered_cooldown pid now cfg =
     (if 0 < cooldown_jitter_ms cfg then
        (let seed = ucast pid * 6364136223846793005 + now in
         open_cooldown_ms cfg + drop_bit 33 seed mod cooldown_jitter_ms cfg)
      else open_cooldown_ms cfg)"

definition rcb_arm_open :: "u64 \<Rightarrow> u64 \<Rightarrow> CircuitBreaker \<Rightarrow> CircuitBreaker" where
  "rcb_arm_open opened cooldown cb =
     cb\<lparr>opened_at_ms := opened, cooldown_ms := cooldown, circuit_open_total := circuit_open_total cb + 1\<rparr>"

text \<open>
  \<open>acquire_half_open\<close>. Clock reads: 1 is its own \<open>now_ms()\<close>, 2 the one of the jitter. The
  interference 2 acts before the exchange that re-arms the open state.
\<close>

definition acquire_half_open ::
    "CircuitBreaker interference \<Rightarrow> u32 \<Rightarrow> (nat \<Rightarrow> u64) \<Rightarrow> CircuitBreaker
     \<Rightarrow> (RedisCallOutcome + unit) \<times> CircuitBreaker" where
  "acquire_half_open intf pid ms cb =
     (let cfg = config cb; now = ms 1 in
      if half_open_max_ms cfg \<le> sat_sub now (half_open_started_at_ms cb) then
        (let cb1 = intf 2 cb;
             cb2 = (if state cb1 = RCB_HALF_OPEN
                    then rcb_arm_open now (jittered_cooldown pid (ms 2) cfg) (cb1\<lparr>state := RCB_OPEN\<rparr>)
                    else cb1) in
         (Inl CircuitOpen, rcb_reject cb2))
      else
        (let dispatched = probes_dispatched cb;
             cb1 = cb\<lparr>probes_dispatched := dispatched + 1\<rparr> in
         if half_open_probes cfg \<le> dispatched then
           (Inl CircuitOpen, rcb_reject (cb1\<lparr>probes_dispatched := probes_dispatched cb1 - 1\<rparr>))
         else
           (let fl = inflight cb1; cb2 = cb1\<lparr>inflight := fl + 1\<rparr> in
            if int (unat (half_open_probes cfg)) \<le> fl then
              (Inl ConcurrencyRejected,
               rcb_reject (cb2\<lparr>inflight := inflight cb2 - 1,
                              probes_dispatched := probes_dispatched cb2 - 1\<rparr>))
            else (Inr (), cb2))))"

text \<open>
  \<open>acquire\<close>. Clock read 0 is the one of the open branch; the interference 0 acts before the
  exchange to half-open, 1 before the state is read again after a lost exchange.
\<close>

definition rcb_acquire_env ::
    "CircuitBreaker interference \<Rightarrow> u32 \<Rightarrow> (nat \<Rightarrow> u64) \<Rightarrow> CircuitBreaker
     \<Rightarrow> (RedisCallOutcome + unit) \<times> CircuitBreaker" where
  "rcb_acquire_env intf pid ms cb =
     (let cfg = config cb in
      if state cb = RCB_CLOSED then
        (let fl = inflight cb; cb1 = cb\<lparr>inflight := fl + 1\<rparr> in
         if max_inflight cfg \<le> fl
         then (Inl ConcurrencyRejected, rcb_reject (cb1\<lparr>inflight := inflight cb1 - 1\<rparr>))
         else (Inr (), cb1))
      else if state cb = RCB_OPEN then
        (let now = ms 0 in
         if cooldown_ms cb \<le> sat_sub now (opened_at_ms cb) then
           (let cb1 = intf 0 cb in
            if state cb1 = RCB_OPEN then
              acquire_half_open intf pid ms
                (cb1\<lparr>state := RCB_HALF_OPEN, probes_dispatched := 0, half_open_successes := 0,
                     half_open_started_at_ms := now,
                     circuit_half_open_total := circuit_half_open_total cb1 + 1\<rparr>)
            else
              (let cb2 = intf 1 cb1 in
               if state cb2 = RCB_OPEN then (Inl CircuitOpen, rcb_reject cb2)
               else acquire_half_open intf pid ms cb2))
         else (Inl CircuitOpen, rcb_reject cb))
      else if state cb = RCB_HALF_OPEN then acquire_half_open intf pid ms cb
      else (Inl CircuitOpen, cb))"

definition rcb_acquire ::
    "u32 \<Rightarrow> (nat \<Rightarrow> u64) \<Rightarrow> CircuitBreaker \<Rightarrow> (RedisCallOutcome + unit) \<times> CircuitBreaker" where
  "rcb_acquire = rcb_acquire_env quiet"

text \<open>The exchange loop of \<open>trip_open\<close>: whether this caller moved the state, and the state.\<close>

fun trip_loop :: "u32 cas_event list \<Rightarrow> u32 \<Rightarrow> u32 \<Rightarrow> bool \<times> u32" where
  "trip_loop [] expected st =
     (if expected = RCB_OPEN then (False, st)
      else if st = expected then (True, RCB_OPEN)
      else if st = RCB_OPEN then (False, st) else (True, RCB_OPEN))"
| "trip_loop (e # es) expected st =
     (if expected = RCB_OPEN then (False, st)
      else let st' = cas_seen e st in
        if e \<noteq> Spurious \<and> st' = expected then (True, RCB_OPEN) else trip_loop es st' st')"

definition trip_open :: "u32 cas_event list \<Rightarrow> u32 \<Rightarrow> (nat \<Rightarrow> u64) \<Rightarrow> CircuitBreaker \<Rightarrow> CircuitBreaker" where
  "trip_open es pid ms cb =
     (let (won, st) = trip_loop es (state cb) (state cb); cb1 = cb\<lparr>state := st\<rparr> in
      if won then rcb_arm_open (ms 1) (jittered_cooldown pid (ms 0) (config cb1)) cb1 else cb1)"

definition check_statistical_open ::
    "u32 \<Rightarrow> (nat \<Rightarrow> u64) \<Rightarrow> u32 \<Rightarrow> CircuitBreaker \<Rightarrow> CircuitBreaker" where
  "check_statistical_open pid ms now_ts cb =
     (let cfg = config cb; stats = aggregate now_ts (window_secs cfg) (window cb) in
      if ws_total stats < min_samples cfg then cb
      else
        let err_rate = ws_error_rate stats; to_rate = ws_timeout_rate stats;
            p99 = percentile_us (Fin 99) stats in
        if f_le (error_rate_open cfg) err_rate \<or> f_le (timeout_rate_open cfg) to_rate
           \<or> p99_us_open cfg \<le> p99
        then trip_open [] pid ms cb else cb)"

text \<open>\<open>release\<close>: second-clock read 0 is the one of \<open>record\<close>, 1 the one of \<open>aggregate\<close>.\<close>

definition rcb_release ::
    "u32 \<Rightarrow> (nat \<Rightarrow> u64) \<Rightarrow> (nat \<Rightarrow> u32) \<Rightarrow> RedisCallOutcome \<Rightarrow> u64 \<Rightarrow> CircuitBreaker \<Rightarrow> CircuitBreaker" where
  "rcb_release pid ms sec outcome latency_us cb0 =
     (let cb = cb0\<lparr>inflight := inflight cb0 - 1,
                   window := window_record (sec 0) outcome latency_us (window cb0),
                   redis_requests_total := redis_requests_total cb0 + 1\<rparr>;
          cfg = config cb; st = state cb in
      case outcome of
        Success \<Rightarrow>
          (let cb1 = cb\<lparr>redis_success_total := redis_success_total cb + 1,
                        consecutive_fail := 0, consecutive_timeout := 0\<rparr> in
           if st = RCB_HALF_OPEN then
             (let successes = half_open_successes cb1 + 1;
                  cb2 = cb1\<lparr>half_open_successes := successes\<rparr>;
                  stats = aggregate (sec 1) (window_secs cfg) (window cb2);
                  p99 = f_of_word (percentile_us (Fin 99) stats) in
              if recovery_successes cfg \<le> successes \<and> f_le p99 (p99_us_recovery cfg)
                 \<and> f_le (ws_error_rate stats) (error_rate_recovery cfg) \<and> state cb2 = RCB_HALF_OPEN
              then cb2\<lparr>state := RCB_CLOSED\<rparr> else cb2)
           else check_statistical_open pid ms (sec 1) cb1)
      | Timeout \<Rightarrow>
          (let cf = consecutive_fail cb + 1; ct = consecutive_timeout cb + 1;
               cb1 = cb\<lparr>redis_timeouts_total := redis_timeouts_total cb + 1,
                        consecutive_fail := cf, consecutive_timeout := ct\<rparr> in
           if st = RCB_HALF_OPEN then trip_open [] pid ms cb1
           else if consecutive_to_open cfg \<le> ct \<or> consecutive_fail_open cfg \<le> cf
           then trip_open [] pid ms cb1
           else check_statistical_open pid ms (sec 1) cb1)
      | RedisError \<Rightarrow>
          (let cf = consecutive_fail cb + 1;
               cb1 = cb\<lparr>redis_errors_total := redis_errors_total cb + 1, consecutive_fail := cf\<rparr> in
           if st = RCB_HALF_OPEN then trip_open [] pid ms cb1
           else if consecutive_fail_open cfg \<le> cf then trip_open [] pid ms cb1
           else check_statistical_open pid ms (sec 1) cb1)
      | _ \<Rightarrow> cb)"

section \<open>Queries\<close>

definition is_closed :: "CircuitBreaker \<Rightarrow> bool" where
  "is_closed cb = (state cb = RCB_CLOSED)"

definition inflight_count :: "CircuitBreaker \<Rightarrow> int" where
  "inflight_count cb = inflight cb"

definition p99_us :: "u32 \<Rightarrow> CircuitBreaker \<Rightarrow> u64" where
  "p99_us now_ts cb = percentile_us (Fin 99) (aggregate now_ts (window_secs (config cb)) (window cb))"

definition p50_us :: "u32 \<Rightarrow> CircuitBreaker \<Rightarrow> u64" where
  "p50_us now_ts cb = percentile_us (Fin 50) (aggregate now_ts (window_secs (config cb)) (window cb))"

definition p95_us :: "u32 \<Rightarrow> CircuitBreaker \<Rightarrow> u64" where
  "p95_us now_ts cb = percentile_us (Fin 95) (aggregate now_ts (window_secs (config cb)) (window cb))"

definition rcb_error_rate :: "u32 \<Rightarrow> CircuitBreaker \<Rightarrow> f64" where
  "rcb_error_rate now_ts cb = ws_error_rate (aggregate now_ts (window_secs (config cb)) (window cb))"

section \<open>Protected calls\<close>

text \<open>
  \<open>with_circuit_breaker_on\<close>. The protected closure changes a world \<open>'w\<close> (the connection, the
  server) and reports its result and its duration; \<open>during\<close> is what other threads do to the
  breaker while it runs. A rejected call leaves the world as it was.
\<close>

definition outcome_of :: "(RedisCallOutcome + 'a) \<Rightarrow> RedisCallOutcome" where
  "outcome_of r = (case r of
       Inr _ \<Rightarrow> Success
     | Inl Timeout \<Rightarrow> Timeout
     | Inl RedisError \<Rightarrow> RedisError
     | Inl CircuitOpen \<Rightarrow> CircuitOpen
     | Inl ConcurrencyRejected \<Rightarrow> ConcurrencyRejected
     | Inl _ \<Rightarrow> RedisError)"

definition with_circuit_breaker_on ::
    "u32 \<Rightarrow> (nat \<Rightarrow> u64) \<Rightarrow> (nat \<Rightarrow> u64) \<Rightarrow> (nat \<Rightarrow> u32) \<Rightarrow> (CircuitBreaker \<Rightarrow> CircuitBreaker)
     \<Rightarrow> ('w \<Rightarrow> (RedisCallOutcome + 'a) \<times> u64 \<times> 'w) \<Rightarrow> CircuitBreaker \<times> 'w
     \<Rightarrow> (RedisCallOutcome + 'a) \<times> CircuitBreaker \<times> 'w" where
  "with_circuit_breaker_on pid ms ms' sec during f s =
     (case s of (cb, world) \<Rightarrow>
        (case rcb_acquire pid ms cb of
           (Inl e, cb1) \<Rightarrow> (Inl e, cb1, world)
         | (Inr _, cb1) \<Rightarrow>
             (case f world of (result, latency_us, world') \<Rightarrow>
                (result, rcb_release pid ms' sec (outcome_of result) latency_us (during cb1), world'))))"

text \<open>
  The errors of the \<open>redis\<close> crate, as far as \<open>classify_redis_error\<close> looks at them: the kind and
  the text of the error.
\<close>

datatype RedisErrorKind = IoError | ResponseError | TypeError | ExecAbortError | BusyLoadingError | OtherKind

definition classify_redis_error :: "RedisErrorKind \<Rightarrow> string \<Rightarrow> RedisCallOutcome" where
  "classify_redis_error kind msg =
     (case kind of
        IoError \<Rightarrow>
          if contains_str msg ''timed out'' \<or> contains_str msg ''WouldBlock'' then Timeout
          else RedisError
      | _ \<Rightarrow> RedisError)"

section \<open>The breaker as a state machine\<close>

datatype rcb_event =
    RAcquire "nat \<Rightarrow> u64"
  | RRelease "nat \<Rightarrow> u64" "nat \<Rightarrow> u32" RedisCallOutcome u64

fun rcb_step :: "u32 \<Rightarrow> CircuitBreaker \<Rightarrow> rcb_event \<Rightarrow> CircuitBreaker" where
  "rcb_step pid cb (RAcquire ms) = snd (rcb_acquire pid ms cb)"
| "rcb_step pid cb (RRelease ms sec outcome latency_us) = rcb_release pid ms sec outcome latency_us cb"

definition rcb_mode :: "CircuitBreaker \<Rightarrow> breaker_mode" where
  "rcb_mode cb = (if state cb = RCB_OPEN then Open
                  else if state cb = RCB_HALF_OPEN then HalfOpen else Closed)"

definition rcb_state_ok :: "CircuitBreaker \<Rightarrow> bool" where
  "rcb_state_ok cb \<longleftrightarrow> state cb \<in> {RCB_CLOSED, RCB_OPEN, RCB_HALF_OPEN}"

definition rcb_cooldown_over :: "(nat \<Rightarrow> u64) \<Rightarrow> CircuitBreaker \<Rightarrow> bool" where
  "rcb_cooldown_over ms cb \<longleftrightarrow> cooldown_ms cb \<le> sat_sub (ms 0) (opened_at_ms cb)"

fun rcb_cooled :: "CircuitBreaker \<Rightarrow> rcb_event \<Rightarrow> bool" where
  "rcb_cooled cb (RAcquire ms) = rcb_cooldown_over ms cb"
| "rcb_cooled cb _ = False"

fun rcb_success :: "rcb_event \<Rightarrow> bool" where
  "rcb_success (RRelease _ _ outcome _) = (outcome = Success)"
| "rcb_success _ = False"

lemma rcb_reject_simps [simp]:
  "state (rcb_reject cb) = state cb" "inflight (rcb_reject cb) = inflight cb"
  "config (rcb_reject cb) = config cb" "window (rcb_reject cb) = window cb"
  "probes_dispatched (rcb_reject cb) = probes_dispatched cb"
  "opened_at_ms (rcb_reject cb) = opened_at_ms cb" "cooldown_ms (rcb_reject cb) = cooldown_ms cb"
  "consecutive_fail (rcb_reject cb) = consecutive_fail cb"
  "half_open_successes (rcb_reject cb) = half_open_successes cb"
  "half_open_started_at_ms (rcb_reject cb) = half_open_started_at_ms cb"
  "redis_requests_total (rcb_reject cb) = redis_requests_total cb"
  by (simp_all add: rcb_reject_def)

lemma rcb_state_ok_reject [simp]: "rcb_state_ok (rcb_reject cb) = rcb_state_ok cb"
  by (simp add: rcb_state_ok_def)

lemma rcb_arm_open_simps [simp]:
  "state (rcb_arm_open t c cb) = state cb" "inflight (rcb_arm_open t c cb) = inflight cb"
  "config (rcb_arm_open t c cb) = config cb" "window (rcb_arm_open t c cb) = window cb"
  "opened_at_ms (rcb_arm_open t c cb) = t" "cooldown_ms (rcb_arm_open t c cb) = c"
  "redis_requests_total (rcb_arm_open t c cb) = redis_requests_total cb"
  by (simp_all add: rcb_arm_open_def)

text \<open>The half-open branch without interference, its four outcomes.\<close>

definition half_open_expired :: "u64 \<Rightarrow> CircuitBreaker \<Rightarrow> bool" where
  "half_open_expired now cb \<longleftrightarrow>
     half_open_max_ms (config cb) \<le> sat_sub now (half_open_started_at_ms cb)"

lemma acquire_half_open_quiet:
  "state cb = RCB_HALF_OPEN \<Longrightarrow> acquire_half_open quiet pid ms cb =
     (if half_open_expired (ms 1) cb then
        (Inl CircuitOpen, rcb_reject (rcb_arm_open (ms 1) (jittered_cooldown pid (ms 2) (config cb))
                                        (cb\<lparr>state := RCB_OPEN\<rparr>)))
      else if half_open_probes (config cb) \<le> probes_dispatched cb then
        (Inl CircuitOpen, rcb_reject cb)
      else if int (unat (half_open_probes (config cb))) \<le> inflight cb then
        (Inl ConcurrencyRejected, rcb_reject cb)
      else (Inr (), cb\<lparr>probes_dispatched := probes_dispatched cb + 1, inflight := inflight cb + 1\<rparr>))"
  by (simp add: acquire_half_open_def Let_def half_open_expired_def)

lemma acquire_half_open_mode:
  "state cb = RCB_HALF_OPEN \<Longrightarrow>
     state (snd (acquire_half_open quiet pid ms cb)) = RCB_HALF_OPEN
   \<or> state (snd (acquire_half_open quiet pid ms cb)) = RCB_OPEN"
  by (simp add: acquire_half_open_quiet)

definition rcb_enter_half_open :: "u64 \<Rightarrow> CircuitBreaker \<Rightarrow> CircuitBreaker" where
  "rcb_enter_half_open now cb =
     cb\<lparr>state := RCB_HALF_OPEN, probes_dispatched := 0, half_open_successes := 0,
        half_open_started_at_ms := now,
        circuit_half_open_total := circuit_half_open_total cb + 1\<rparr>"

lemma rcb_acquire_closed:
  "state cb = RCB_CLOSED \<Longrightarrow> rcb_acquire pid ms cb =
     (if max_inflight (config cb) \<le> inflight cb then (Inl ConcurrencyRejected, rcb_reject cb)
      else (Inr (), cb\<lparr>inflight := inflight cb + 1\<rparr>))"
  by (simp add: rcb_acquire_def rcb_acquire_env_def Let_def)

lemma rcb_acquire_open:
  "state cb = RCB_OPEN \<Longrightarrow> rcb_acquire pid ms cb =
     (if rcb_cooldown_over ms cb
      then acquire_half_open quiet pid ms (rcb_enter_half_open (ms 0) cb)
      else (Inl CircuitOpen, rcb_reject cb))"
  by (simp add: rcb_acquire_def rcb_acquire_env_def Let_def rcb_cooldown_over_def rcb_enter_half_open_def)

lemma rcb_acquire_half_open:
  "state cb = RCB_HALF_OPEN \<Longrightarrow> rcb_acquire pid ms cb = acquire_half_open quiet pid ms cb"
  by (simp add: rcb_acquire_def rcb_acquire_env_def Let_def)

lemma trip_open_calm:
  "trip_open [] pid ms cb =
     (if state cb = RCB_OPEN then cb
      else rcb_arm_open (ms 1) (jittered_cooldown pid (ms 0) (config cb)) (cb\<lparr>state := RCB_OPEN\<rparr>))"
  by (simp add: trip_open_def Let_def)

text \<open>When the statistical detector fires.\<close>

definition stat_trips :: "u32 \<Rightarrow> CircuitBreaker \<Rightarrow> bool" where
  "stat_trips now_ts cb =
     (let cfg = config cb; stats = aggregate now_ts (window_secs cfg) (window cb) in
      min_samples cfg \<le> ws_total stats
      \<and> (f_le (error_rate_open cfg) (ws_error_rate stats)
         \<or> f_le (timeout_rate_open cfg) (ws_timeout_rate stats)
         \<or> p99_us_open cfg \<le> percentile_us (Fin 99) stats))"

lemma check_statistical_open_eq:
  "check_statistical_open pid ms ts cb = (if stat_trips ts cb then trip_open [] pid ms cb else cb)"
  by (auto simp: check_statistical_open_def stat_trips_def Let_def not_le)

lemma state_trip_open [simp]: "state (trip_open [] pid ms cb) = RCB_OPEN"
  by (simp add: trip_open_calm)

lemma inflight_trip_open [simp]: "inflight (trip_open [] pid ms cb) = inflight cb"
  by (simp add: trip_open_calm)

text \<open>Where a release can take the state.\<close>

lemma rcb_release_state:
  "state (rcb_release pid ms sec outcome l cb) = state cb
   \<or> state (rcb_release pid ms sec outcome l cb) = RCB_OPEN
   \<or> state (rcb_release pid ms sec outcome l cb) = RCB_CLOSED \<and> state cb = RCB_HALF_OPEN \<and> outcome = Success"
  by (cases outcome) (simp_all add: rcb_release_def Let_def check_statistical_open_eq)

lemma rcb_acquire_state:
  assumes "rcb_state_ok cb"
  shows "state (snd (rcb_acquire pid ms cb)) = state cb
    \<or> state (snd (rcb_acquire pid ms cb)) = RCB_OPEN \<and> state cb = RCB_HALF_OPEN
    \<or> state (snd (rcb_acquire pid ms cb)) \<in> {RCB_OPEN, RCB_HALF_OPEN} \<and> state cb = RCB_OPEN
        \<and> rcb_cooldown_over ms cb"
proof -
  consider "state cb = RCB_CLOSED" | "state cb = RCB_OPEN" | "state cb = RCB_HALF_OPEN"
    using assms by (auto simp: rcb_state_ok_def)
  then show ?thesis
  proof cases
    case 1
    then show ?thesis by (simp add: rcb_acquire_closed)
  next
    case 2
    then show ?thesis
      using acquire_half_open_mode [of "rcb_enter_half_open (ms 0) cb" pid ms]
      by (auto simp: rcb_acquire_open rcb_enter_half_open_def)
  next
    case 3
    then show ?thesis
      using acquire_half_open_mode [of cb pid ms] by (auto simp: rcb_acquire_half_open)
  qed
qed

interpretation rcb: breaker rcb_mode "rcb_step pid" rcb_state_ok rcb_cooled rcb_success for pid
proof unfold_locales
  fix s e assume ok: "rcb_state_ok s"
  then show "rcb_state_ok (rcb_step pid s e)"
  proof (cases e)
    case (RAcquire ms)
    then show ?thesis using rcb_acquire_state [OF ok, of pid ms] ok by (auto simp: rcb_state_ok_def)
  next
    case (RRelease ms sec out l)
    then show ?thesis using rcb_release_state [of pid ms sec out l s] ok by (auto simp: rcb_state_ok_def)
  qed
next
  fix s e assume ok: "rcb_state_ok s" and "rcb_mode s = Open"
  then have st: "state s = RCB_OPEN" by (auto simp: rcb_mode_def split: if_splits)
  then show "rcb_mode (rcb_step pid s e) = Open \<or> rcb_mode (rcb_step pid s e) = HalfOpen \<and> rcb_cooled s e"
  proof (cases e)
    case (RAcquire ms)
    then show ?thesis using rcb_acquire_state [OF ok, of pid ms] st by (auto simp: rcb_mode_def)
  next
    case (RRelease ms sec out l)
    then show ?thesis using rcb_release_state [of pid ms sec out l s] st by (auto simp: rcb_mode_def)
  qed
next
  fix s e
  assume ok: "rcb_state_ok s" and "rcb_mode s = HalfOpen" and cl: "rcb_mode (rcb_step pid s e) = Closed"
  then have st: "state s = RCB_HALF_OPEN" by (auto simp: rcb_mode_def split: if_splits)
  then show "rcb_success e"
  proof (cases e)
    case (RAcquire ms)
    then show ?thesis using rcb_acquire_state [OF ok, of pid ms] st cl by (auto simp: rcb_mode_def split: if_splits)
  next
    case (RRelease ms sec out l)
    then show ?thesis
      using rcb_release_state [of pid ms sec out l s] st cl by (auto simp: rcb_mode_def split: if_splits)
  qed
qed

section \<open>What the operations leave alone\<close>

lemma acquire_half_open_frame:
  assumes "state cb = RCB_HALF_OPEN"
  shows "case acquire_half_open quiet pid ms cb of (r, cb') \<Rightarrow>
     inflight cb' = inflight cb + (case r of Inl _ \<Rightarrow> 0 | Inr _ \<Rightarrow> 1)
   \<and> window cb' = window cb \<and> config cb' = config cb
   \<and> redis_requests_total cb' = redis_requests_total cb"
  using assms by (simp add: acquire_half_open_quiet)

lemma rcb_acquire_frame:
  "case rcb_acquire pid ms cb of (r, cb') \<Rightarrow>
     inflight cb' = inflight cb + (case r of Inl _ \<Rightarrow> 0 | Inr _ \<Rightarrow> 1)
   \<and> window cb' = window cb \<and> config cb' = config cb
   \<and> redis_requests_total cb' = redis_requests_total cb"
proof -
  consider "state cb = RCB_CLOSED" | "state cb = RCB_OPEN" | "state cb = RCB_HALF_OPEN"
    | "state cb \<notin> {RCB_CLOSED, RCB_OPEN, RCB_HALF_OPEN}" by blast
  then show ?thesis
  proof cases
    case 1
    then show ?thesis by (simp add: rcb_acquire_closed)
  next
    case 2
    then show ?thesis
      using acquire_half_open_frame [of "rcb_enter_half_open (ms 0) cb" pid ms]
      by (simp add: rcb_acquire_open rcb_enter_half_open_def split: prod.splits)
  next
    case 3
    then show ?thesis
      using acquire_half_open_frame [of cb pid ms] by (simp add: rcb_acquire_half_open)
  next
    case 4
    then show ?thesis by (simp add: rcb_acquire_def rcb_acquire_env_def)
  qed
qed

lemma trip_open_frame [simp]:
  "config (trip_open [] pid ms cb) = config cb"
  "redis_requests_total (trip_open [] pid ms cb) = redis_requests_total cb"
  "probes_dispatched (trip_open [] pid ms cb) = probes_dispatched cb"
  by (simp_all add: trip_open_calm rcb_arm_open_def)

lemma check_statistical_open_frame [simp]:
  "inflight (check_statistical_open pid ms ts cb) = inflight cb"
  "config (check_statistical_open pid ms ts cb) = config cb"
  "redis_requests_total (check_statistical_open pid ms ts cb) = redis_requests_total cb"
  "probes_dispatched (check_statistical_open pid ms ts cb) = probes_dispatched cb"
  by (simp_all add: check_statistical_open_eq)

lemma rcb_release_frame [simp]:
  "inflight (rcb_release pid ms sec out lat c) = inflight c - 1"
  "config (rcb_release pid ms sec out lat c) = config c"
  "redis_requests_total (rcb_release pid ms sec out lat c) = redis_requests_total c + 1"
  "probes_dispatched (rcb_release pid ms sec out lat c) = probes_dispatched c"
  unfolding rcb_release_def Let_def
  by (cases out; simp)+

section \<open>Properties\<close>

text \<open>(C9)
  No recovery without a probe. Whenever a run of \<open>acquire\<close> and \<open>release\<close> calls takes the Redis
  breaker from open to closed, some \<open>acquire\<close> of the run found the cooldown elapsed and a later
  \<open>release\<close> reported a success while the breaker was half-open.
\<close>
theorem redis_recovery_needs_probe:
  assumes "rcb_state_ok cb" and "rcb_mode cb = Open" and "rcb_mode (run (rcb_step pid) cb es) = Closed"
  shows "\<exists>i j. i < j \<and> j < length es
     \<and> rcb_cooled (run (rcb_step pid) cb (take i es)) (es ! i)
     \<and> rcb_mode (run (rcb_step pid) cb (take j es)) = HalfOpen \<and> rcb_success (es ! j)"
  by (rule rcb.recovery_needs_cooldown_then_success [OF assms])

text \<open>A concrete breaker for the witnesses: a window of two seconds, one probe, open since 1000.\<close>

definition demo_cfg :: CbConfig where
  "demo_cfg = \<lparr>window_secs = 2, min_samples = 5, consecutive_fail_open = 2, consecutive_to_open = 2,
     error_rate_open = Fin 1, timeout_rate_open = Fin 1, p99_us_open = 200000,
     p99_us_recovery = Fin 30000, error_rate_recovery = Fin 0, open_cooldown_ms = 5000,
     cooldown_jitter_ms = 2000, half_open_probes = 1, recovery_successes = 1, max_inflight = 32,
     half_open_max_ms = 10000\<rparr>"

definition demo_open :: CircuitBreaker where
  "demo_open = (CircuitBreaker_new demo_cfg)\<lparr>state := RCB_OPEN, opened_at_ms := 1000, cooldown_ms := 5000\<rparr>"

lemma half_open_success:
  assumes "state cb = RCB_HALF_OPEN"
  shows "state (rcb_release pid ms sec Success lat cb) =
    (let stats = aggregate (sec 1) (window_secs (config cb)) (window_record (sec 0) Success lat (window cb)) in
     if recovery_successes (config cb) \<le> half_open_successes cb + 1
        \<and> f_le (f_of_word (percentile_us (Fin 99) stats)) (p99_us_recovery (config cb))
        \<and> f_le (ws_error_rate stats) (error_rate_recovery (config cb))
     then RCB_CLOSED else RCB_HALF_OPEN)"
  using assms by (simp add: rcb_release_def Let_def)

lemma stats_zero_healthy [simp]:
  "percentile_us pct stats_zero = 0" "ws_error_rate stats_zero = Fin 0"
  by (simp_all add: percentile_us_def ws_error_rate_def stats_zero_def)

lemma demo_probe:
  "rcb_acquire 1 (\<lambda>_. 7000) demo_open =
     (Inr (), demo_open\<lparr>state := RCB_HALF_OPEN, probes_dispatched := 1, half_open_successes := 0,
        half_open_started_at_ms := 7000, circuit_half_open_total := 1, inflight := 1\<rparr>)"
  by (simp add: rcb_acquire_open demo_open_def rcb_cooldown_over_def sat_sub_def rcb_enter_half_open_def
      acquire_half_open_quiet half_open_expired_def CircuitBreaker_new_def Let_def normalize_def demo_cfg_def)

lemma demo_stale: "aggregate 11 2 (window_record 7 Success 400 (RollingWindow_new 2)) = stats_zero"
  by code_simp

lemma demo_window: "window demo_open = RollingWindow_new 2" "config demo_open = demo_cfg"
  by (simp_all add: demo_open_def CircuitBreaker_new_def Let_def normalize_def demo_cfg_def clamp_def)

theorem redis_recovery_needs_probe_witness:
  "\<exists>i j. i < j \<and> j < length [RAcquire (\<lambda>_. 7000), RRelease (\<lambda>_. 7001) (\<lambda>k. 7 + 4 * of_nat k) Success 400]
     \<and> rcb_success ([RAcquire (\<lambda>_. 7000), RRelease (\<lambda>_. 7001) (\<lambda>k. 7 + 4 * of_nat k) Success 400] ! j)"
proof -
  let ?es = "[RAcquire (\<lambda>_. 7000), RRelease (\<lambda>_. 7001) (\<lambda>k. 7 + 4 * of_nat k) Success 400]"
  have "state (run (rcb_step 1) demo_open ?es) = RCB_CLOSED"
    by (simp add: demo_probe half_open_success Let_def demo_window demo_stale, simp add: demo_cfg_def f_of_u64 f_le_def demo_stale)
  then have "rcb_mode (run (rcb_step 1) demo_open ?es) = Closed" by (simp add: rcb_mode_def)
  moreover have "rcb_state_ok demo_open" "rcb_mode demo_open = Open"
    by (simp_all add: demo_open_def rcb_state_ok_def rcb_mode_def)
  ultimately show ?thesis using redis_recovery_needs_probe [of demo_open 1 ?es] by blast
qed

text \<open>Every configuration read from the environment is usable: whatever the variables hold, each
  threshold is within its documented range, the recovery can be reached with the allowed
  probes, and the breaker built from it has one bucket per second of the window. The only value
  that escapes a range is a rate or latency threshold written as \<open>nan\<close>.
\<close>
lemma redis_config_bounds:
  "let c = from_env env in
     1 \<le> window_secs c \<and> window_secs c \<le> 60 \<and> 5 \<le> min_samples c \<and> min_samples c \<le> 1000
   \<and> 1 \<le> consecutive_fail_open c \<and> consecutive_fail_open c \<le> 100
   \<and> 1 \<le> consecutive_to_open c \<and> consecutive_to_open c \<le> 100
   \<and> (error_rate_open c = NaN \<or> f_within 0 1 (error_rate_open c))
   \<and> (timeout_rate_open c = NaN \<or> f_within 0 1 (timeout_rate_open c))
   \<and> (p99_us_recovery c = NaN \<or> f_within 1000 60000000 (p99_us_recovery c))
   \<and> (error_rate_recovery c = NaN \<or> f_within 0 1 (error_rate_recovery c))
   \<and> 1000 \<le> p99_us_open c \<and> p99_us_open c \<le> 60000000
   \<and> 100 \<le> open_cooldown_ms c \<and> open_cooldown_ms c \<le> 300000 \<and> cooldown_jitter_ms c \<le> 60000
   \<and> 1 \<le> recovery_successes c \<and> recovery_successes c \<le> half_open_probes c \<and> half_open_probes c \<le> 20
   \<and> 1 \<le> max_inflight c \<and> max_inflight c \<le> 10000
   \<and> 1000 \<le> half_open_max_ms c \<and> half_open_max_ms c \<le> 600000
   \<and> length (window (CircuitBreaker_new c)) = unat (window_secs c)"
proof -
  have fc: "f_clamp (Fin lo) (Fin hi) x = NaN \<or> f_within lo hi (f_clamp (Fin lo) (Fin hi) x)"
    if "lo \<le> hi" for lo hi x
    using that f_clamp_within by (cases "x = NaN") auto
  have w: "clamp 1 64 (clamp 1 60 v) = clamp 1 60 v" for v :: u64
    by (rule clamp_id) (simp, rule order_trans [OF clamp_le], simp_all)
  show ?thesis
    unfolding Let_def from_env_def
    by (intro conjI)
      (simp_all add: normalize_def CircuitBreaker_new_def RollingWindow_new_def Let_def fc not_less w)
qed


text \<open>A rejected call never reaches Redis and an admitted one is accounted for. If the breaker is
  open and its cooldown has not elapsed, \<open>with_circuit_breaker_on\<close> returns \<open>CircuitOpen\<close> whatever
  the protected operation is, and the world is as before. In every state, a rejection leaves
  the world, the state of the window and the in-flight gauge alone; an admitted call returns
  exactly what the operation returned, leaves the gauge as it was and is counted once.
\<close>
lemma protected_call_accounting:
  "case with_circuit_breaker_on pid ms ms' sec id f (cb, world) of (r, cb', world') \<Rightarrow>
     inflight cb' = inflight cb
   \<and> (case fst (rcb_acquire pid ms cb) of
        Inl e \<Rightarrow> r = Inl e \<and> world' = world \<and> window cb' = window cb
                 \<and> redis_requests_total cb' = redis_requests_total cb
      | Inr _ \<Rightarrow> (\<exists>lat. f world = (r, lat, world'))
                 \<and> redis_requests_total cb' = redis_requests_total cb + 1)
   \<and> (state cb = RCB_OPEN \<and> \<not> rcb_cooldown_over ms cb \<longrightarrow>
        r = Inl CircuitOpen \<and> world' = world \<and> state cb' = RCB_OPEN)"
  using rcb_acquire_frame [where pid = pid and ms = ms and cb = cb]
  by (cases "rcb_acquire pid ms cb"; cases "fst (rcb_acquire pid ms cb)"; cases "f world")
    (auto simp: with_circuit_breaker_on_def rcb_acquire_open)

lemma failure_on_closed:
  assumes "state cb = RCB_CLOSED" and "out \<in> {RedisError, Timeout}"
  shows "state (rcb_release pid ms sec out lat cb) = RCB_OPEN
    \<or> state (rcb_release pid ms sec out lat cb) = RCB_CLOSED
      \<and> consecutive_fail (rcb_release pid ms sec out lat cb) = consecutive_fail cb + 1
      \<and> consecutive_fail cb + 1 < consecutive_fail_open (config cb)"
  using assms by (cases out) (simp_all add: rcb_release_def Let_def check_statistical_open_eq not_le)

definition failure_event :: "rcb_event \<Rightarrow> bool" where
  "failure_event e = (case e of RRelease ms sec out lat \<Rightarrow> out = RedisError \<or> out = Timeout | _ \<Rightarrow> False)"

lemma failures_count:
  assumes "\<forall>e \<in> set es. failure_event e" and "0 < consecutive_fail_open cfg"
  shows "state (run (rcb_step pid) (CircuitBreaker_new cfg) es) = RCB_OPEN
    \<or> state (run (rcb_step pid) (CircuitBreaker_new cfg) es) = RCB_CLOSED
      \<and> unat (consecutive_fail (run (rcb_step pid) (CircuitBreaker_new cfg) es)) = length es
      \<and> length es < unat (consecutive_fail_open cfg)
      \<and> consecutive_fail_open (config (run (rcb_step pid) (CircuitBreaker_new cfg) es)) = consecutive_fail_open cfg"
  using assms(1)
proof (induction es rule: rev_induct)
  case Nil
  then show ?case
    using assms(2) by (simp add: CircuitBreaker_new_def Let_def normalize_def word_less_nat_alt)
next
  case (snoc e es)
  let ?c = "run (rcb_step pid) (CircuitBreaker_new cfg) es"
  obtain ms sec out lat where e: "e = RRelease ms sec out lat" "out \<in> {RedisError, Timeout}"
    using snoc.prems by (auto simp: failure_event_def split: rcb_event.splits)
  have st: "run (rcb_step pid) (CircuitBreaker_new cfg) (es @ [e]) = rcb_release pid ms sec out lat ?c"
    by (simp add: run_append e)
  from snoc consider "state ?c = RCB_OPEN"
    | "state ?c = RCB_CLOSED" "unat (consecutive_fail ?c) = length es"
      "consecutive_fail_open (config ?c) = consecutive_fail_open cfg" "length es < unat (consecutive_fail_open cfg)"
    by auto
  then show ?case
  proof cases
    case 1
    then show ?thesis using rcb_release_state [of pid ms sec out lat ?c] unfolding st by auto
  next
    case 2
    have "consecutive_fail ?c < consecutive_fail_open cfg" using 2 by (simp add: word_less_nat_alt)
    then have u: "unat (consecutive_fail ?c + 1) = length es + 1"
      using word_less_inc_unat 2(2) by metis
    show ?thesis
      using failure_on_closed [OF 2(1) e(2), of pid ms sec lat] 2(3) u
      unfolding st by (auto simp: word_less_nat_alt)
  qed
qed

lemma protected_call_accounting_witness:
  "fst (with_circuit_breaker_on 1 (\<lambda>_. 2000) (\<lambda>_. 2000) (\<lambda>_. 2) id (\<lambda>w. (Inr w, 5, w + 1)) (demo_open, 7 :: nat))
     = Inl CircuitOpen"
proof -
  have "state demo_open = RCB_OPEN" "\<not> rcb_cooldown_over (\<lambda>_. 2000) demo_open"
    by (simp_all add: demo_open_def rcb_cooldown_over_def sat_sub_def)
  then show ?thesis
    using protected_call_accounting [where pid = 1 and ms = "\<lambda>_. 2000" and ms' = "\<lambda>_. 2000" and sec = "\<lambda>_. 2"
        and f = "\<lambda>w. (Inr w, 5, w + 1)" and cb = demo_open and world = "7 :: nat"]
    by (auto split: prod.splits)
qed

text \<open>The fast detector. On a new breaker whose threshold is at least one, as many reported errors
  or timeouts in a row as \<open>consecutive_fail_open\<close> open the circuit, whatever the clocks show and
  however the errors and timeouts are mixed; later failures keep it open.
\<close>
lemma fast_detector_opens:
  assumes "0 < consecutive_fail_open cfg" and "unat (consecutive_fail_open cfg) \<le> length es"
    and "\<forall>e \<in> set es. failure_event e"
  shows "state (run (rcb_step pid) (CircuitBreaker_new cfg) es) = RCB_OPEN"
  using failures_count [OF assms(3,1), of pid] assms(2) by linarith

lemma fast_detector_opens_witness:
  "state (run (rcb_step 1) (CircuitBreaker_new demo_cfg)
     [RRelease (\<lambda>_. 1000) (\<lambda>_. 1) RedisError 300, RRelease (\<lambda>_. 900) (\<lambda>_. 1) Timeout 300]) = RCB_OPEN"
  by (rule fast_detector_opens) (simp_all add: demo_cfg_def failure_event_def)

section \<open>The probe budget\<close>

text \<open>
  The calls admitted since the breaker last became half-open, counted beside the breaker; none
  while it is closed or open.
\<close>

definition probe_count :: "CircuitBreaker \<Rightarrow> nat \<Rightarrow> nat" where
  "probe_count cb n = (if state cb = RCB_HALF_OPEN then n else 0)"

fun probe_count_step :: "u32 \<Rightarrow> CircuitBreaker \<times> nat \<Rightarrow> rcb_event \<Rightarrow> CircuitBreaker \<times> nat" where
  "probe_count_step pid (cb, n) (RAcquire ms) =
     (case rcb_acquire pid ms cb of
        (Inr _, cb') \<Rightarrow> (cb', probe_count cb' (n + 1))
      | (Inl _, cb') \<Rightarrow> (cb', probe_count cb' n))"
| "probe_count_step pid (cb, n) e = (rcb_step pid cb e, probe_count (rcb_step pid cb e) n)"

definition probe_inv :: "u32 \<Rightarrow> CircuitBreaker \<times> nat \<Rightarrow> bool" where
  "probe_inv budget p \<longleftrightarrow>
     (case p of (cb, n) \<Rightarrow> rcb_state_ok cb \<and> half_open_probes (config cb) = budget
        \<and> n = probe_count cb (unat (probes_dispatched cb))
        \<and> (state cb = RCB_HALF_OPEN \<longrightarrow> probes_dispatched cb \<le> budget))"

lemma probe_inv_half_open:
  assumes "state cb = RCB_HALF_OPEN" and "half_open_probes (config cb) = budget"
    and "probes_dispatched cb \<le> budget"
  shows "case acquire_half_open quiet pid ms cb of (r, cb') \<Rightarrow>
     rcb_state_ok cb' \<and> half_open_probes (config cb') = budget
   \<and> (state cb' = RCB_HALF_OPEN \<longrightarrow>
        unat (probes_dispatched cb') = unat (probes_dispatched cb) + (if r = Inr () then 1 else 0)
        \<and> probes_dispatched cb' \<le> budget)"
  using assms word_less_inc_unat [of "probes_dispatched cb" budget] word_inc_le [of "probes_dispatched cb" budget]
  by (auto simp: acquire_half_open_quiet rcb_state_ok_def not_le)

lemma probe_inv_step:
  assumes "probe_inv budget p"
  shows "probe_inv budget (probe_count_step pid p e)"
proof (cases p)
  case (Pair cb n)
  have ok: "rcb_state_ok cb" and b: "half_open_probes (config cb) = budget"
    and n: "n = probe_count cb (unat (probes_dispatched cb))"
    using assms by (auto simp: probe_inv_def Pair)
  show ?thesis
  proof (cases e)
    case (RRelease ms sec out lat)
    have "rcb_state_ok (rcb_release pid ms sec out lat cb)"
      using rcb.inv_step [OF ok, of pid e] by (simp add: RRelease)
    then show ?thesis
      using assms rcb_release_state [of pid ms sec out lat cb]
      by (auto simp: Pair RRelease probe_inv_def probe_count_def)
  next
    case (RAcquire ms)
    consider "state cb = RCB_CLOSED" | "state cb = RCB_OPEN" | "state cb = RCB_HALF_OPEN"
      using ok by (auto simp: rcb_state_ok_def)
    then show ?thesis
    proof cases
      case 1
      then show ?thesis
        using assms by (auto simp: Pair RAcquire probe_inv_def rcb_acquire_closed rcb_state_ok_def probe_count_def)
    next
      case 2
      then show ?thesis
        using ok b n probe_inv_half_open [of "rcb_enter_half_open (ms 0) cb" budget pid ms]
        by (auto simp: Pair RAcquire probe_inv_def rcb_acquire_open rcb_enter_half_open_def probe_count_def
            split: prod.splits sum.splits)
    next
      case 3
      then show ?thesis
        using assms probe_inv_half_open [of cb budget pid ms]
        by (auto simp: Pair RAcquire probe_inv_def rcb_acquire_half_open probe_count_def
            split: prod.splits sum.splits)
    qed
  qed
qed

text \<open>(C10)
  The probe budget. In every run of a new breaker, the number of calls admitted since it last
  became half-open is what \<open>probes_dispatched\<close> shows while it is half-open, and it never exceeds
  \<open>half_open_probes\<close>: a recovery attempt lets at most that many calls through to Redis.
\<close>
theorem half_open_probe_budget:
  "case run (probe_count_step pid) (CircuitBreaker_new cfg, 0) es of (cb, n) \<Rightarrow>
     n = (if state cb = RCB_HALF_OPEN then unat (probes_dispatched cb) else 0)
   \<and> n \<le> unat (half_open_probes cfg)"
proof -
  obtain cb n where run: "run (probe_count_step pid) (CircuitBreaker_new cfg, 0) es = (cb, n)" by fastforce
  have "probe_inv (half_open_probes cfg) (CircuitBreaker_new cfg, 0)"
    by (simp add: probe_inv_def probe_count_def CircuitBreaker_new_def Let_def normalize_def rcb_state_ok_def)
  then have "probe_inv (half_open_probes cfg) (run (probe_count_step pid) (CircuitBreaker_new cfg, 0) es)"
    by (intro run_inv [where I = "probe_inv (half_open_probes cfg)"] probe_inv_step)
  then show ?thesis by (simp add: run probe_inv_def probe_count_def word_le_nat_alt)
qed

section \<open>Opening\<close>

lemma jittered_cooldown_bounds:
  assumes "unat (open_cooldown_ms cfg) + unat (cooldown_jitter_ms cfg) < 2 ^ 64"
  shows "unat (open_cooldown_ms cfg) \<le> unat (jittered_cooldown pid now cfg)
       \<and> unat (jittered_cooldown pid now cfg) \<le> unat (open_cooldown_ms cfg) + (unat (cooldown_jitter_ms cfg) - 1)"
proof (cases "0 < cooldown_jitter_ms cfg")
  case True
  let ?j = "drop_bit 33 (ucast pid * 6364136223846793005 + now) mod cooldown_jitter_ms cfg"
  have j: "unat ?j < unat (cooldown_jitter_ms cfg)"
    using True by (simp add: unat_mod word_less_nat_alt)
  then have "unat (open_cooldown_ms cfg + ?j) = unat (open_cooldown_ms cfg) + unat ?j"
    using assms by (simp add: unat_word_ariths)
  with j True show ?thesis by (simp add: jittered_cooldown_def Let_def)
qed (simp add: jittered_cooldown_def)

lemma from_env_cooldown: "unat (open_cooldown_ms (from_env env)) + unat (cooldown_jitter_ms (from_env env)) < 2 ^ 64"
proof -
  have "open_cooldown_ms (from_env env) \<le> 300000" "cooldown_jitter_ms (from_env env) \<le> 60000"
    by (simp_all add: from_env_def normalize_def Let_def)
  then show ?thesis by (simp add: word_le_nat_alt)
qed

lemma trip_loop_open: "snd (trip_loop es x x) = RCB_OPEN"
  by (induction es arbitrary: x) (auto simp: Let_def)

lemma trip_loop_keeps_open: "trip_loop es RCB_OPEN RCB_OPEN = (False, RCB_OPEN)"
  by (cases es) simp_all

text \<open>Opening the circuit. Whatever other threads write to the state between the attempts of the
  exchange loop of \<open>trip_open\<close>, and however often the weak exchange fails, the circuit is open
  when the loop ends. A circuit that is already open is left exactly as it is, so a late failure
  never extends a cooldown. If the loop wins the exchange, the cooldown it arms is at least the
  configured base and exceeds it by less than the configured jitter.
\<close>
lemma trip_open_any_race:
  assumes "config cb = from_env env"
  shows "state (trip_open es pid ms cb) = RCB_OPEN
    \<and> (state cb = RCB_OPEN \<longrightarrow> trip_open es pid ms cb = cb)
    \<and> (let cb' = trip_open es pid ms cb; base = unat (open_cooldown_ms (config cb));
           jitter = unat (cooldown_jitter_ms (config cb)) in
       if fst (trip_loop es (state cb) (state cb))
       then opened_at_ms cb' = ms 1 \<and> base \<le> unat (cooldown_ms cb') \<and> unat (cooldown_ms cb') \<le> base + (jitter - 1)
       else opened_at_ms cb' = opened_at_ms cb \<and> cooldown_ms cb' = cooldown_ms cb)"
proof -
  have st: "snd (trip_loop es (state cb) (state cb)) = RCB_OPEN" by (rule trip_loop_open)
  have "unat (open_cooldown_ms (config cb)) + unat (cooldown_jitter_ms (config cb)) < 2 ^ 64"
    unfolding assms by (rule from_env_cooldown)
  then have j: "unat (open_cooldown_ms (config cb)) \<le> unat (jittered_cooldown pid (ms 0) (config cb))"
    "unat (jittered_cooldown pid (ms 0) (config cb))
       \<le> unat (open_cooldown_ms (config cb)) + (unat (cooldown_jitter_ms (config cb)) - 1)"
    using jittered_cooldown_bounds by blast+
  have "state cb = RCB_OPEN \<longrightarrow> trip_open es pid ms cb = cb"
    using trip_loop_keeps_open [of es] by (simp add: trip_open_def)
  then show ?thesis
    using st j by (cases "trip_loop es (state cb) (state cb)") (auto simp: trip_open_def Let_def)
qed

lemma trip_open_any_race_witness:
  "state (trip_open [Spurious, Overwrite 2] 1 (\<lambda>_. 500) (CircuitBreaker_new (from_env (\<lambda>_. None)))) = RCB_OPEN"
  using trip_open_any_race [of "CircuitBreaker_new (from_env (\<lambda>_. None))" "\<lambda>_. None"]
  by (simp add: CircuitBreaker_new_def Let_def, simp add: from_env_def Let_def normalize_def)

text \<open>(C26)
  The half-open state cannot wedge. Once \<open>half_open_max_ms\<close> have passed since the circuit became
  half-open, the next \<open>acquire\<close> is rejected, re-opens the circuit from that moment and arms a fresh
  cooldown; and once that cooldown has passed, the following \<open>acquire\<close> makes the circuit
  half-open again with an empty probe count and dispatches a probe, if no call is in flight.
\<close>
theorem half_open_never_wedges:
  assumes "config cb = from_env env" and "state cb = RCB_HALF_OPEN" and "inflight cb = 0"
    and "half_open_max_ms (config cb) \<le> sat_sub (ms 1) (half_open_started_at_ms cb)"
    and "cb1 = snd (rcb_acquire pid ms cb)"
    and "cooldown_ms cb1 \<le> sat_sub (ms' 0) (opened_at_ms cb1)"
    and "sat_sub (ms' 1) (ms' 0) < half_open_max_ms (config cb)"
  shows "fst (rcb_acquire pid ms cb) = Inl CircuitOpen \<and> state cb1 = RCB_OPEN \<and> opened_at_ms cb1 = ms 1
    \<and> unat (cooldown_ms cb1) \<le> 360000
    \<and> fst (rcb_acquire pid ms' cb1) = Inr ()
    \<and> state (snd (rcb_acquire pid ms' cb1)) = RCB_HALF_OPEN
    \<and> probes_dispatched (snd (rcb_acquire pid ms' cb1)) = 1"
proof -
  have acq: "rcb_acquire pid ms cb =
      (Inl CircuitOpen, rcb_reject (rcb_arm_open (ms 1) (jittered_cooldown pid (ms 2) (config cb)) (cb\<lparr>state := RCB_OPEN\<rparr>)))"
    using assms(2,4) by (simp add: rcb_acquire_half_open acquire_half_open_quiet half_open_expired_def)
  have b: "open_cooldown_ms (config cb) \<le> 300000" "cooldown_jitter_ms (config cb) \<le> 60000"
    "1 \<le> half_open_probes (config cb)"
    unfolding assms(1) by (simp_all add: from_env_def normalize_def Let_def)
  have "unat (jittered_cooldown pid (ms 2) (config cb)) \<le> 360000"
    using jittered_cooldown_bounds [of "config cb" pid "ms 2"] b(1,2) by (simp add: word_le_nat_alt) linarith
  moreover have p: "0 < half_open_probes (config cb)" using b(3) by (simp add: word_le_nat_alt word_less_nat_alt)
  then have "half_open_probes (config cb) \<noteq> 0" "uint (half_open_probes (config cb)) \<noteq> 0"
    by (simp_all add: uint_0_iff word_neq_0_conv)
  ultimately show ?thesis
    using assms(3,5-) p unfolding acq
    by (simp add: rcb_acquire_open rcb_cooldown_over_def rcb_enter_half_open_def acquire_half_open_quiet
        half_open_expired_def not_le)
qed

definition demo_wedged :: CircuitBreaker where
  "demo_wedged = (CircuitBreaker_new (from_env (\<lambda>_. None)))\<lparr>state := RCB_HALF_OPEN, half_open_started_at_ms := 1000\<rparr>"

lemma demo_wedged_simps:
  "config demo_wedged = from_env (\<lambda>_. None)" "state demo_wedged = RCB_HALF_OPEN" "inflight demo_wedged = 0"
  "half_open_started_at_ms demo_wedged = 1000" "half_open_max_ms (from_env (\<lambda>_. None)) = 10000"
  by (simp_all add: demo_wedged_def CircuitBreaker_new_def Let_def from_env_def normalize_def clamp_def)

theorem half_open_never_wedges_witness:
  "fst (rcb_acquire 1 (\<lambda>_. 1000000) (snd (rcb_acquire 1 (\<lambda>_. 20000) demo_wedged))) = Inr ()"
proof -
  have j: "jittered_cooldown 1 20000 (from_env (\<lambda>_. None)) \<le> 980000"
    using jittered_cooldown_bounds [OF from_env_cooldown [of "\<lambda>_. None"], of 1 20000]
    by (simp add: word_le_nat_alt from_env_def Let_def normalize_def clamp_def)
  have "rcb_acquire 1 (\<lambda>_. 20000) demo_wedged =
      (Inl CircuitOpen, rcb_reject (rcb_arm_open 20000 (jittered_cooldown 1 20000 (from_env (\<lambda>_. None)))
         (demo_wedged\<lparr>state := RCB_OPEN\<rparr>)))"
    by (simp add: rcb_acquire_half_open acquire_half_open_quiet half_open_expired_def demo_wedged_simps sat_sub_def)
  then show ?thesis
    using j half_open_never_wedges [of demo_wedged "\<lambda>_. None" "\<lambda>_. 20000" _ 1 "\<lambda>_. 1000000"]
    by (simp add: demo_wedged_simps sat_sub_def)
qed

end
