(* ===== verification/Rate_Limit.thy ===== *)
theory Rate_Limit
  imports Window_Counter Redis_CB
begin

text \<open>
  The per-user rate limiter, \<open>rust-ext/src/rate_limit.rs\<close>: the shared table of window words, the
  hot path \<open>check_rate_limit\<close> with its exchange loop and the message it queues, and the background
  thread that counts the fleet in Redis and saturates the local word.

  The hash of \<open>rustc_hash\<close> is the parameter \<open>fx\<close>. The Redis server and its connection are a world
  \<open>'w\<close> with the four commands the thread issues. The shared memory starts zeroed.
\<close>

section \<open>Configuration\<close>

definition SHM_SLOTS :: nat where [simp]: "SHM_SLOTS = 1000000"

text \<open>The address of the server from the parts of the environment.\<close>

definition redis_url_parts :: "env \<Rightarrow> string" where
  "redis_url_parts env =
     (let scheme = (if env_flag env ''REDIS_TLS'' then ''rediss'' else ''redis'');
          host = unwrap_or (env ''REDIS_HOST'') ''redis'';
          port = unwrap_or (env ''REDIS_PORT'') ''6379'';
          user = non_empty (env ''REDIS_USERNAME'');
          pass = non_empty (env ''REDIS_PASSWORD'') in
      case (user, pass) of
        (Some u, Some p) \<Rightarrow> scheme @ ''://'' @ u @ '':'' @ p @ ''@'' @ host @ '':'' @ port
      | (None, Some p) \<Rightarrow> scheme @ ''://:'' @ p @ ''@'' @ host @ '':'' @ port
      | _ \<Rightarrow> scheme @ ''://'' @ host @ '':'' @ port)"

definition redis_url_from_vars :: "env \<Rightarrow> string" where
  "redis_url_from_vars env =
     (case env ''REDIS_URL'' of
        Some url \<Rightarrow> if url \<noteq> [] then url else redis_url_parts env
      | None \<Rightarrow> redis_url_parts env)"

definition rl_redis_enabled :: "env \<Rightarrow> bool" where
  "rl_redis_enabled env =
     (case env ''RATE_LIMIT_REDIS_ENABLED'' of
        Some v \<Rightarrow> v \<noteq> ''0'' \<and> \<not> eq_ignore_ascii_case v ''false'' | None \<Rightarrow> True)"

definition rl_redis_timeout_ms :: "env \<Rightarrow> u64" where
  "rl_redis_timeout_ms env =
     (case Option.bind (env ''RATE_LIMIT_REDIS_TIMEOUT_MS'') parse_uint of
        Some v \<Rightarrow> clamp 5 500 v | None \<Rightarrow> 50)"

section \<open>The hot path\<close>

record SyncMsg =
  sm_user_key :: string
  sm_local_count :: u32
  sm_window_ts :: u32
  sm_max_rps :: u32

text \<open>
  The state the hot path touches: the shared table and the worker's channel (\<open>None\<close> while the
  thread-local sender is unset).
\<close>

record rl_state =
  rl_table :: "nat \<Rightarrow> u64"
  rl_tx :: "SyncMsg list option"

definition rl_init :: rl_state where
  "rl_init = \<lparr>rl_table = (\<lambda>_. 0), rl_tx = None\<rparr>"

definition bucket_slot :: "(string \<Rightarrow> u64) \<Rightarrow> string \<Rightarrow> nat" where
  "bucket_slot fx user = unat (fx user mod of_nat SHM_SLOTS)"

definition try_send :: "SyncMsg \<Rightarrow> SyncMsg list option \<Rightarrow> SyncMsg list option" where
  "try_send m tx = (case tx of
       Some q \<Rightarrow> if length q < 512 then Some (q @ [m]) else Some q
     | None \<Rightarrow> None)"

definition check_rate_limit ::
    "(string \<Rightarrow> u64) \<Rightarrow> env \<Rightarrow> u64 cas_event list \<Rightarrow> u32 \<Rightarrow> usize \<Rightarrow> string option \<Rightarrow> rl_state
     \<Rightarrow> bool \<times> rl_state" where
  "check_rate_limit fx env es now max_rps user_key st =
     (if max_rps = 0 then (True, st)
      else case user_key of
        None \<Rightarrow> (True, st)
      | Some k \<Rightarrow>
          if k = [] then (True, st)
          else
            (let slot = bucket_slot fx k; current = rl_table st slot in
             case window_loop es now (\<lambda>_. ucast max_rps) 0 current current of
               (None, v) \<Rightarrow> (False, st\<lparr>rl_table := (rl_table st)(slot := v)\<rparr>)
             | (Some w, v) \<Rightarrow>
                 (True, st\<lparr>rl_table := (rl_table st)(slot := v),
                           rl_tx := (if rl_redis_enabled env
                                     then try_send \<lparr>sm_user_key = k, sm_local_count = window_count_of w,
                                                    sm_window_ts = now, sm_max_rps = ucast max_rps\<rparr> (rl_tx st)
                                     else rl_tx st)\<rparr>)))"

section \<open>The script in Redis\<close>

type_synonym redis_error = "RedisErrorKind \<times> string"

record 'w redis_api =
  api_evalsha :: "string \<Rightarrow> string \<Rightarrow> u64 \<Rightarrow> 'w \<Rightarrow> (redis_error + int) \<times> 'w"
  api_script_load :: "'w \<Rightarrow> (redis_error + string) \<times> 'w"
  api_eval :: "string \<Rightarrow> u64 \<Rightarrow> 'w \<Rightarrow> (redis_error + int) \<times> 'w"
  api_open_conn :: "'w \<Rightarrow> bool \<times> 'w"

text \<open>\<open>SCRIPT_SHA\<close> is set at most once; the caller's \<open>set\<close> is ignored when it is.\<close>

definition load_and_eval ::
    "'w redis_api \<Rightarrow> string \<Rightarrow> u64 \<Rightarrow> string option \<times> 'w \<Rightarrow> (redis_error + int) \<times> string option \<times> 'w" where
  "load_and_eval api key ttl p =
     (case p of (sha_opt, w) \<Rightarrow>
        (case api_script_load api w of
           (Inl e, w1) \<Rightarrow> (Inl e, sha_opt, w1)
         | (Inr sha, w1) \<Rightarrow>
             (case api_eval api key ttl w1 of
                (r, w2) \<Rightarrow> (r, (case sha_opt of Some s \<Rightarrow> Some s | None \<Rightarrow> Some sha), w2))))"

definition evalsha_or_eval ::
    "'w redis_api \<Rightarrow> string \<Rightarrow> u64 \<Rightarrow> string option \<times> 'w \<Rightarrow> (redis_error + int) \<times> string option \<times> 'w" where
  "evalsha_or_eval api key ttl p =
     (case p of (sha_opt, w) \<Rightarrow>
        (case sha_opt of
           Some sha \<Rightarrow>
             (case api_evalsha api sha key ttl w of
                (Inr count, w1) \<Rightarrow> (Inr count, sha_opt, w1)
              | (Inl e, w1) \<Rightarrow>
                  if contains_str (snd e) ''NOSCRIPT'' then load_and_eval api key ttl (sha_opt, w1)
                  else (Inl e, sha_opt, w1))
         | None \<Rightarrow> load_and_eval api key ttl (sha_opt, w)))"

section \<open>The synchronising thread\<close>

record 'w sync_world =
  sw_connected :: bool
  sw_sha :: "string option"
  sw_redis :: 'w

text \<open>The protected closure: connect if needed, count, classify the error.\<close>

definition sync_closure ::
    "'w redis_api \<Rightarrow> string \<Rightarrow> 'w sync_world \<Rightarrow> (RedisCallOutcome + int) \<times> 'w sync_world" where
  "sync_closure api redis_key sw =
     (let (con, w1) = (if sw_connected sw then (True, sw_redis sw) else api_open_conn api (sw_redis sw)) in
      if con then
        (case evalsha_or_eval api redis_key 2 (sw_sha sw, w1) of
           (Inr count, sha, w2) \<Rightarrow> (Inr count, \<lparr>sw_connected = True, sw_sha = sha, sw_redis = w2\<rparr>)
         | (Inl e, sha, w2) \<Rightarrow>
             (Inl (classify_redis_error (fst e) (snd e)), \<lparr>sw_connected = True, sw_sha = sha, sw_redis = w2\<rparr>))
      else (Inl RedisError, \<lparr>sw_connected = False, sw_sha = sw_sha sw, sw_redis = w1\<rparr>))"

text \<open>
  The word written when the fleet is over the limit. The exchange compares with a value loaded
  just before it, so only a write that falls between the two (the event) makes it fail.
\<close>

definition rl_saturate :: "u64 cas_event \<Rightarrow> SyncMsg \<Rightarrow> u64 \<Rightarrow> u64" where
  "rl_saturate ev m loaded =
     (let saturated = push_bit 32 (ucast (sm_window_ts m)) OR (ucast (sm_max_rps m) + 1);
          seen = cas_seen ev loaded in
      if seen = loaded then saturated else seen)"

record rl_counters =
  syncs_ok :: u64
  syncs_err :: u64

text \<open>
  What the thread does with the result of the protected call. The last component says whether
  the connection is kept.
\<close>

definition rl_sync_result ::
    "(string \<Rightarrow> u64) \<Rightarrow> u64 cas_event \<Rightarrow> SyncMsg \<Rightarrow> (RedisCallOutcome + int)
     \<Rightarrow> (nat \<Rightarrow> u64) \<times> rl_counters \<Rightarrow> (nat \<Rightarrow> u64) \<times> rl_counters \<times> bool" where
  "rl_sync_result fx ev m r s =
     (case s of (table, ctr) \<Rightarrow>
        (case r of
           Inr fleet_count \<Rightarrow>
             (let slot = bucket_slot fx (sm_user_key m) in
              (if sm_max_rps m < of_int fleet_count
               then table(slot := rl_saturate ev m (table slot)) else table,
               ctr\<lparr>syncs_ok := syncs_ok ctr + 1\<rparr>, True))
         | Inl outcome \<Rightarrow>
             (table, ctr\<lparr>syncs_err := syncs_err ctr + 1\<rparr>,
              outcome = CircuitOpen \<or> outcome = ConcurrencyRejected)))"

text \<open>One message: the protected call (its duration is \<open>lat\<close>) and its consequences.\<close>

definition rl_sync_msg ::
    "(string \<Rightarrow> u64) \<Rightarrow> 'w redis_api \<Rightarrow> u32 \<Rightarrow> (nat \<Rightarrow> u64) \<Rightarrow> (nat \<Rightarrow> u64) \<Rightarrow> (nat \<Rightarrow> u32) \<Rightarrow> u64
     \<Rightarrow> u64 cas_event \<Rightarrow> SyncMsg \<Rightarrow> CircuitBreaker \<times> 'w sync_world \<times> (nat \<Rightarrow> u64) \<times> rl_counters
     \<Rightarrow> CircuitBreaker \<times> 'w sync_world \<times> (nat \<Rightarrow> u64) \<times> rl_counters" where
  "rl_sync_msg fx api pid ms ms' sec lat ev m s =
     (case s of (cb, sw, table, ctr) \<Rightarrow>
        (case with_circuit_breaker_on pid ms ms' sec id
                (\<lambda>w. case sync_closure api (''gateway:rl:'' @ sm_user_key m) w of (r, w') \<Rightarrow> (r, lat, w'))
                (cb, sw) of
           (r, cb', sw') \<Rightarrow>
             (case rl_sync_result fx ev m r (table, ctr) of
                (table', ctr', keep) \<Rightarrow>
                  (cb', sw'\<lparr>sw_connected := sw_connected sw' \<and> keep\<rparr>, table', ctr'))))"

text \<open>Starting the thread: once per process, and only when Redis is enabled.\<close>

definition start_rl_redis_sync :: "env \<Rightarrow> bool \<times> SyncMsg list option \<Rightarrow> bool \<times> SyncMsg list option" where
  "start_rl_redis_sync env s =
     (case s of (alive, tx) \<Rightarrow>
        if \<not> rl_redis_enabled env then (alive, tx)
        else if alive then (alive, tx) else (True, Some []))"

section \<open>The limiter is a fixed-window counter\<close>

lemma check_rate_limit_calm:
  assumes "max_rps \<noteq> 0" and "k \<noteq> []"
  shows "fst (check_rate_limit fx env [] now max_rps (Some k) st)
       = fst (window_hit (ucast max_rps) now (rl_table st (bucket_slot fx k)))"
    and "rl_table (snd (check_rate_limit fx env [] now max_rps (Some k) st))
       = (rl_table st)(bucket_slot fx k := snd (window_hit (ucast max_rps) now (rl_table st (bucket_slot fx k))))"
  using assms by (simp_all add: check_rate_limit_def Let_def window_hit_def split: option.splits)

lemma check_rate_limit_full:
  assumes "max_rps \<noteq> 0" and "k \<noteq> []"
    and "window_next now (ucast max_rps) (rl_table st (bucket_slot fx k)) = None"
  shows "check_rate_limit fx env [] now max_rps (Some k) st = (False, st)"
  using assms by (simp add: check_rate_limit_def Let_def)

lemma rl_fixed_window:
  assumes "max_rps \<noteq> 0" and "k \<noteq> []"
  shows "fixed_window (\<lambda>st. window_ts_of (rl_table st (bucket_slot fx k)))
           (\<lambda>st. window_count_of (rl_table st (bucket_slot fx k)))
           (\<lambda>now. check_rate_limit fx env [] now max_rps (Some k)) (ucast max_rps)"
proof unfold_locales
  fix s :: rl_state and now
  let ?v = "rl_table s (bucket_slot fx k)"
  let ?h = "check_rate_limit fx env [] now max_rps (Some k) s"
  note c = check_rate_limit_calm [OF assms, of fx env now s]
  show "window_ts_of ?v \<noteq> now \<Longrightarrow> fst ?h \<and> window_ts_of (rl_table (snd ?h) (bucket_slot fx k)) = now
      \<and> window_count_of (rl_table (snd ?h) (bucket_slot fx k)) = 1"
    unfolding c using packed.new_window [of ?v now "ucast max_rps"] by simp
  show "window_ts_of ?v = now \<Longrightarrow> window_count_of ?v < ucast max_rps \<Longrightarrow>
      fst ?h \<and> window_ts_of (rl_table (snd ?h) (bucket_slot fx k)) = now
      \<and> window_count_of (rl_table (snd ?h) (bucket_slot fx k)) = window_count_of ?v + 1"
    unfolding c using packed.below [of ?v now "ucast max_rps"] by simp
  show "window_ts_of ?v = now \<Longrightarrow> ucast max_rps \<le> window_count_of ?v \<Longrightarrow> ?h = (False, s)"
    by (rule check_rate_limit_full [OF assms]) (simp add: window_next_def)
qed

text \<open>(C14)
  The limit of one second. Of any number of requests that one user makes in one second through
  one table, exactly the first \<open>max_rps\<close> are admitted, if the user's slot does not already hold
  that second (for a limit that fits 32 bits).
\<close>
theorem user_limit_per_second:
  assumes "0 < max_rps" and "unat max_rps < 2 ^ 32" and "k \<noteq> []"
    and "window_ts_of (rl_table st (bucket_slot fx k)) \<noteq> now"
  shows "fst (count_hits (check_rate_limit fx env [] now max_rps (Some k)) n st) = min n (unat max_rps)"
proof -
  have "max_rps \<noteq> 0" using assms(1) by auto
  then have fw: "fixed_window (\<lambda>st. window_ts_of (rl_table st (bucket_slot fx k)))
           (\<lambda>st. window_count_of (rl_table st (bucket_slot fx k)))
           (\<lambda>now. check_rate_limit fx env [] now max_rps (Some k)) (ucast max_rps)"
    using assms(3) by (rule rl_fixed_window)
  have u: "unat (ucast max_rps :: u32) = unat max_rps" using assms(2) by (simp add: unat_ucast_small)
  then have "0 < (ucast max_rps :: u32)" using assms(1) by (simp add: word_less_nat_alt)
  then show ?thesis
    using fixed_window.hits_from_new_window [OF fw assms(4)] u by simp
qed

theorem user_limit_per_second_witness:
  "fst (count_hits (check_rate_limit (\<lambda>_. 42) (\<lambda>_. None) [] 1700000000 3 (Some ''alice'')) 5 rl_init) = 3"
  using user_limit_per_second [of 3 "''alice''" rl_init "\<lambda>_. 42" 1700000000 "\<lambda>_. None" 5]
  by (simp add: rl_init_def window_ts_of_def)

text \<open>(C15)
  The exchange loop is linearizable. Whatever other workers store in the slot between the
  attempts, a call that reaches the loop behaves as one atomic hit on a word the slot really
  held: it answers what that hit answers, leaves in the slot what that hit leaves, and touches
  no other slot.
\<close>
theorem rate_limit_linearizable:
  assumes "max_rps \<noteq> 0" and "k \<noteq> []"
  shows "\<exists>w. (w = rl_table st (bucket_slot fx k) \<or> Overwrite w \<in> set es)
     \<and> fst (check_rate_limit fx env es now max_rps (Some k) st) = fst (window_hit (ucast max_rps) now w)
     \<and> rl_table (snd (check_rate_limit fx env es now max_rps (Some k) st))
       = (rl_table st)(bucket_slot fx k := snd (window_hit (ucast max_rps) now w))"
proof -
  let ?v = "rl_table st (bucket_slot fx k)"
  obtain w where w: "w = ?v \<or> Overwrite w \<in> set es"
    "window_loop es now (\<lambda>_. ucast max_rps) 0 ?v ?v
       = (window_next now (ucast max_rps) w, snd (window_hit (ucast max_rps) now w))"
    using window_loop_atomic [of ?v es now "\<lambda>_. ucast max_rps" 0] by blast
  have "fst (window_hit (ucast max_rps) now w) = (window_next now (ucast max_rps) w \<noteq> None)"
    by (simp add: window_hit_def split: option.splits)
  with assms w show ?thesis
    by (intro exI [of _ w]) (simp add: check_rate_limit_def Let_def split: option.splits)
qed

theorem rate_limit_linearizable_witness:
  "\<exists>w. (w = 0 \<or> Overwrite w \<in> set [Spurious, Overwrite (pack_window 7 2)])
     \<and> fst (check_rate_limit (\<lambda>_. 42) (\<lambda>_. None) [Spurious, Overwrite (pack_window 7 2)] 7 3 (Some ''bob'') rl_init)
       = fst (window_hit (ucast (3 :: usize)) 7 w)"
  using rate_limit_linearizable [of 3 "''bob''" rl_init "\<lambda>_. 42" "[Spurious, Overwrite (pack_window 7 2)]" "\<lambda>_. None" 7]
  by (simp add: rl_init_def) blast

section \<open>The fleet-wide limit\<close>

lemma saturated_word:
  "unat (m :: u32) + 1 < 2 ^ 32 \<Longrightarrow> push_bit 32 (ucast now) OR (ucast m + 1) = pack_window now (m + 1)"
proof -
  assume m: "unat m + 1 < 2 ^ 32"
  have "unat (ucast m + 1 :: u64) = unat m + 1"
    using m by (simp add: unat_Suc_word unat_ucast_small)
  moreover have "unat (ucast (m + 1) :: u64) = unat m + 1"
  proof -
    have "unat (m + 1) = unat m + 1" using m by (intro unat_Suc_word) simp
    then show ?thesis using m by (simp add: unat_ucast_small)
  qed
  ultimately have "(ucast m + 1 :: u64) = ucast (m + 1)" by (simp add: word_unat_eq_iff)
  then show ?thesis by (simp add: pack_window_def)
qed

text \<open>The fleet count is enforced and Redis is never needed. When a synchronisation reports a fleet
  count above the limit (and nothing interferes with its exchange), the user's next request of
  that second is refused by this node; any failure of Redis, an open circuit included, leaves
  the whole table as it was.
\<close>
lemma fleet_limit_enforced_fail_open:
  assumes "unat (sm_max_rps m) + 1 < 2 ^ 32" and "sm_max_rps m < of_int fleet_count"
    and "sm_user_key m \<noteq> []" and "sm_max_rps m = ucast max_rps" and "max_rps \<noteq> 0"
    and "rl_table st = fst (rl_sync_result fx Calm m (Inr fleet_count) (table, ctr))"
  shows "check_rate_limit fx env [] (sm_window_ts m) max_rps (Some (sm_user_key m)) st = (False, st)
       \<and> fst (rl_sync_result fx ev m (Inl outcome) (table, ctr)) = table"
proof -
  let ?now = "sm_window_ts m"
  have v: "rl_table st (bucket_slot fx (sm_user_key m)) = pack_window ?now (sm_max_rps m + 1)"
    using assms(2) unfolding assms(6)
    by (simp add: rl_sync_result_def Let_def rl_saturate_def saturated_word [OF assms(1)])
  have "unat (sm_max_rps m + 1) = unat (sm_max_rps m) + 1" using assms(1) by (intro unat_Suc_word) simp
  then have "sm_max_rps m \<le> sm_max_rps m + 1" by (simp add: word_le_nat_alt)
  then have "window_next ?now (ucast max_rps) (rl_table st (bucket_slot fx (sm_user_key m))) = None"
    unfolding v by (simp add: window_next_def assms(4) [symmetric])
  then show ?thesis
    using check_rate_limit_full [OF assms(5,3)] by (simp add: rl_sync_result_def)
qed

definition demo_msg :: SyncMsg where
  "demo_msg = \<lparr>sm_user_key = ''carol'', sm_local_count = 1, sm_window_ts = 7, sm_max_rps = 10\<rparr>"

lemma fleet_limit_enforced_fail_open_witness:
  "fst (check_rate_limit (\<lambda>_. 42) (\<lambda>_. None) [] 7 10 (Some ''carol'')
     \<lparr>rl_table = fst (rl_sync_result (\<lambda>_. 42) Calm demo_msg (Inr 11) (\<lambda>_. 0, \<lparr>syncs_ok = 0, syncs_err = 0\<rparr>)),
      rl_tx = None\<rparr>) = False"
  using fleet_limit_enforced_fail_open [of demo_msg 11 10
      "\<lparr>rl_table = fst (rl_sync_result (\<lambda>_. 42) Calm demo_msg (Inr 11) (\<lambda>_. 0, \<lparr>syncs_ok = 0, syncs_err = 0\<rparr>)), rl_tx = None\<rparr>"
      "\<lambda>_. 42" "\<lambda>_. 0" "\<lparr>syncs_ok = 0, syncs_err = 0\<rparr>" "\<lambda>_. None"]
  by (simp add: demo_msg_def)

text \<open>A late synchronisation forgets the current window. If the answer of Redis for a request of an
  earlier second arrives when the user's slot already holds a later, exhausted window, the
  exchange replaces that window, and the user's next request of the later second is admitted
  again although the limit was already used up.
\<close>
lemma late_sync_forgets_window:
  assumes "sm_max_rps m < of_int fleet_count" and "unat (sm_max_rps m) + 1 < 2 ^ 32"
    and "sm_window_ts m \<noteq> now" and "max_rps \<noteq> 0" and "sm_user_key m \<noteq> []"
    and "rl_table st (bucket_slot fx (sm_user_key m)) = pack_window now (ucast max_rps)"
    and "rl_table st' = fst (rl_sync_result fx Calm m (Inr fleet_count) (rl_table st, ctr))"
  shows "fst (check_rate_limit fx env [] now max_rps (Some (sm_user_key m)) st) = False
       \<and> fst (check_rate_limit fx env [] now max_rps (Some (sm_user_key m)) st') = True"
proof -
  have "rl_table st' (bucket_slot fx (sm_user_key m)) = pack_window (sm_window_ts m) (sm_max_rps m + 1)"
    using assms(1) unfolding assms(7)
    by (simp add: rl_sync_result_def Let_def rl_saturate_def saturated_word [OF assms(2)])
  then show ?thesis
    using assms(3,6) by (simp add: check_rate_limit_calm [OF assms(4,5)] window_hit_def window_next_def)
qed

lemma late_sync_forgets_window_witness:
  "fst (check_rate_limit (\<lambda>_. 42) (\<lambda>_. None) [] 8 10 (Some ''carol'')
     \<lparr>rl_table = fst (rl_sync_result (\<lambda>_. 42) Calm demo_msg (Inr 11)
        (\<lambda>_. pack_window 8 10, \<lparr>syncs_ok = 0, syncs_err = 0\<rparr>)), rl_tx = None\<rparr>) = True"
  using late_sync_forgets_window [of demo_msg 11 8 10 "\<lparr>rl_table = (\<lambda>_. pack_window 8 10), rl_tx = None\<rparr>" "\<lambda>_. 42"
      "\<lparr>rl_table = fst (rl_sync_result (\<lambda>_. 42) Calm demo_msg (Inr 11)
        (\<lambda>_. pack_window 8 10, \<lparr>syncs_ok = 0, syncs_err = 0\<rparr>)), rl_tx = None\<rparr>" "\<lparr>syncs_ok = 0, syncs_err = 0\<rparr>" "\<lambda>_. None"]
  by (simp add: demo_msg_def)

text \<open>The fleet counter is incremented exactly once per successful synchronisation, also when the
  script cache of the server was flushed. Assumed of Redis: a script that ran incremented the
  counter once and returned its new value, a \<open>NOSCRIPT\<close> error means that nothing ran, and loading
  a script changes no counter.
\<close>
lemma fleet_count_incremented_once:
  assumes "\<And>sha w c w'. api_evalsha api sha key ttl w = (Inr c, w') \<Longrightarrow> counter w' = counter w + 1 \<and> c = counter w'"
    and "\<And>sha w e w'. api_evalsha api sha key ttl w = (Inl e, w') \<Longrightarrow> contains_str (snd e) ''NOSCRIPT'' \<Longrightarrow> counter w' = counter w"
    and "\<And>w. counter (snd (api_script_load api w)) = counter w"
    and "\<And>w c w'. api_eval api key ttl w = (Inr c, w') \<Longrightarrow> counter w' = counter w + 1 \<and> c = counter w'"
    and "evalsha_or_eval api key ttl (sha, w) = (Inr c, sha', w')"
  shows "counter w' = counter w + 1 \<and> c = counter w'"
proof -
  have load: "counter v' = counter v + 1 \<and> d = counter v'"
    if "load_and_eval api key ttl (s, v) = (Inr d, s', v')" for s v d s' v'
    using that assms(3) [of v]
    by (auto simp: load_and_eval_def split: prod.splits sum.splits dest!: assms(4))
  show ?thesis
  proof (cases sha)
    case None
    then have "load_and_eval api key ttl (None, w) = (Inr c, sha', w')"
      using assms(5) by (simp add: evalsha_or_eval_def)
    then show ?thesis by (rule load)
  next
    case (Some s)
    then show ?thesis
      using assms(1,2,5) load
      by (auto simp: evalsha_or_eval_def split: prod.splits sum.splits if_splits) fastforce+
  qed
qed

definition demo_redis :: "(bool \<times> int) redis_api" where
  "demo_redis = \<lparr>api_evalsha = (\<lambda>sha key ttl w. if fst w then (Inr (snd w + 1), (True, snd w + 1))
                                  else (Inl (ResponseError, ''NOSCRIPT No matching script''), w)),
     api_script_load = (\<lambda>w. (Inr ''sha'', (True, snd w))),
     api_eval = (\<lambda>key ttl w. (Inr (snd w + 1), (fst w, snd w + 1))),
     api_open_conn = (\<lambda>w. (True, w))\<rparr>"

lemma fleet_count_incremented_once_witness:
  "snd (snd (snd (evalsha_or_eval demo_redis ''gateway:rl:u'' 2 (Some ''sha'', (False, 4))))) = 5"
proof -
  have "evalsha_or_eval demo_redis ''gateway:rl:u'' 2 (Some ''sha'', (False, 4)) = (Inr 5, Some ''sha'', (True, 5))"
    by (simp add: evalsha_or_eval_def load_and_eval_def demo_redis_def)
  then have "snd (True, 5 :: int) = snd (False, 4 :: int) + 1 \<and> 5 = snd (True, 5 :: int)"
    by (rule fleet_count_incremented_once [where counter = snd and api = demo_redis and key = "''gateway:rl:u''" and ttl = 2, rotated 4])
      (auto simp: demo_redis_def split: if_splits)
  with \<open>evalsha_or_eval demo_redis ''gateway:rl:u'' 2 (Some ''sha'', (False, 4)) = (Inr 5, Some ''sha'', (True, 5))\<close>
  show ?thesis by simp
qed

end
