(* ===== verification/Health.thy ===== *)
theory Health
  imports Config
begin

text \<open>
  Active health checks, \<open>rust-ext/src/health.rs\<close>: the shared slots with their lazy optimistic
  initialisation, the threshold transition of one probe, the probing cycle over all configured
  addresses, and the queries. A probe's HTTP exchange is a parameter: the status code of the
  answer, or none. The shared memory starts zeroed.
\<close>

definition HEALTH_SLOTS :: nat where [simp]: "HEALTH_SLOTS = 4096"

record UpstreamHealth =
  uh_healthy :: int
  uh_consec_fails :: u32
  uh_consec_oks :: u32
  uh_last_check_ms :: u64

definition fresh_health :: UpstreamHealth where
  "fresh_health = \<lparr>uh_healthy = 0, uh_consec_fails = 0, uh_consec_oks = 0, uh_last_check_ms = 0\<rparr>"

type_synonym health_shm = "nat \<Rightarrow> UpstreamHealth"

definition health_index :: "(string \<Rightarrow> u64) \<Rightarrow> string \<Rightarrow> nat" where
  "health_index fx address = unat (fx address mod of_nat HEALTH_SLOTS)"

text \<open>\<open>slot\<close>: seeds a slot that was never probed, and returns it.\<close>

definition seed :: "UpstreamHealth \<Rightarrow> UpstreamHealth" where
  "seed s = (if uh_last_check_ms s = 0 \<and> uh_healthy s = 0 then s\<lparr>uh_healthy := 1\<rparr> else s)"

definition slot_touch :: "(string \<Rightarrow> u64) \<Rightarrow> string \<Rightarrow> health_shm \<Rightarrow> UpstreamHealth \<times> health_shm" where
  "slot_touch fx address shm =
     (let i = health_index fx address; s = seed (shm i) in (s, shm(i := s)))"

definition is_healthy :: "(string \<Rightarrow> u64) \<Rightarrow> string \<Rightarrow> health_shm \<Rightarrow> bool \<times> health_shm" where
  "is_healthy fx address shm =
     (case slot_touch fx address shm of (s, shm') \<Rightarrow> (uh_healthy s = 1, shm'))"

section \<open>One probe\<close>

definition apply_probe :: "u64 \<Rightarrow> bool \<Rightarrow> u32 \<Rightarrow> u32 \<Rightarrow> UpstreamHealth \<Rightarrow> bool option \<times> UpstreamHealth" where
  "apply_probe now ok unhealthy_threshold healthy_threshold h0 =
     (let h = h0\<lparr>uh_last_check_ms := now\<rparr>; was = (uh_healthy h = 1) in
      if ok then
        (let oks = uh_consec_oks h + 1; h1 = h\<lparr>uh_consec_fails := 0, uh_consec_oks := oks\<rparr> in
         if \<not> was \<and> max healthy_threshold 1 \<le> oks then (Some True, h1\<lparr>uh_healthy := 1\<rparr>) else (None, h1))
      else
        (let fails = uh_consec_fails h + 1; h1 = h\<lparr>uh_consec_oks := 0, uh_consec_fails := fails\<rparr> in
         if was \<and> max unhealthy_threshold 1 \<le> fails then (Some False, h1\<lparr>uh_healthy := 0\<rparr>) else (None, h1)))"

definition probe_ok :: "nat option \<Rightarrow> bool" where
  "probe_ok status = (case status of Some code \<Rightarrow> code < 500 \<and> code \<noteq> 503 | None \<Rightarrow> False)"

definition normalize_url :: "string \<Rightarrow> string \<Rightarrow> string" where
  "normalize_url address path =
     (let p = (if starts_with path ''/'' then path else ''/'' @ path) in
      if starts_with address ''http://'' \<or> starts_with address ''https://''
      then address @ p else ''http://'' @ address @ p)"

section \<open>The cycle\<close>

record health_state =
  hs_shm :: health_shm
  hs_registry :: "string list"
  hs_checks_total :: u64
  hs_check_failures_total :: u64

text \<open>The addresses in the order the maps are iterated; that order is a parameter.\<close>

fun add_new :: "string list \<Rightarrow> string list \<Rightarrow> string list" where
  "add_new known [] = known"
| "add_new known (a # as) = add_new (if a \<in> set known then known else known @ [a]) as"

definition probe_one ::
    "(string \<Rightarrow> u64) \<Rightarrow> HealthCheckConfig \<Rightarrow> (string \<Rightarrow> nat option) \<Rightarrow> u64 \<Rightarrow> string \<Rightarrow> health_state \<Rightarrow> health_state" where
  "probe_one fx cfg get now addr st =
     (let ok = probe_ok (get (normalize_url addr (hc_path cfg)));
          (s, shm) = slot_touch fx addr (hs_shm st);
          (_, s') = apply_probe now ok (hc_unhealthy_threshold cfg) (hc_healthy_threshold cfg) s in
      st\<lparr>hs_shm := shm(health_index fx addr := s'),
         hs_checks_total := hs_checks_total st + 1,
         hs_check_failures_total := hs_check_failures_total st + (if ok then 0 else 1)\<rparr>)"

text \<open>
  One cycle: nothing while checking is not configured or disabled; otherwise every distinct
  address is registered and probed once (\<open>clock\<close> gives the time at each probe).
\<close>

definition probe_cycle ::
    "(string \<Rightarrow> u64) \<Rightarrow> HealthCheckConfig option \<Rightarrow> string list \<Rightarrow> (string \<Rightarrow> nat option) \<Rightarrow> (string \<Rightarrow> u64)
     \<Rightarrow> health_state \<Rightarrow> health_state" where
  "probe_cycle fx cfg_opt addresses get clock st =
     (case cfg_opt of
        None \<Rightarrow> st
      | Some cfg \<Rightarrow>
          if \<not> hc_enabled cfg then st
          else
            (let addrs = add_new [] addresses in
             fold (\<lambda>a. probe_one fx cfg get (clock a) a) addrs
               (st\<lparr>hs_registry := add_new (hs_registry st) addrs\<rparr>)))"

section \<open>Queries\<close>

fun count_down :: "(string \<Rightarrow> u64) \<Rightarrow> string list \<Rightarrow> health_shm \<Rightarrow> nat \<times> health_shm" where
  "count_down fx [] shm = (0, shm)"
| "count_down fx (a # as) shm =
     (case is_healthy fx a shm of (up, shm1) \<Rightarrow>
        (case count_down fx as shm1 of (n, shm2) \<Rightarrow> ((if up then n else n + 1), shm2)))"

definition down_ratio :: "(string \<Rightarrow> u64) \<Rightarrow> health_state \<Rightarrow> f64 \<times> health_state" where
  "down_ratio fx st =
     (if hs_registry st = [] then (Fin 0, st)
      else case count_down fx (hs_registry st) (hs_shm st) of
        (down, shm) \<Rightarrow> (f_div (f_of_nat down) (f_of_nat (length (hs_registry st))), st\<lparr>hs_shm := shm\<rparr>))"

definition escape_label :: "string \<Rightarrow> string" where
  "escape_label v =
     replace_char (CHR 0x0A) [CHR 0x5C, CHR ''n'']
       (replace_char (CHR 0x22) [CHR 0x5C, CHR 0x22] (replace_char (CHR 0x5C) [CHR 0x5C, CHR 0x5C] v))"

section \<open>Properties\<close>

text \<open>Runs of probes on one slot, with the thresholds of the configuration.\<close>

definition probes :: "u32 \<Rightarrow> u32 \<Rightarrow> UpstreamHealth \<Rightarrow> (u64 \<times> bool) list \<Rightarrow> UpstreamHealth" where
  "probes ut ht = run (\<lambda>h (now, ok). snd (apply_probe now ok ut ht h))"

definition streak :: "bool \<Rightarrow> (u64 \<times> bool) list \<Rightarrow> nat" where
  "streak b ps = length (takeWhile (\<lambda>p. snd p = b) (rev ps))"

lemma streak_snoc: "streak b (ps @ [(t, ok)]) = (if ok = b then streak b ps + 1 else 0)"
  by (simp add: streak_def)

lemma streak_Nil [simp]: "streak b [] = 0"
  by (simp add: streak_def)

lemma streak_le: "streak b ps \<le> length ps"
  unfolding streak_def by (metis length_rev length_takeWhile_le)

text \<open>
  The specification: an address is down after \<open>ut\<close> failures in a row and up again after \<open>ht\<close>
  successes in a row.
\<close>

fun spec_up :: "nat \<Rightarrow> nat \<Rightarrow> bool \<Rightarrow> (u64 \<times> bool) list \<Rightarrow> (u64 \<times> bool) list \<Rightarrow> bool" where
  "spec_up ut ht up seen [] = up"
| "spec_up ut ht up seen (p # ps) =
     (let seen' = seen @ [p] in
      spec_up ut ht (if up then \<not> (ut \<le> streak False seen') else ht \<le> streak True seen') seen' ps)"

lemma unat_max1: "unat (max (w :: u32) 1) = max (unat w) 1"
  by (auto simp: max_def word_le_nat_alt)

lemma health_refines:
  assumes "unat (uh_consec_fails h) = streak False seen" and "unat (uh_consec_oks h) = streak True seen"
    and "uh_healthy h = (if up then 1 else 0)" and "length seen + length ps < 2 ^ 32"
  shows "(uh_healthy (probes ut ht h ps) = 1)
       = spec_up (max (unat ut) 1) (max (unat ht) 1) up seen ps"
  using assms
proof (induction ps arbitrary: h up seen)
  case Nil
  then show ?case by (simp add: probes_def)
next
  case (Cons p ps)
  obtain t ok where p: "p = (t, ok)" by (cases p)
  let ?h = "snd (apply_probe t ok ut ht h)" and ?seen = "seen @ [p]"
  let ?up = "if up then \<not> (max (unat ut) 1 \<le> streak False ?seen) else max (unat ht) 1 \<le> streak True ?seen"
  have b: "streak False seen < 2 ^ 32 - 1" "streak True seen < 2 ^ 32 - 1"
    using streak_le [of False seen] streak_le [of True seen] Cons.prems(4) by simp_all
  have fu: "unat (uh_consec_fails h + 1) = streak False seen + 1"
    using b(1) Cons.prems(1) by (simp add: unat_Suc_word)
  have ou: "unat (uh_consec_oks h + 1) = streak True seen + 1"
    using b(2) Cons.prems(2) by (simp add: unat_Suc_word)
  have "unat (uh_consec_fails ?h) = streak False ?seen" "unat (uh_consec_oks ?h) = streak True ?seen"
    using fu ou by (simp_all add: p apply_probe_def Let_def streak_snoc)
  moreover have "uh_healthy ?h = (if ?up then 1 else 0)"
    using fu ou Cons.prems(3) by (cases ok) (auto simp: p apply_probe_def Let_def streak_snoc word_le_nat_alt unat_max1)
  moreover have "length ?seen + length ps < 2 ^ 32" using Cons.prems(4) by simp
  ultimately have "(uh_healthy (probes ut ht ?h ps) = 1)
       = spec_up (max (unat ut) 1) (max (unat ht) 1) ?up ?seen ps"
    by (rule Cons.IH)
  then show ?case by (simp add: probes_def p Let_def)
qed

text \<open>(C36)
  Thresholds of the active checks. From a slot that was never probed, after any sequence of
  fewer than \<open>2^32\<close> probes an address is up exactly when the specification says so: it starts up,
  goes down with the \<open>unhealthy_threshold\<close>-th failure in a row and comes back with the
  \<open>healthy_threshold\<close>-th success in a row (a threshold of zero acting as one).
\<close>
theorem health_thresholds:
  assumes "length ps < 2 ^ 32"
  shows "(uh_healthy (probes ut ht (seed fresh_health) ps) = 1)
       = spec_up (max (unat ut) 1) (max (unat ht) 1) True [] ps"
  using assms by (intro health_refines) (simp_all add: seed_def fresh_health_def)

theorem health_thresholds_witness:
  "uh_healthy (probes 2 1 (seed fresh_health) [(5, False), (6, False), (7, True)]) = 1"
  using health_thresholds [of "[(5, False), (6, False), (7, True)]" 2 1]
  by (simp add: streak_def)

end
