(* ===== verification/Load_Balancing.thy ===== *)
theory Load_Balancing
  imports Circuit_Breaker Health
begin

text \<open>
  Upstream selection, \<open>rust-ext/src/load_balancing/\<close> (\<open>ema.rs\<close>, \<open>ring.rs\<close>, \<open>selector.rs\<close>): the latency
  averages of a worker, the weighted ring, the choice of two with its scores, the fail-over walk
  and the canary split. Asking whether an upstream is usable touches the shared breakers and the
  shared health slots, so selection passes that state along.
\<close>

section \<open>Latency averages\<close>

record UpstreamStats =
  ema_latency_us :: f64
  request_count :: u64

definition UpstreamStats_new :: UpstreamStats where
  "UpstreamStats_new = \<lparr>ema_latency_us = Fin 0, request_count = 0\<rparr>"

definition ALPHA :: f64 where
  "ALPHA = lit (1 / 10)"

definition stats_update :: "f64 \<Rightarrow> UpstreamStats \<Rightarrow> UpstreamStats" where
  "stats_update latency_us s =
     \<lparr>ema_latency_us = (if request_count s = 0 then latency_us
        else f_add (f_mul ALPHA latency_us) (f_mul (f_sub (Fin 1) ALPHA) (ema_latency_us s))),
      request_count = request_count s + 1\<rparr>"

definition ema_or_max :: "UpstreamStats \<Rightarrow> f64" where
  "ema_or_max s = (if request_count s < 10 then F64_MAX else ema_latency_us s)"

type_synonym ema_table = "string \<rightharpoonup> UpstreamStats"

definition record_upstream_latency :: "string \<Rightarrow> u64 \<Rightarrow> ema_table \<Rightarrow> ema_table" where
  "record_upstream_latency upstream latency_us t =
     t(upstream \<mapsto> stats_update (f_of_word latency_us)
        (case t upstream of Some s \<Rightarrow> s | None \<Rightarrow> UpstreamStats_new))"

definition get_ema :: "ema_table \<Rightarrow> string \<Rightarrow> f64" where
  "get_ema t upstream = (case t upstream of Some s \<Rightarrow> ema_or_max s | None \<Rightarrow> F64_MAX)"

section \<open>The weighted ring\<close>

fun ring_from :: "nat \<Rightarrow> usize list \<Rightarrow> nat list" where
  "ring_from i [] = []"
| "ring_from i (w # ws) = replicate (unat (max w 1)) i @ ring_from (Suc i) ws"

definition build_weight_ring_positions :: "usize list \<Rightarrow> nat list" where
  "build_weight_ring_positions weights = ring_from 0 weights"

definition build_weight_ring :: "Upstream list \<Rightarrow> nat list" where
  "build_weight_ring ups = build_weight_ring_positions (map (\<lambda>u. max (up_weight u) 1) ups)"

definition fx_hash_index :: "(string \<Rightarrow> u64) \<Rightarrow> string \<Rightarrow> nat \<Rightarrow> nat" where
  "fx_hash_index fx key len = (if len = 0 then 0 else unat (fx key) mod len)"

section \<open>Usable upstreams\<close>

record lb_state =
  lb_cb :: cb_shm
  lb_health :: health_shm

text \<open>
  An upstream is usable when its breaker lets it through and the active checks consider it up;
  the second question is only asked after a favourable first answer.
  The code reads the clock, in whole seconds, for every breaker it asks; a selection is taken to
  happen within one second, so \<open>now\<close> is the same for all of them.
\<close>

definition usable :: "(string \<Rightarrow> u64) \<Rightarrow> u64 \<Rightarrow> string \<Rightarrow> lb_state \<Rightarrow> bool \<times> lb_state" where
  "usable fx now addr st =
     (case is_upstream_open fx now addr (lb_cb st) of
        (True, cb) \<Rightarrow> (False, st\<lparr>lb_cb := cb\<rparr>)
      | (False, cb) \<Rightarrow>
          (case is_healthy fx addr (lb_health st) of
             (up, hs) \<Rightarrow> (up, st\<lparr>lb_cb := cb, lb_health := hs\<rparr>)))"

fun collect_healthy_from ::
    "(string \<Rightarrow> u64) \<Rightarrow> u64 \<Rightarrow> Upstream list \<Rightarrow> nat list \<Rightarrow> nat set \<Rightarrow> nat set \<Rightarrow> lb_state \<Rightarrow> nat set \<times> lb_state" where
  "collect_healthy_from fx now pool [] seen healthy st = (healthy, st)"
| "collect_healthy_from fx now pool (pos # ring) seen healthy st =
     (if pos \<in> seen then collect_healthy_from fx now pool ring seen healthy st
      else
        (case usable fx now (up_address (pool ! pos)) st of
           (ok, st') \<Rightarrow>
             collect_healthy_from fx now pool ring (insert pos seen)
               (if ok then insert pos healthy else healthy) st'))"

definition collect_healthy_distinct ::
    "(string \<Rightarrow> u64) \<Rightarrow> u64 \<Rightarrow> Upstream list \<Rightarrow> nat list \<Rightarrow> lb_state \<Rightarrow> nat set \<times> lb_state" where
  "collect_healthy_distinct fx now pool ring st = collect_healthy_from fx now pool ring {} {} st"

section \<open>The choice of two\<close>

definition P2C_LATENCY_ADVANTAGE :: f64 where
  "P2C_LATENCY_ADVANTAGE = lit (8 / 10)"

definition p2c_score :: "f64 \<Rightarrow> u8 \<Rightarrow> f64" where
  "p2c_score ema confidence =
     f_mul ema (f_add (Fin 1) (f_div (f_sub (Fin 100) (f_of_word confidence)) (Fin 50)))"

definition pick_p2c ::
    "(string \<Rightarrow> u64) \<Rightarrow> ema_table \<Rightarrow> cb_shm \<Rightarrow> Upstream list \<Rightarrow> nat list \<Rightarrow> nat \<Rightarrow> nat \<Rightarrow> nat set \<Rightarrow> nat option" where
  "pick_p2c fx emas cb pool ring primary_slot alt_slot healthy =
     (let a = ring ! (primary_slot mod length ring); b = ring ! (alt_slot mod length ring);
          a_ok = (a \<in> healthy); b_ok = (b \<in> healthy) in
      if a_ok \<and> b_ok \<and> a \<noteq> b then
        (let addr_a = up_address (pool ! a); addr_b = up_address (pool ! b);
             ema_a = get_ema emas addr_a; ema_b = get_ema emas addr_b;
             score_a = p2c_score ema_a (get_confidence fx cb addr_a);
             score_b = p2c_score ema_b (get_confidence fx cb addr_b) in
         if f_le F64_MAX ema_a \<and> f_le F64_MAX ema_b then Some a
         else if f_lt score_b (f_mul score_a P2C_LATENCY_ADVANTAGE) then Some b
         else if f_lt score_a (f_mul score_b P2C_LATENCY_ADVANTAGE) then Some a
         else if f_lt (f_abs (f_sub score_a score_b)) F64_EPSILON then Some a
         else if f_lt score_b score_a then Some b
         else Some a)
      else if a_ok then Some a
      else if b_ok then Some b
      else None)"

text \<open>The fail-over walk along the ring from the primary slot.\<close>

fun failover_walk :: "nat list \<Rightarrow> nat \<Rightarrow> nat set \<Rightarrow> nat list \<Rightarrow> nat option" where
  "failover_walk ring primary healthy [] = None"
| "failover_walk ring primary healthy (off # offs) =
     (let pos = ring ! ((primary + off) mod length ring) in
      if pos \<in> healthy then Some pos else failover_walk ring primary healthy offs)"

definition select_from ::
    "(string \<Rightarrow> u64) \<Rightarrow> u64 \<Rightarrow> ema_table \<Rightarrow> Upstream list \<Rightarrow> string option \<Rightarrow> lb_state \<Rightarrow> string option \<times> lb_state" where
  "select_from fx now emas pool user_id st =
     (if pool = [] then (None, st)
      else
        (let hash_key = (case user_id of Some u \<Rightarrow> u | None \<Rightarrow> ''anonymous'');
             ring = build_weight_ring_positions (map (\<lambda>u. max (up_weight u) 1) pool);
             primary_slot = fx_hash_index fx hash_key (length ring);
             alt_slot = fx_hash_index fx (hash_key @ '':p2c'') (length ring) in
         case collect_healthy_distinct fx now pool ring st of
           (healthy, st') \<Rightarrow>
             if healthy = {} then (None, st')
             else
               (case pick_p2c fx emas (lb_cb st') pool ring primary_slot alt_slot healthy of
                  Some pos \<Rightarrow> (Some (up_address (pool ! pos)), st')
                | None \<Rightarrow>
                    (map_option (\<lambda>pos. up_address (pool ! pos))
                       (failover_walk ring primary_slot healthy [0..<length ring]), st'))))"

section \<open>The canary split\<close>

definition or_else ::
    "('s \<Rightarrow> 'a option \<times> 's) \<Rightarrow> ('s \<Rightarrow> 'a option \<times> 's) \<Rightarrow> 's \<Rightarrow> 'a option \<times> 's" where
  "or_else f g s = (case f s of (Some x, s') \<Rightarrow> (Some x, s') | (None, s') \<Rightarrow> g s')"

definition canary_bucket_in :: "(string \<Rightarrow> u64) \<Rightarrow> CanaryPolicy \<Rightarrow> string option \<Rightarrow> bool" where
  "canary_bucket_in fx policy user_id =
     (let key = (case user_id of Some u \<Rightarrow> u | None \<Rightarrow> ''anonymous'');
          bucket = of_nat (fx_hash_index fx (key @ '':canary'') 10000) :: u32 in
      bucket < effective_percent policy * 100)"

definition select_upstream ::
    "(string \<Rightarrow> u64) \<Rightarrow> u64 \<Rightarrow> ema_table \<Rightarrow> ServiceConfig option \<Rightarrow> string \<Rightarrow> string option \<Rightarrow> string
     \<Rightarrow> lb_state \<Rightarrow> string option \<times> lb_state" where
  "select_upstream fx now emas service region user_id canary_hint st =
     (case service of
        None \<Rightarrow> (None, st)
      | Some svc \<Rightarrow>
          (case regional_upstreams svc region of
             None \<Rightarrow> (None, st)
           | Some ups \<Rightarrow>
               if ups = [] then (None, st)
               else
                 (case canary svc of
                    None \<Rightarrow> select_from fx now emas ups user_id st
                  | Some policy \<Rightarrow>
                      if cp_version policy = [] then select_from fx now emas ups user_id st
                      else
                        (let canary_refs = filter (\<lambda>u. up_version u = cp_version policy) ups;
                             stable_refs = filter (\<lambda>u. up_version u \<noteq> cp_version policy) ups in
                         if canary_refs = [] then select_from fx now emas stable_refs user_id st
                         else if stable_refs = [] then select_from fx now emas canary_refs user_id st
                         else if canary_hint = cp_version policy \<or> canary_bucket_in fx policy user_id
                         then or_else (select_from fx now emas canary_refs user_id)
                                (select_from fx now emas stable_refs user_id) st
                         else or_else (select_from fx now emas stable_refs user_id)
                                (select_from fx now emas canary_refs user_id) st))))"

section \<open>Asking is stable\<close>

text \<open>
  What the selector relies on: asking about one upstream may change the shared state, but never
  the answer to a later question of the same selection. From this law alone, a scan over any
  list of positions collects exactly the positions whose upstream was usable at its start.
\<close>

locale stable_queries =
  fixes ask :: "'a \<Rightarrow> 's \<Rightarrow> bool \<times> 's"
  assumes stable: "fst (ask b (snd (ask a s))) = fst (ask b s)"
begin

fun scan :: "('i \<Rightarrow> 'a) \<Rightarrow> 'i list \<Rightarrow> 'i set \<Rightarrow> 'i set \<Rightarrow> 's \<Rightarrow> 'i set \<times> 's" where
  "scan key [] seen acc s = (acc, s)"
| "scan key (p # ps) seen acc s =
     (if p \<in> seen then scan key ps seen acc s
      else (case ask (key p) s of (ok, s') \<Rightarrow>
              scan key ps (insert p seen) (if ok then insert p acc else acc) s'))"

lemma scan_collects:
  "fst (scan key ps seen acc s) = acc \<union> {p \<in> set ps - seen. fst (ask (key p) s)}"
proof (induction ps arbitrary: seen acc s)
  case (Cons p ps)
  show ?case
  proof (cases "p \<in> seen")
    case True
    then show ?thesis by (auto simp: Cons.IH)
  next
    case False
    obtain ok s' where a: "ask (key p) s = (ok, s')" by fastforce
    have st: "fst (ask x s') = fst (ask x s)" for x using stable [of x "key p" s] a by simp
    show ?thesis using False a by (cases ok) (auto simp: Cons.IH st)
  qed
qed simp

lemma scan_keeps_answers: "fst (ask b (snd (scan key ps seen acc s))) = fst (ask b s)"
proof (induction ps arbitrary: seen acc s)
  case (Cons p ps)
  obtain ok s' where a: "ask (key p) s = (ok, s')" by fastforce
  have "fst (ask b s') = fst (ask b s)" using stable [of b "key p" s] a by simp
  then show ?case by (simp add: a Cons.IH)
qed simp

end

lemma cb_open_idem: "fst (cb_is_open now (snd (cb_is_open now cb))) = fst (cb_is_open now cb)"
  unfolding cb_is_open_cases by (auto simp: cb_is_open_def is_open_env_def Let_def)

lemma is_upstream_open_stable:
  "fst (is_upstream_open fx now b (snd (is_upstream_open fx now a shm))) = fst (is_upstream_open fx now b shm)"
  by (simp add: is_upstream_open_def get_set_cb case_prod_beta cb_open_idem)
    (simp add: get_cb_def cb_open_idem)

lemma is_healthy_stable: "fst (is_healthy fx b (snd (is_healthy fx a shm))) = fst (is_healthy fx b shm)"
  by (simp add: is_healthy_def slot_touch_def Let_def seed_def)

lemma usable_fst:
  "fst (usable fx now a st) \<longleftrightarrow> \<not> fst (is_upstream_open fx now a (lb_cb st)) \<and> fst (is_healthy fx a (lb_health st))"
  by (auto simp: usable_def split: prod.splits bool.splits)

lemma usable_snd:
  "lb_cb (snd (usable fx now a st)) = snd (is_upstream_open fx now a (lb_cb st))
   \<and> (lb_health (snd (usable fx now a st)) = lb_health st
      \<or> lb_health (snd (usable fx now a st)) = snd (is_healthy fx a (lb_health st)))"
  by (auto simp: usable_def split: prod.splits bool.splits)

interpretation lbq: stable_queries "usable fx now" for fx now
proof
  fix a b s
  show "fst (usable fx now b (snd (usable fx now a s))) = fst (usable fx now b s)"
    using usable_snd [of fx now a s]
    by (auto simp: usable_fst is_upstream_open_stable is_healthy_stable)
qed

section \<open>Properties of the selector\<close>

lemma ring_from_set: "set (ring_from i ws) = {i ..< i + length ws}"
proof (induction ws arbitrary: i)
  case (Cons w ws)
  have "unat (max w 1) \<noteq> 0" by (auto simp: max_def word_le_nat_alt unat_eq_0)
  then show ?case by (auto simp: Cons.IH)
qed simp

lemma ring_set [simp]: "set (build_weight_ring_positions ws) = {..< length ws}"
  by (auto simp: build_weight_ring_positions_def ring_from_set)

lemma ring_from_count:
  "length (filter (\<lambda>x. x = j) (ring_from i ws)) = (if i \<le> j \<and> j < i + length ws then unat (max (ws ! (j - i)) 1) else 0)"
proof (induction ws arbitrary: i)
  case (Cons w ws)
  show ?case
  proof (cases "j = i")
    case False
    then have "(w # ws) ! (j - i) = ws ! (j - Suc i)" if "i \<le> j"
      using that by (metis Suc_diff_le Suc_leI diff_Suc_Suc le_neq_implies_less nth_Cons_Suc)
    then show ?thesis using False by (auto simp: Cons.IH)
  qed (simp add: Cons.IH filter_empty_conv ring_from_set)
qed simp

lemma collect_is_scan:
  "collect_healthy_from fx now pool ring seen healthy st
     = lbq.scan fx now (\<lambda>pos. up_address (pool ! pos)) ring seen healthy st"
  by (induction ring arbitrary: seen healthy st) (auto split: prod.splits)

lemma collect_healthy:
  "fst (collect_healthy_distinct fx now pool ring st)
     = {pos \<in> set ring. fst (usable fx now (up_address (pool ! pos)) st)}"
  by (simp add: collect_healthy_distinct_def collect_is_scan lbq.scan_collects)

lemma collect_keeps_answers:
  "fst (usable fx now b (snd (collect_healthy_distinct fx now pool ring st))) = fst (usable fx now b st)"
  by (simp add: collect_healthy_distinct_def collect_is_scan lbq.scan_keeps_answers)

lemma pick_p2c_healthy: "pick_p2c fx emas cb pool ring p a healthy = Some pos \<Longrightarrow> pos \<in> healthy"
  by (auto simp: pick_p2c_def Let_def split: if_splits)

lemma failover_walk_healthy: "failover_walk ring p healthy offs = Some pos \<Longrightarrow> pos \<in> healthy"
  by (induction offs) (auto simp: Let_def split: if_splits)

lemma failover_walk_None:
  "failover_walk ring p healthy offs = None \<longleftrightarrow> (\<forall>off \<in> set offs. ring ! ((p + off) mod length ring) \<notin> healthy)"
  by (induction offs) (auto simp: Let_def)

text \<open>The walk visits every slot of the ring, so it finds a healthy position when there is one.\<close>

lemma failover_walk_total:
  assumes "pos \<in> healthy" and "pos \<in> set ring"
  shows "failover_walk ring p healthy [0..<length ring] \<noteq> None"
proof -
  obtain i where i: "i < length ring" "ring ! i = pos" using assms(2) by (auto simp: in_set_conv_nth)
  let ?n = "length ring"
  let ?off = "(i + ?n - p mod ?n) mod ?n"
  have n: "0 < ?n" using i(1) by linarith
  have le: "p mod ?n \<le> i + ?n" using mod_less_divisor [OF n, of p] by linarith
  have "(p + ?off) mod ?n = (p mod ?n + (i + ?n - p mod ?n)) mod ?n" by (simp add: mod_simps)
  also have "\<dots> = i" using i(1) le by simp
  finally have "ring ! ((p + ?off) mod ?n) \<in> healthy" using i(2) assms(1) by simp
  moreover have "?off \<in> set [0..<?n]" using n by simp
  ultimately show ?thesis by (auto simp: failover_walk_None)
qed

text \<open>The set of addresses of a pool that a selection may return.\<close>

definition usable_addresses :: "(string \<Rightarrow> u64) \<Rightarrow> u64 \<Rightarrow> Upstream list \<Rightarrow> lb_state \<Rightarrow> string set" where
  "usable_addresses fx now pool st = {a \<in> up_address ` set pool. fst (usable fx now a st)}"

lemma select_from_keeps_answers:
  "fst (usable fx now b (snd (select_from fx now emas pool uid st))) = fst (usable fx now b st)"
  using collect_keeps_answers [of fx now b pool]
  by (auto simp: select_from_def Let_def split: prod.splits option.splits) (metis snd_conv)+

lemma select_from_usable:
  "case fst (select_from fx now emas pool uid st) of
     Some a \<Rightarrow> a \<in> usable_addresses fx now pool st
   | None \<Rightarrow> usable_addresses fx now pool st = {}"
proof (cases "pool = []")
  case True
  then show ?thesis by (simp add: select_from_def usable_addresses_def)
next
  case False
  let ?ring = "build_weight_ring_positions (map (\<lambda>u. max (up_weight u) 1) pool)"
  obtain healthy st' where c: "collect_healthy_distinct fx now pool ?ring st = (healthy, st')" by fastforce
  have h: "healthy = {pos. pos < length pool \<and> fst (usable fx now (up_address (pool ! pos)) st)}"
    using collect_healthy [of fx now pool ?ring st] c by auto
  have good: "up_address (pool ! pos) \<in> usable_addresses fx now pool st" if "pos \<in> healthy" for pos
    using that h by (auto simp: usable_addresses_def)
  have none: "usable_addresses fx now pool st = {}" if "healthy = {}"
    using that h by (auto simp: usable_addresses_def in_set_conv_nth)
  have walk: "healthy = {}" if "failover_walk ?ring p healthy [0..<length ?ring] = None" for p
    using that h failover_walk_total [of _ healthy ?ring p] by fastforce
  show ?thesis
    using False good none
    by (auto simp: select_from_def Let_def c split: option.splits
        dest: pick_p2c_healthy failover_walk_healthy walk)
qed

lemma or_else_usable:
  assumes "set canaries \<union> set stables = set ups"
  shows "case fst (or_else (select_from fx now emas canaries uid) (select_from fx now emas stables uid) st) of
           Some a \<Rightarrow> a \<in> usable_addresses fx now ups st
             \<and> (usable_addresses fx now canaries st \<noteq> {} \<longrightarrow> a \<in> usable_addresses fx now canaries st)
         | None \<Rightarrow> usable_addresses fx now ups st = {}"
proof -
  have u: "usable_addresses fx now ups st
      = usable_addresses fx now canaries st \<union> usable_addresses fx now stables st"
    using assms by (auto simp: usable_addresses_def)
  obtain r st' where f: "select_from fx now emas canaries uid st = (r, st')" by fastforce
  have keep: "usable_addresses fx now p st' = usable_addresses fx now p st" for p
    using select_from_keeps_answers [of fx now _ emas canaries uid st] f by (simp add: usable_addresses_def)
  show ?thesis
    using select_from_usable [of fx now canaries st emas uid] select_from_usable [of fx now stables st' emas uid]
    by (cases r) (auto simp: f u keep or_else_def split: option.splits)
qed

text \<open>The regional pool of a selection, and its two parts under a canary policy.\<close>

definition region_pool :: "ServiceConfig option \<Rightarrow> string \<Rightarrow> Upstream list" where
  "region_pool service region =
     (case service of None \<Rightarrow> [] | Some svc \<Rightarrow>
        (case regional_upstreams svc region of None \<Rightarrow> [] | Some ups \<Rightarrow> ups))"

lemma select_upstream_spec:
  "case fst (select_upstream fx now emas service region uid hint st) of
     Some a \<Rightarrow> a \<in> usable_addresses fx now (region_pool service region) st
   | None \<Rightarrow> usable_addresses fx now (region_pool service region) st = {}"
proof (cases "\<exists>svc ups. service = Some svc \<and> regional_upstreams svc region = Some ups \<and> ups \<noteq> []")
  case False
  then show ?thesis
    by (auto simp: select_upstream_def region_pool_def usable_addresses_def split: option.splits)
next
  case True
  then obtain svc ups where s: "service = Some svc" "regional_upstreams svc region = Some ups" "ups \<noteq> []"
    by blast
  have pool: "region_pool service region = ups" using s by (simp add: region_pool_def)
  note all = select_from_usable [of fx now ups st emas uid]
  show ?thesis
  proof (cases "canary svc")
    case None
    then show ?thesis using all s unfolding pool by (simp add: select_upstream_def)
  next
    case (Some policy)
    let ?c = "filter (\<lambda>u. up_version u = cp_version policy) ups"
    let ?s = "filter (\<lambda>u. up_version u \<noteq> cp_version policy) ups"
    have e: "?s = ups" if "?c = []" using that by (auto simp: filter_empty_conv filter_id_conv)
    have e': "?c = ups" if "?s = []" using that by (auto simp: filter_empty_conv filter_id_conv)
    have "set ?c \<union> set ?s = set ups" "set ?s \<union> set ?c = set ups" by auto
    note two = or_else_usable [OF this(1), of fx now st emas uid] or_else_usable [OF this(2), of fx now st emas uid]
    have eq: "select_upstream fx now emas service region uid hint st =
        (if cp_version policy = [] \<or> ?c = [] \<or> ?s = [] then select_from fx now emas ups uid st
         else if hint = cp_version policy \<or> canary_bucket_in fx policy uid
         then or_else (select_from fx now emas ?c uid) (select_from fx now emas ?s uid) st
         else or_else (select_from fx now emas ?s uid) (select_from fx now emas ?c uid) st)"
    proof (cases "?c = []")
      case True
      then show ?thesis using s Some e [OF True] by (simp add: select_upstream_def Let_def)
    next
      case False
      then show ?thesis
        using s Some e' by (cases "?s = []") (simp_all add: select_upstream_def Let_def)
    qed
    show ?thesis
      unfolding pool eq using all two by (simp split: option.splits)
  qed
qed

text \<open>(C13)
  Selection is sound and complete. An address is returned only if it belongs to an upstream
  configured for the service in the requested region whose breaker lets traffic through and
  which the active checks consider up; no address is returned only if no upstream of that
  region is usable, with or without a canary policy.
\<close>
theorem selected_upstream_usable:
  "case fst (select_upstream fx now emas service region uid hint st) of
     Some a \<Rightarrow> a \<in> usable_addresses fx now (region_pool service region) st
   | None \<Rightarrow> usable_addresses fx now (region_pool service region) st = {}"
  by (rule select_upstream_spec)

lemma canary_bucket_exact:
  "canary_bucket_in fx policy uid \<longleftrightarrow>
     unat (fx ((case uid of Some u \<Rightarrow> u | None \<Rightarrow> ''anonymous'') @ '':canary'')) mod 10000
       < min (unat (cp_percent policy)) 100 * 100"
proof -
  let ?b = "unat (fx ((case uid of Some u \<Rightarrow> u | None \<Rightarrow> ''anonymous'') @ '':canary'')) mod 10000"
  have e: "unat (effective_percent policy) = min (unat (cp_percent policy)) 100"
    by (auto simp: effective_percent_def min_def word_le_nat_alt)
  then have "unat (effective_percent policy * 100) = min (unat (cp_percent policy)) 100 * 100"
    by (subst unat_mult_lem [THEN iffD1]) auto
  moreover have "?b < 10000" by simp
  ultimately show ?thesis
    by (simp add: canary_bucket_in_def fx_hash_index_def Let_def word_less_nat_alt unat_of_nat_small)
qed

text \<open>The canary split. When both versions of a region have a usable upstream, the chosen address
  belongs to the canary exactly for the clients that carry the canary hint and those whose
  bucket (of 10000) lies below the policy's percentage, which is capped at 100: a policy of 0
  percent sends only hinted clients to the canary, one of 100 percent or more sends everyone.
\<close>
lemma canary_split:
  fixes policy :: CanaryPolicy
  defines "is_canary \<equiv> \<lambda>u. up_version u = cp_version policy"
  assumes "regional_upstreams svc region = Some ups" and "canary svc = Some policy" and "cp_version policy \<noteq> []"
    and "usable_addresses fx now (filter is_canary ups) st \<noteq> {}"
    and "usable_addresses fx now (filter (\<lambda>u. \<not> is_canary u) ups) st \<noteq> {}"
  shows "\<exists>a. fst (select_upstream fx now emas (Some svc) region uid hint st) = Some a
     \<and> a \<in> usable_addresses fx now
         (if hint = cp_version policy
             \<or> unat (fx ((case uid of Some u \<Rightarrow> u | None \<Rightarrow> ''anonymous'') @ '':canary'')) mod 10000
                 < min (unat (cp_percent policy)) 100 * 100
          then filter is_canary ups else filter (\<lambda>u. \<not> is_canary u) ups) st"
proof -
  let ?c = "filter is_canary ups" and ?s = "filter (\<lambda>u. \<not> is_canary u) ups"
  have ne: "ups \<noteq> []" "?c \<noteq> []" "?s \<noteq> []"
    using assms(5,6) by (auto simp: usable_addresses_def filter_empty_conv)
  have "set ?c \<union> set ?s = set ups" "set ?s \<union> set ?c = set ups" by auto
  note two = or_else_usable [OF this(1), of fx now st emas uid] or_else_usable [OF this(2), of fx now st emas uid]
  have "select_upstream fx now emas (Some svc) region uid hint st =
      (if hint = cp_version policy \<or> canary_bucket_in fx policy uid
       then or_else (select_from fx now emas ?c uid) (select_from fx now emas ?s uid) st
       else or_else (select_from fx now emas ?s uid) (select_from fx now emas ?c uid) st)"
    using ne assms(2-4) by (simp add: select_upstream_def Let_def is_canary_def)
  moreover have "usable_addresses fx now ups st \<noteq> {}"
    using assms(5) by (auto simp: usable_addresses_def)
  ultimately show ?thesis
    using two assms(5,6) unfolding canary_bucket_exact by (simp split: option.splits)
qed

lemma canary_split_witness:
  "\<exists>a. fst (select_upstream (\<lambda>_. 4000) 100 Map.empty
      (Some \<lparr>sc_name = ''default'', rate_limit_max = 1000,
        regional_upstreams = [''US'' \<mapsto> [\<lparr>up_name = ''s'', up_address = ''s:80'', up_weight = 9, up_version = ''stable''\<rparr>,
                                         \<lparr>up_name = ''c'', up_address = ''c:80'', up_weight = 1, up_version = ''v2''\<rparr>]],
        require_auth = False, canary = Some \<lparr>cp_version = ''v2'', cp_percent = 25\<rparr>, quota = None\<rparr>)
      ''US'' None '''' \<lparr>lb_cb = cb_init_shm, lb_health = \<lambda>_. fresh_health\<rparr>) = Some a \<and> a = ''s:80''"
  using canary_split [of
      "\<lparr>sc_name = ''default'', rate_limit_max = 1000,
        regional_upstreams = [''US'' \<mapsto> [\<lparr>up_name = ''s'', up_address = ''s:80'', up_weight = 9, up_version = ''stable''\<rparr>,
                                         \<lparr>up_name = ''c'', up_address = ''c:80'', up_weight = 1, up_version = ''v2''\<rparr>]],
        require_auth = False, canary = Some \<lparr>cp_version = ''v2'', cp_percent = 25\<rparr>, quota = None\<rparr>"
      "''US''" "[\<lparr>up_name = ''s'', up_address = ''s:80'', up_weight = 9, up_version = ''stable''\<rparr>,
                \<lparr>up_name = ''c'', up_address = ''c:80'', up_weight = 1, up_version = ''v2''\<rparr>]"
      "\<lparr>cp_version = ''v2'', cp_percent = 25\<rparr>" "\<lambda>_. 4000" 100
      "\<lparr>lb_cb = cb_init_shm, lb_health = \<lambda>_. fresh_health\<rparr>" Map.empty None "''''"]
  by (auto simp: usable_addresses_def usable_fst is_upstream_open_def cb_is_open_def is_open_env_def get_cb_def cb_init_shm_def
      fresh_cb_def is_healthy_def slot_touch_def seed_def fresh_health_def Let_def)

end
