(* ===== verification/Debt.thy ===== *)
theory Debt
  imports F64
begin

text \<open>
  The latency debt ledger, \<open>rust-ext/src/debt.rs\<close>: shared slots that accumulate the microseconds by
  which responses exceeded their budget and that decay with a half-life of 30 seconds. The power
  function of \<open>f64\<close> is the parameter \<open>powf\<close>. The shared memory starts zeroed.
\<close>

definition DEBT_HALF_LIFE_MS :: u64 where "DEBT_HALF_LIFE_MS = 30000"
definition DEBT_SLOTS :: nat where [simp]: "DEBT_SLOTS = 4096"

record UpstreamDebt =
  debt_us :: u64
  debt_last_update_ms :: u64

type_synonym debt_shm = "nat \<Rightarrow> UpstreamDebt"

definition debt_index :: "(string \<Rightarrow> u64) \<Rightarrow> string \<Rightarrow> nat" where
  "debt_index fx address = unat (fx address mod of_nat DEBT_SLOTS)"

definition apply_decay :: "(f64 \<Rightarrow> f64 \<Rightarrow> f64) \<Rightarrow> u64 \<Rightarrow> u64 \<Rightarrow> u64" where
  "apply_decay powf debt elapsed_ms =
     (if elapsed_ms = 0 then debt
      else
        (let half_lives = f_div (f_of_word elapsed_ms) (f_of_word DEBT_HALF_LIFE_MS) in
         f_to_word (f_mul (f_of_word debt) (powf (Fin (1 / 2)) half_lives))))"

definition observe_debt :: "(f64 \<Rightarrow> f64 \<Rightarrow> f64) \<Rightarrow> u64 \<Rightarrow> u64 \<Rightarrow> u64 \<Rightarrow> UpstreamDebt \<Rightarrow> UpstreamDebt" where
  "observe_debt powf now actual_us budget_us d =
     (let prior = debt_last_update_ms d;
          d1 = (if 0 < prior \<and> prior < now then d\<lparr>debt_us := apply_decay powf (debt_us d) (now - prior)\<rparr> else d);
          d2 = (if budget_us < actual_us
                then d1\<lparr>debt_us := min (debt_us d1 + (actual_us - budget_us)) 10000000\<rparr> else d1) in
      d2\<lparr>debt_last_update_ms := now\<rparr>)"

definition record_observation ::
    "(f64 \<Rightarrow> f64 \<Rightarrow> f64) \<Rightarrow> (string \<Rightarrow> u64) \<Rightarrow> u64 \<Rightarrow> string \<Rightarrow> u64 \<Rightarrow> u64 \<Rightarrow> debt_shm \<Rightarrow> debt_shm" where
  "record_observation powf fx now upstream actual_us budget_us shm =
     (let i = debt_index fx upstream in shm(i := observe_debt powf now actual_us budget_us (shm i)))"

definition read_debt :: "(f64 \<Rightarrow> f64 \<Rightarrow> f64) \<Rightarrow> (string \<Rightarrow> u64) \<Rightarrow> u64 \<Rightarrow> string \<Rightarrow> debt_shm \<Rightarrow> u64" where
  "read_debt powf fx now upstream shm =
     (let d = shm (debt_index fx upstream) in
      if debt_last_update_ms d = 0 then 0
      else apply_decay powf (debt_us d) (sat_sub now (debt_last_update_ms d)))"

section \<open>Properties\<close>

text \<open>What is used of the power function: a power of one half with exponent at least zero lies in the unit interval.\<close>

definition half_power :: "(f64 \<Rightarrow> f64 \<Rightarrow> f64) \<Rightarrow> bool" where
  "half_power powf \<longleftrightarrow> (\<forall>x. f_le (Fin 0) x \<longrightarrow> f_within 0 1 (powf (Fin (1 / 2)) x))"

lemma f_div_nonneg: "0 \<le> a \<Longrightarrow> 0 < b \<Longrightarrow> f_le (Fin 0) (f_div (Fin a) (Fin b))"
  using f64_of_mono [of 0 "a / b"] by (simp add: f64_of_def)

lemma f_to_word_le:
  assumes "x \<le> of_nat (unat w)"
  shows "(f_to_word (Fin x) :: 'a::len word) \<le> w"
proof (cases "x \<le> 0")
  case False
  have "of_nat (unat w) < (2 :: rat) ^ LENGTH('a)"
    using unsigned_less [of w] by (metis of_nat_less_iff of_nat_numeral of_nat_power)
  then have lt: "x < 2 ^ LENGTH('a)" using assms by linarith
  have "\<lfloor>x\<rfloor> \<le> int (unat w)" "0 \<le> \<lfloor>x\<rfloor>" using assms False by linarith+
  then obtain n where n: "\<lfloor>x\<rfloor> = int n" "n \<le> unat w" by (metis nonneg_int_cases of_nat_le_iff)
  have "unat w < 2 ^ LENGTH('a)" by (rule unsigned_less)
  then have "unat (of_nat n :: 'a word) = n" using n(2) by (intro unat_of_nat_small) linarith
  then have "(of_int \<lfloor>x\<rfloor> :: 'a word) \<le> w" using n by (simp add: word_le_nat_alt)
  then show ?thesis using False lt by simp
qed simp

lemma fl_nat_exact: "n \<le> 2 ^ 53 \<Longrightarrow> fl (of_nat n) = of_nat n"
  using fl_of_int_exact [of "int n"] by simp

lemma apply_decay_le:
  assumes "half_power powf" and "debt \<le> 10000000"
  shows "apply_decay powf debt elapsed \<le> debt"
proof (cases "elapsed = 0")
  case False
  let ?h = "f_div (f_of_word elapsed) (f_of_word DEBT_HALF_LIFE_MS)"
  have "unat debt \<le> 10000000" using assms(2) by (simp add: word_le_nat_alt)
  then have d: "f_of_word debt = Fin (of_nat (unat debt))" by (simp add: f_of_word_def f_of_nat_exact)
  have hl: "f_of_word DEBT_HALF_LIFE_MS = Fin 30000" by (simp add: f_of_word_def f_of_nat_exact DEBT_HALF_LIFE_MS_def)
  have "f_le (Fin 0) ?h"
    unfolding hl f_of_u64 [of elapsed] by (intro f_div_nonneg fl_nonneg of_nat_0_le_iff) simp
  then obtain p where p: "powf (Fin (1 / 2)) ?h = Fin p" "0 \<le> p" "p \<le> 1"
    using assms(1) unfolding half_power_def f_within_def by (cases "powf (Fin (1 / 2)) ?h") fastforce+
  let ?q = "of_nat (unat debt) * p"
  have q: "0 \<le> ?q" "?q \<le> of_nat (unat debt)" 
    by (rule mult_nonneg_nonneg [OF of_nat_0_le_iff p(2)], rule mult_left_le [OF p(3) of_nat_0_le_iff])
  have "(of_nat (unat debt) :: rat) \<le> of_nat 10000000" using \<open>unat debt \<le> 10000000\<close> by (rule of_nat_mono)
  then have "(of_nat (unat debt) :: rat) \<le> 2 ^ 100" by (rule order_trans) simp
  then have "?q \<le> 2 ^ 100" using q(2) by (rule order_trans [rotated])
  then have m: "f_mul (f_of_word debt) (powf (Fin (1 / 2)) ?h) = Fin (fl ?q)"
    using q(1) p(1) d by (simp add: f64_of_small)
  have "fl (of_nat (unat debt)) = of_nat (unat debt)"
    by (rule fl_nat_exact) (use \<open>unat debt \<le> 10000000\<close> in simp)
  then have "fl ?q \<le> of_nat (unat debt)" using fl_mono [OF q(2)] by simp
  then have "f_to_word (Fin (fl ?q)) \<le> debt" by (rule f_to_word_le)
  then show ?thesis using False m by (simp add: apply_decay_def)
qed (simp add: apply_decay_def)

lemma observe_debt_bounded:
  assumes "half_power powf" and "debt_us d \<le> 10000000"
  shows "debt_us (observe_debt powf now actual budget d) \<le> 10000000"
    and "actual \<le> budget \<Longrightarrow> debt_us (observe_debt powf now actual budget d) \<le> debt_us d"
  using apply_decay_le [OF assms, of "now - debt_last_update_ms d"] assms(2)
  by (auto simp: observe_debt_def Let_def intro: order_trans)

lemma read_debt_le:
  assumes "half_power powf" and "debt_us (shm (debt_index fx up)) \<le> 10000000"
  shows "read_debt powf fx now up shm \<le> debt_us (shm (debt_index fx up))"
  using apply_decay_le [OF assms] by (simp add: read_debt_def Let_def)

definition debt_step ::
    "(f64 \<Rightarrow> f64 \<Rightarrow> f64) \<Rightarrow> (string \<Rightarrow> u64) \<Rightarrow> debt_shm \<Rightarrow> u64 \<times> string \<times> u64 \<times> u64 \<Rightarrow> debt_shm" where
  "debt_step powf fx shm = (\<lambda>(now, up, actual, budget). record_observation powf fx now up actual budget shm)"

text \<open>Debt is bounded: from zeroed memory, after any observations of any upstreams at any times, no
  slot owes more than ten seconds and no reader sees more than that.
\<close>
lemma debt_bounded:
  assumes "half_power powf"
  shows "debt_us (run (debt_step powf fx) (\<lambda>_. \<lparr>debt_us = 0, debt_last_update_ms = 0\<rparr>) obs i) \<le> 10000000
    \<and> read_debt powf fx now up (run (debt_step powf fx) (\<lambda>_. \<lparr>debt_us = 0, debt_last_update_ms = 0\<rparr>) obs) \<le> 10000000"
proof -
  let ?shm = "run (debt_step powf fx) (\<lambda>_. \<lparr>debt_us = 0, debt_last_update_ms = 0\<rparr>) obs"
  have b: "\<forall>i. debt_us (?shm i) \<le> 10000000"
  proof (rule run_inv [where I = "\<lambda>shm. \<forall>i. debt_us (shm i) \<le> 10000000"])
    fix shm :: debt_shm and e assume "\<forall>i. debt_us (shm i) \<le> (10000000 :: u64)"
    then show "\<forall>i. debt_us (debt_step powf fx shm e i) \<le> 10000000"
      using observe_debt_bounded(1) [OF assms] by (auto simp: debt_step_def record_observation_def Let_def split: prod.splits)
  qed simp
  then show ?thesis using read_debt_le [OF assms, of ?shm fx up now] order_trans by blast
qed

lemma debt_bounded_witness:
  "debt_us (run (debt_step (\<lambda>_ _. Fin (1 / 2)) (\<lambda>_. 0)) (\<lambda>_. \<lparr>debt_us = 0, debt_last_update_ms = 0\<rparr>)
      [(1000, ''a:80'', 90000000, 60000000), (31000, ''a:80'', 10, 60000000)] 0) \<le> 10000000"
proof -
  have "half_power (\<lambda>_ _. Fin (1 / 2))" by (simp add: half_power_def f_within_def)
  from debt_bounded [OF this] show ?thesis by blast
qed

end
