(* ===== verification/Telemetry.thy ===== *)
theory Telemetry
  imports Gateway_Prelude
begin

text \<open>
  The shared metrics, \<open>rust-ext/src/telemetry.rs\<close>: the counters in shared memory, which start zeroed
  and wrap, the accounting of one finished request, and the snapshot the exporter takes. Every
  counter is one atomic addition; the additions of concurrent requests commute, so a sequence of
  requests stands for any interleaving of them. The status is an \<open>i32\<close>.
\<close>

definition HIST_BUCKETS_US :: "u64 list" where
  "HIST_BUCKETS_US = [100, 250, 500, 1000, 2500, 5000, 10000]"

definition NUM_BUCKETS :: nat where [simp]: "NUM_BUCKETS = 7"

record Metrics =
  requests_total :: u64
  requests_401 :: u64
  requests_429 :: u64
  requests_5xx :: u64
  latency_us_sum :: u64
  latency_us_count :: u64
  latency_buckets :: "u64 list"

definition metrics_zero :: Metrics where
  "metrics_zero = \<lparr>requests_total = 0, requests_401 = 0, requests_429 = 0, requests_5xx = 0,
     latency_us_sum = 0, latency_us_count = 0, latency_buckets = replicate NUM_BUCKETS 0\<rparr>"

record TelemetrySnapshot =
  ts_requests_total :: u64
  ts_requests_401 :: u64
  ts_requests_429 :: u64
  ts_requests_5xx :: u64
  ts_latency_us_sum :: u64
  ts_latency_us_count :: u64

definition telemetry_snapshot :: "Metrics \<Rightarrow> TelemetrySnapshot" where
  "telemetry_snapshot m = \<lparr>ts_requests_total = requests_total m, ts_requests_401 = requests_401 m,
     ts_requests_429 = requests_429 m, ts_requests_5xx = requests_5xx m,
     ts_latency_us_sum = latency_us_sum m, ts_latency_us_count = latency_us_count m\<rparr>"

definition count_buckets :: "u64 \<Rightarrow> u64 list \<Rightarrow> u64 list" where
  "count_buckets lat bs = map2 (\<lambda>bound b. if lat \<le> bound then b + 1 else b) HIST_BUCKETS_US bs"

definition count_status :: "int \<Rightarrow> Metrics \<Rightarrow> Metrics" where
  "count_status status m =
     (if status = 401 then m\<lparr>requests_401 := requests_401 m + 1\<rparr>
      else if status = 429 then m\<lparr>requests_429 := requests_429 m + 1\<rparr>
      else if 500 \<le> status \<and> status \<le> 599 then m\<lparr>requests_5xx := requests_5xx m + 1\<rparr>
      else m)"

definition record_request :: "int \<Rightarrow> usize \<Rightarrow> Metrics \<Rightarrow> Metrics" where
  "record_request status latency_us m =
     count_status status
       (m\<lparr>requests_total := requests_total m + 1, latency_us_sum := latency_us_sum m + latency_us,
          latency_us_count := latency_us_count m + 1,
          latency_buckets := count_buckets latency_us (latency_buckets m)\<rparr>)"

section \<open>Properties\<close>

definition request_step :: "Metrics \<Rightarrow> int \<times> usize \<Rightarrow> Metrics" where
  "request_step m = (\<lambda>(status, lat). record_request status lat m)"

definition counted :: "('a \<Rightarrow> bool) \<Rightarrow> 'a list \<Rightarrow> u64" where
  "counted P es = of_nat (length (filter P es))"

lemma counted_simps [simp]:
  "counted P [] = 0" "counted P (e # es) = (if P e then 1 else 0) + counted P es"
  by (simp_all add: counted_def)

lemma record_request_fields:
  "requests_total (record_request st lat m) = requests_total m + 1"
  "latency_us_count (record_request st lat m) = latency_us_count m + 1"
  "latency_us_sum (record_request st lat m) = latency_us_sum m + lat"
  "requests_401 (record_request st lat m) = (if st = 401 then 1 else 0) + requests_401 m"
  "requests_429 (record_request st lat m) = (if st = 429 then 1 else 0) + requests_429 m"
  "requests_5xx (record_request st lat m) = (if 500 \<le> st \<and> st \<le> 599 then 1 else 0) + requests_5xx m"
  "latency_buckets (record_request st lat m) = count_buckets lat (latency_buckets m)"
  by (simp_all add: record_request_def count_status_def)

lemma count_buckets_nth:
  "i < 7 \<Longrightarrow> length bs = 7 \<Longrightarrow>
     count_buckets lat bs ! i = (if lat \<le> HIST_BUCKETS_US ! i then 1 else 0) + bs ! i"
  by (simp add: count_buckets_def HIST_BUCKETS_US_def)

lemma count_buckets_length [simp]: "length bs = 7 \<Longrightarrow> length (count_buckets lat bs) = 7"
  by (simp add: count_buckets_def HIST_BUCKETS_US_def)

lemma run_buckets:
  assumes "length (latency_buckets m) = 7"
  shows "length (latency_buckets (run request_step m es)) = 7
    \<and> (i < 7 \<longrightarrow> latency_buckets (run request_step m es) ! i
         = latency_buckets m ! i + counted (\<lambda>e. snd e \<le> HIST_BUCKETS_US ! i) es)"
  using assms
proof (induction es arbitrary: m)
  case (Cons e es)
  obtain st lat where e: "e = (st, lat)" by (cases e)
  show ?case
    using Cons.IH [of "record_request st lat m"] Cons.prems
    by (auto simp: e request_step_def record_request_fields count_buckets_nth)
qed simp

lemma run_counters:
  "requests_total (run request_step m es) = requests_total m + of_nat (length es)"
  "latency_us_count (run request_step m es) = latency_us_count m + of_nat (length es)"
  "latency_us_sum (run request_step m es) = latency_us_sum m + sum_list (map snd es)"
  "requests_401 (run request_step m es) = requests_401 m + counted (\<lambda>e. fst e = 401) es"
  "requests_429 (run request_step m es) = requests_429 m + counted (\<lambda>e. fst e = 429) es"
  "requests_5xx (run request_step m es) = requests_5xx m + counted (\<lambda>e. 500 \<le> fst e \<and> fst e \<le> 599) es"
  by (induction es arbitrary: m) (auto simp: request_step_def record_request_fields algebra_simps)

lemma run_bucket_count:
  assumes "length es < 2 ^ 64" and "i < 7"
  shows "unat (latency_buckets (run request_step metrics_zero es) ! i)
    = length (filter (\<lambda>e. snd e \<le> HIST_BUCKETS_US ! i) es)"
proof -
  have "latency_buckets (run request_step metrics_zero es) ! i
      = of_nat (length (filter (\<lambda>e. snd e \<le> HIST_BUCKETS_US ! i) es))"
    using run_buckets [of metrics_zero es i] assms(2) by (simp add: metrics_zero_def counted_def)
  then show ?thesis
    using le_less_trans [OF length_filter_le assms(1)] by (simp add: unat_of_nat_small)
qed

text \<open>The exported histogram is cumulative, as its format demands.\<close>

lemma histogram_cumulative:
  assumes "length es < 2 ^ 64" and "i \<le> j" and "j < 7"
  shows "latency_buckets (run request_step metrics_zero es) ! i \<le> latency_buckets (run request_step metrics_zero es) ! j"
proof -
  have "sorted HIST_BUCKETS_US" "length HIST_BUCKETS_US = 7" by (simp_all add: HIST_BUCKETS_US_def)
  then have b: "HIST_BUCKETS_US ! i \<le> HIST_BUCKETS_US ! j" using assms(2,3) sorted_nth_mono by metis
  have "length (filter (\<lambda>e. snd e \<le> HIST_BUCKETS_US ! i) es) \<le> length (filter (\<lambda>e. snd e \<le> HIST_BUCKETS_US ! j) es)"
    using order_trans [OF _ b] by (induction es) (auto intro: le_SucI)
  then show ?thesis using assms by (simp add: word_le_nat_alt run_bucket_count)
qed

text \<open>The exported counters are exact: after any list of finished requests from zeroed memory, fewer
  than \<open>2^64\<close> of them, the request total and the latency count are their number, the 401, 429 and
  5xx counters the numbers with those statuses, and the histogram bucket of each bound is the
  number of requests at or below that bound.
\<close>
lemma telemetry_counts_exact:
  assumes "length es < 2 ^ 64"
  shows "unat (requests_total (run request_step metrics_zero es)) = length es
    \<and> unat (latency_us_count (run request_step metrics_zero es)) = length es
    \<and> unat (requests_401 (run request_step metrics_zero es)) = length (filter (\<lambda>e. fst e = 401) es)
    \<and> unat (requests_429 (run request_step metrics_zero es)) = length (filter (\<lambda>e. fst e = 429) es)
    \<and> unat (requests_5xx (run request_step metrics_zero es)) = length (filter (\<lambda>e. 500 \<le> fst e \<and> fst e \<le> 599) es)
    \<and> (\<forall>i < 7. unat (latency_buckets (run request_step metrics_zero es) ! i)
                = length (filter (\<lambda>e. snd e \<le> HIST_BUCKETS_US ! i) es))"
proof -
  have u: "unat (of_nat (length (filter P es)) :: u64) = length (filter P es)" for P
    using le_less_trans [OF length_filter_le assms] by (intro unat_of_nat_small) simp
  have a: "unat (of_nat (length es) :: u64) = length es" using assms by (intro unat_of_nat_small) simp
  have z: "requests_total metrics_zero = 0" "latency_us_count metrics_zero = 0" "requests_401 metrics_zero = 0"
      "requests_429 metrics_zero = 0" "requests_5xx metrics_zero = 0"
    by (simp_all add: metrics_zero_def)
  have "\<forall>i < 7. unat (latency_buckets (run request_step metrics_zero es) ! i)
      = length (filter (\<lambda>e. snd e \<le> HIST_BUCKETS_US ! i) es)"
    using run_bucket_count [OF assms] by blast
  then show ?thesis by (simp only: run_counters counted_def z add_0_left u a simp_thms)
qed

lemma telemetry_counts_exact_witness:
  "unat (requests_5xx (run request_step metrics_zero [(200, 120), (503, 90), (429, 7000)])) = 1
   \<and> unat (latency_buckets (run request_step metrics_zero [(200, 120), (503, 90), (429, 7000)]) ! 1) = 2"
proof -
  have "(1 :: nat) < 7" by simp
  then show ?thesis
    using telemetry_counts_exact [of "[(200, 120), (503, 90), (429, 7000)]"]
    by (auto simp: HIST_BUCKETS_US_def)
qed

end
