(* ===== verification/Otlp.thy ===== *)
theory Otlp
  imports Telemetry Redis_CB Validate Utf8
begin

text \<open>
  The exporter, \<open>rust-ext/src/otlp.rs\<close>: its configuration from the environment, the bounded channel of
  finished requests, and one cycle of the exporting thread with the documents it posts. A
  document is a JSON value, the list of posts of a cycle is its result; the HTTP client that sends
  them, and its answers, which are only logged, are outside. Nanosecond times are \<open>u128\<close>.
\<close>

type_synonym u128 = "128 word"

section \<open>Configuration\<close>

text \<open>\<open>u8::from_str_radix(_, 16)\<close> on two bytes: two digits, or a plus sign and one digit.\<close>

definition radix16_digit :: "char \<Rightarrow> nat option" where
  "radix16_digit c =
     (let b = of_char c :: nat in
      if 48 \<le> b \<and> b \<le> 57 then Some (b - 48)
      else if 97 \<le> b \<and> b \<le> 102 then Some (b - 87)
      else if 65 \<le> b \<and> b \<le> 70 then Some (b - 55) else None)"

definition radix16_pair :: "char \<Rightarrow> char \<Rightarrow> nat option" where
  "radix16_pair a b =
     (if a = CHR ''+'' then radix16_digit b
      else (case (radix16_digit a, radix16_digit b) of (Some x, Some y) \<Rightarrow> Some (16 * x + y) | _ \<Rightarrow> None))"

text \<open>
  The byte loop. The slice of the two bytes after a percent sign panics when it ends inside a
  character, and a panic aborts the worker: that is \<open>None\<close>.
\<close>

definition char_boundary :: "string \<Rightarrow> bool" where
  "char_boundary rest = (case rest of [] \<Rightarrow> True | c # _ \<Rightarrow> \<not> is_cont (of_char c))"

fun percent_bytes :: "string \<Rightarrow> nat list option" where
  "percent_bytes (c # a # b # cs) =
     (if c = CHR ''%'' then
        (if \<not> char_boundary cs then None
         else (case radix16_pair a b of
                 Some x \<Rightarrow> map_option (Cons x) (percent_bytes cs)
               | None \<Rightarrow> map_option (Cons (of_char c)) (percent_bytes (a # b # cs))))
      else map_option (Cons (of_char c)) (percent_bytes (a # b # cs)))"
| "percent_bytes cs = Some (map of_char cs)"

definition percent_decode :: "string \<Rightarrow> string option" where
  "percent_decode s = map_option (\<lambda>bs. map char_of (utf8 (from_utf8_lossy bs))) (percent_bytes s)"

definition endpoint :: "env \<Rightarrow> string option" where
  "endpoint env = (case env ''OTEL_EXPORTER_OTLP_ENDPOINT'' of
       None \<Rightarrow> None
     | Some base \<Rightarrow> if base = [] then None else Some (rev (dropWhile (\<lambda>c. c = CHR ''/'') (rev base))))"

text \<open>The first part that sets the authorization; \<open>Some None\<close> is the panic of the decoder.\<close>

fun find_authorization :: "string list \<Rightarrow> string option option" where
  "find_authorization [] = None"
| "find_authorization (part # parts) =
     (case splitn 2 CHR ''='' part of
        [k, v] \<Rightarrow> if eq_ignore_ascii_case (trim k) ''authorization'' then Some (percent_decode (trim v))
                  else find_authorization parts
      | _ \<Rightarrow> find_authorization parts)"

definition auth_header :: "env \<Rightarrow> string option option" where
  "auth_header env = Option.bind (env ''OTEL_EXPORTER_OTLP_HEADERS'') (\<lambda>raw. find_authorization (split_on CHR '','' raw))"

section \<open>The channel\<close>

record SpanEvent =
  se_status :: int
  se_latency_us :: u64
  se_start_ns :: u128
  se_end_ns :: u128

text \<open>The channel is absent until the exporter starts, and lossy: a full queue drops the event.\<close>

definition otlp_record_request :: "u128 \<Rightarrow> int \<Rightarrow> u64 \<Rightarrow> SpanEvent list option \<Rightarrow> SpanEvent list option" where
  "otlp_record_request now status latency_us tx =
     (case tx of
        None \<Rightarrow> None
      | Some q \<Rightarrow>
          (let ev = \<lparr>se_status = status, se_latency_us = latency_us,
                     se_start_ns = sat_sub now (ucast latency_us * 1000), se_end_ns = now\<rparr> in
           if length q < 8192 then Some (q @ [ev]) else Some q))"

section \<open>Documents\<close>

definition int_string :: "int \<Rightarrow> string" where
  "int_string i = (if i < 0 then CHR ''-'' # dec_string (nat (- i)) else dec_string (nat i))"

definition ns_string :: "u128 \<Rightarrow> string" where
  "ns_string t = dec_string (unat t)"

definition attr :: "string \<Rightarrow> string \<Rightarrow> json" where
  "attr k v = JObject [(''key'', JString k), (''value'', JObject [(''stringValue'', JString v)])]"

definition attrs :: "(string \<times> string) list \<Rightarrow> json list" where
  "attrs extra = map (\<lambda>(k, v). attr k v) extra"

definition resource_attrs :: "json list" where
  "resource_attrs = [attr ''service.name'' ''gateway-edge'', attr ''service.namespace'' ''routiq'']"

definition with_attrs :: "(string \<times> string) list \<Rightarrow> (string \<times> json) list \<Rightarrow> json" where
  "with_attrs extra fs = JObject (fs @ (if extra = [] then [] else [(''attributes'', JArray (attrs extra))]))"

definition push_gauge :: "string \<Rightarrow> (string \<times> string) list \<Rightarrow> int \<Rightarrow> string \<Rightarrow> json" where
  "push_gauge name extra val ts =
     JObject [(''name'', JString name), (''gauge'', JObject [(''dataPoints'',
       JArray [with_attrs extra [(''timeUnixNano'', JString ts), (''asInt'', JString (int_string val))]])])]"

definition push_gauge_double :: "string \<Rightarrow> f64 \<Rightarrow> string \<Rightarrow> json" where
  "push_gauge_double name val ts =
     JObject [(''name'', JString name), (''gauge'', JObject [(''dataPoints'',
       JArray [JObject [(''timeUnixNano'', JString ts), (''asDouble'', JNumber val)]])])]"

definition push_sum :: "string \<Rightarrow> (string \<times> string) list \<Rightarrow> int \<Rightarrow> string \<Rightarrow> string \<Rightarrow> json" where
  "push_sum name extra val start ts =
     JObject [(''name'', JString name), (''sum'', JObject
       [(''isMonotonic'', JBool True),
        (''aggregationTemporality'', JString ''AGGREGATION_TEMPORALITY_CUMULATIVE''),
        (''dataPoints'', JArray [with_attrs extra
           [(''startTimeUnixNano'', JString start), (''timeUnixNano'', JString ts),
            (''asInt'', JString (int_string val))]])])]"

definition scoped :: "string \<Rightarrow> string \<Rightarrow> string \<Rightarrow> json list \<Rightarrow> json" where
  "scoped resources scopes items vals =
     JObject [(resources, JArray [JObject
       [(''resource'', JObject [(''attributes'', JArray resource_attrs)]),
        (scopes, JArray [JObject [(''scope'', JObject [(''name'', JString ''gateway-edge'')]), (items, JArray vals)]])]])]"

section \<open>Metrics\<close>

definition CB_NAMES :: "string list" where
  "CB_NAMES = [''gateway_redis_requests_total'', ''gateway_redis_success_total'', ''gateway_redis_errors_total'',
     ''gateway_redis_timeouts_total'', ''gateway_redis_circuit_open_total'',
     ''gateway_redis_circuit_half_open_total'', ''gateway_redis_circuit_rejected_total'']"

definition SHM_NAMES :: "string list" where
  "SHM_NAMES = [''gateway_http_requests_total'', ''gateway_http_requests_401_total'',
     ''gateway_http_requests_429_total'', ''gateway_http_requests_5xx_total'', ''gateway_latency_us_sum'',
     ''gateway_latency_us_count'']"

definition cb_counters :: "CircuitBreaker \<Rightarrow> u64 list" where
  "cb_counters cb = [redis_requests_total cb, redis_success_total cb, redis_errors_total cb,
     redis_timeouts_total cb, circuit_open_total cb, circuit_half_open_total cb, circuit_rejected_total cb]"

definition shm_counters :: "TelemetrySnapshot \<Rightarrow> u64 list" where
  "shm_counters m = [ts_requests_total m, ts_requests_401 m, ts_requests_429 m, ts_requests_5xx m,
     ts_latency_us_sum m, ts_latency_us_count m]"

definition deltas :: "u64 list \<Rightarrow> u64 list \<Rightarrow> u64 list" where
  "deltas cur prev = map2 sat_sub cur prev"

text \<open>One loop over the names: the points, and the counters to remember.\<close>

definition push_deltas ::
    "string list \<Rightarrow> (string \<times> string) list \<Rightarrow> string \<Rightarrow> string \<Rightarrow> u64 list \<Rightarrow> u64 list \<Rightarrow> json list \<times> u64 list" where
  "push_deltas names extra start ts cur prev =
     (map2 (\<lambda>name d. push_sum name extra (sint d) start ts) names (deltas cur prev), cur)"

definition breaker_gauges :: "u32 \<Rightarrow> (nat \<Rightarrow> u32) \<Rightarrow> string \<Rightarrow> CircuitBreaker \<Rightarrow> json list" where
  "breaker_gauges pid sec ts cb =
     (let pid_attr = [(''gateway.worker_pid'', dec_string (unat pid))] in
      [push_gauge ''gateway_redis_circuit_state'' pid_attr (uint (state cb)) ts,
       push_gauge ''gateway_redis_circuit_inflight'' pid_attr (inflight_count cb) ts,
       push_gauge ''gateway_redis_latency_p50_us'' pid_attr (sint (p50_us (sec 0) cb)) ts,
       push_gauge ''gateway_redis_latency_p95_us'' pid_attr (sint (p95_us (sec 1) cb)) ts,
       push_gauge ''gateway_redis_latency_p99_us'' pid_attr (sint (p99_us (sec 2) cb)) ts,
       push_gauge_double ''gateway_redis_error_rate'' (rcb_error_rate (sec 3) cb) ts])"

definition export_metrics ::
    "u32 \<Rightarrow> (nat \<Rightarrow> u32) \<Rightarrow> CircuitBreaker \<Rightarrow> TelemetrySnapshot \<Rightarrow> u128 \<Rightarrow> u128 \<Rightarrow> u64 list \<Rightarrow> u64 list
     \<Rightarrow> json \<times> u64 list \<times> u64 list" where
  "export_metrics pid sec cb m ts_ns started_ns prev_cb prev_shm =
     (let ts = ns_string ts_ns; start = ns_string (sat_sub ts_ns 10000000000);
          pid_attr = [(''gateway.worker_pid'', dec_string (unat pid))];
          (cb_points, prev_cb') = push_deltas CB_NAMES pid_attr start ts (cb_counters cb) prev_cb;
          (shm_points, prev_shm') = push_deltas SHM_NAMES [] start ts (shm_counters m) prev_shm;
          uptime = sat_sub ts_ns started_ns div 1000000000;
          metrics = breaker_gauges pid sec ts cb @ cb_points @ shm_points
                    @ [push_gauge ''gateway_uptime_seconds'' [] (sint (ucast uptime :: u64)) ts] in
      (scoped ''resourceMetrics'' ''scopeMetrics'' ''metrics'' metrics, prev_cb', prev_shm'))"

section \<open>Logs\<close>

definition state_name :: "u32 \<Rightarrow> string" where
  "state_name s = (if s = 0 then ''CLOSED'' else if s = 1 then ''OPEN'' else ''HALF_OPEN'')"

definition log_document :: "string \<Rightarrow> nat \<Rightarrow> string \<Rightarrow> string \<Rightarrow> json list \<Rightarrow> json" where
  "log_document ts sev_num sev_text msg as =
     scoped ''resourceLogs'' ''scopeLogs'' ''logRecords'' [JObject
       [(''timeUnixNano'', JString ts), (''observedTimeUnixNano'', JString ts),
        (''severityNumber'', JNumber (Fin (of_nat sev_num))), (''severityText'', JString sev_text),
        (''body'', JObject [(''stringValue'', JString msg)]), (''attributes'', JArray as)]]"

definition transition_log :: "u32 \<Rightarrow> u32 \<Rightarrow> u128 \<Rightarrow> json" where
  "transition_log cur prev ts_ns =
     (let (sev_num, sev_text, msg) =
            (if cur = 0 then (9, ''INFO'', ''[gateway-edge] redis circuit CLOSED (recovered)'')
             else if cur = 1 then (13, ''WARN'', ''[gateway-edge] redis circuit OPEN (tripped)'')
             else (13, ''WARN'', ''[gateway-edge] redis circuit HALF_OPEN (probing)'')) in
      log_document (ns_string ts_ns) sev_num sev_text msg
        [attr ''circuit.from'' (state_name prev), attr ''circuit.to'' (state_name cur)])"

definition startup_log :: "u32 \<Rightarrow> u128 \<Rightarrow> json" where
  "startup_log pid now =
     log_document (ns_string now) 9 ''INFO'' ''[gateway-edge] OTLP exporter started''
       [attr ''gateway.worker_pid'' (dec_string (unat pid))]"

section \<open>Traces\<close>

definition reverse_bits :: "u64 \<Rightarrow> u64" where
  "reverse_bits n = horner_sum of_bool 2 (rev (map (bit n) [0..<64]))"

definition trace_id :: "u32 \<Rightarrow> u64 \<Rightarrow> string" where
  "trace_id pid n = hex_pad 8 (unat pid) @ hex_pad 16 (unat n) @ hex_pad 8 (unat (ucast (reverse_bits n AND 0xFFFFFFFF) :: u32))"

definition span_id :: "u32 \<Rightarrow> u64 \<Rightarrow> string" where
  "span_id pid n = hex_pad 16 (unat (push_bit 16 (ucast pid :: u64) XOR n))"

definition make_span :: "u32 \<Rightarrow> u64 \<Rightarrow> SpanEvent \<Rightarrow> json" where
  "make_span pid n ev =
     JObject [(''traceId'', JString (trace_id pid n)), (''spanId'', JString (span_id pid n)),
       (''name'', JString ''gateway.request''), (''kind'', JNumber (Fin 2)),
       (''startTimeUnixNano'', JString (ns_string (se_start_ns ev))),
       (''endTimeUnixNano'', JString (ns_string (se_end_ns ev))),
       (''attributes'', JArray
          [JObject [(''key'', JString ''http.status_code''), (''value'', JObject [(''intValue'', JString (int_string (se_status ev)))])],
           JObject [(''key'', JString ''http.duration_us''), (''value'', JObject [(''intValue'', JString (dec_string (unat (se_latency_us ev))))])]]),
       (''status'', JObject [(''code'', JNumber (Fin (if 500 \<le> se_status ev then 2 else 1)))])]"

text \<open>The receiving loop: the spans so far, the local counter and the queue.\<close>

fun drain_loop :: "nat \<Rightarrow> u32 \<Rightarrow> u64 \<Rightarrow> SpanEvent list \<Rightarrow> json list \<times> u64 \<times> SpanEvent list" where
  "drain_loop 0 pid n q = ([], n, q)"
| "drain_loop (Suc room) pid n [] = ([], n, [])"
| "drain_loop (Suc room) pid n (ev # q) =
     (case drain_loop room pid (n + 1) q of (spans, n', q') \<Rightarrow> (make_span pid n ev # spans, n', q'))"

definition drain_traces :: "u32 \<Rightarrow> u64 \<Rightarrow> SpanEvent list \<Rightarrow> (string \<times> json) list \<times> u64 \<times> SpanEvent list" where
  "drain_traces pid n q =
     (case drain_loop 128 pid n q of
        (spans, n', q') \<Rightarrow>
          (if spans = [] then [] else [(''/v1/traces'', scoped ''resourceSpans'' ''scopeSpans'' ''spans'' spans)], n', q'))"

section \<open>The exporting thread\<close>

record otlp_state =
  ot_queue :: "SpanEvent list"
  ot_counter :: u64
  ot_prev_cb :: "u64 list"
  ot_prev_shm :: "u64 list"
  ot_last_state :: u32

text \<open>
  Starting: nothing happens without an endpoint and credentials; a panic of the decoder aborts
  the worker; otherwise the thread posts its first log and enters the loop.
\<close>

datatype otlp_boot = OtlpOff | OtlpAbort | OtlpRunning "(string \<times> json) list" otlp_state

definition otlp_start :: "env \<Rightarrow> u32 \<Rightarrow> u128 \<Rightarrow> CircuitBreaker \<Rightarrow> otlp_boot" where
  "otlp_start env pid now cb =
     (case endpoint env of
        None \<Rightarrow> OtlpOff
      | Some base \<Rightarrow>
          (case auth_header env of
             None \<Rightarrow> OtlpOff
           | Some None \<Rightarrow> OtlpAbort
           | Some (Some auth) \<Rightarrow>
               OtlpRunning [(''/v1/logs'', startup_log pid now)]
                 \<lparr>ot_queue = [], ot_counter = 0, ot_prev_cb = replicate 7 0, ot_prev_shm = replicate 6 0,
                  ot_last_state = state cb\<rparr>))"

text \<open>One iteration: the metrics, a log when the state of the breaker changed, the traces.\<close>

definition otlp_cycle ::
    "u32 \<Rightarrow> (nat \<Rightarrow> u32) \<Rightarrow> u128 \<Rightarrow> u128 \<Rightarrow> CircuitBreaker \<Rightarrow> CircuitBreaker \<Rightarrow> TelemetrySnapshot \<Rightarrow> otlp_state
     \<Rightarrow> (string \<times> json) list \<times> otlp_state" where
  "otlp_cycle pid sec ts started cb cb' m s =
     (let (doc, pcb, pshm) = export_metrics pid sec cb m ts started (ot_prev_cb s) (ot_prev_shm s);
          cur_state = state cb';
          logs = (if cur_state \<noteq> ot_last_state s
                  then [(''/v1/logs'', transition_log cur_state (ot_last_state s) ts)] else []);
          (traces, n', q') = drain_traces pid (ot_counter s) (ot_queue s) in
      ((''/v1/metrics'', doc) # logs @ traces,
       \<lparr>ot_queue = q', ot_counter = n', ot_prev_cb = pcb, ot_prev_shm = pshm, ot_last_state = cur_state\<rparr>))"

section \<open>Deltas\<close>

text \<open>The deltas a sequence of cycles reports for the shared counters, as the thread carries them along.\<close>

fun shm_delta_stream :: "u64 list \<Rightarrow> TelemetrySnapshot list \<Rightarrow> u64 list list" where
  "shm_delta_stream prev [] = []"
| "shm_delta_stream prev (m # ms) = deltas (shm_counters m) prev # shm_delta_stream (shm_counters m) ms"

lemma otlp_cycle_prev: "ot_prev_shm (snd (otlp_cycle pid sec ts started cb cb' m s)) = shm_counters m"
  by (simp add: otlp_cycle_def export_metrics_def push_deltas_def Let_def split: prod.splits)

lemma shm_counters_length [simp]: "length (shm_counters m) = 6"
  by (simp add: shm_counters_def)

fun counters_grow :: "u64 list \<Rightarrow> TelemetrySnapshot list \<Rightarrow> bool" where
  "counters_grow prev [] = True"
| "counters_grow prev (m # ms) = (list_all2 (\<le>) prev (shm_counters m) \<and> counters_grow (shm_counters m) ms)"

lemma delta_stream_sum:
  assumes "counters_grow prev ms" and "length prev = 6" and "i < 6" and "ms \<noteq> []"
  shows "(\<Sum>d \<leftarrow> shm_delta_stream prev ms. unat (d ! i)) + unat (prev ! i) = unat (shm_counters (last ms) ! i)"
  using assms
proof (induction ms arbitrary: prev)
  case (Cons m ms)
  have le: "prev ! i \<le> shm_counters m ! i" using Cons.prems by (simp add: list_all2_conv_all_nth)
  have d: "unat (deltas (shm_counters m) prev ! i) + unat (prev ! i) = unat (shm_counters m ! i)"
    using Cons.prems le by (simp add: deltas_def unat_sat_sub word_le_nat_alt)
  show ?case
  proof (cases "ms = []")
    case False
    then show ?thesis using d Cons.IH [of "shm_counters m"] Cons.prems by simp
  qed (use d in simp)
qed simp

text \<open>The exporter neither loses nor repeats counts: while the shared counters do not wrap, the deltas
  that its cycles report for a counter add up to the counter's value at the last cycle.
\<close>
lemma exported_deltas_complete:
  assumes "counters_grow (replicate 6 0) ms" and "ms \<noteq> []" and "i < 6"
  shows "(\<Sum>d \<leftarrow> shm_delta_stream (replicate 6 0) ms. unat (d ! i)) = unat (shm_counters (last ms) ! i)"
  using delta_stream_sum [OF assms(1) _ assms(3,2)] assms(3) by simp

definition demo_snapshots :: "TelemetrySnapshot list" where
  "demo_snapshots = [telemetry_snapshot (record_request 200 120 metrics_zero),
     telemetry_snapshot (record_request 503 90 (record_request 200 120 metrics_zero))]"

lemma exported_deltas_complete_witness:
  "(\<Sum>d \<leftarrow> shm_delta_stream (replicate 6 0) demo_snapshots. unat (d ! 0)) = 2"
proof -
  have r: "replicate 6 (0 :: u64) = [0, 0, 0, 0, 0, 0]" by (simp add: eval_nat_numeral)
  have g: "counters_grow (replicate 6 0) demo_snapshots" and n: "demo_snapshots \<noteq> []"
    and l: "unat (shm_counters (last demo_snapshots) ! 0) = 2"
    by (simp_all add: demo_snapshots_def r shm_counters_def telemetry_snapshot_def record_request_def
        count_status_def metrics_zero_def)
  have "(0 :: nat) < 6" by simp
  from exported_deltas_complete [OF g n this] show ?thesis by (simp only: l)
qed

text \<open>
  A point is declared cumulative but carries the delta: a cycle without new requests reports zero
  for every counter, whatever its value.
\<close>
lemma idle_cycle_reports_zero:
  "length names = length cur \<Longrightarrow>
     push_deltas names extra start ts cur cur = (map (\<lambda>name. push_sum name extra 0 start ts) names, cur)"
  by (auto simp: push_deltas_def deltas_def sat_sub_def intro!: nth_equalityI)

section \<open>Traces\<close>

fun numbered_spans :: "u32 \<Rightarrow> u64 \<Rightarrow> SpanEvent list \<Rightarrow> json list" where
  "numbered_spans pid n [] = []"
| "numbered_spans pid n (ev # q) = make_span pid n ev # numbered_spans pid (n + 1) q"

lemma drain_loop_eq:
  "drain_loop room pid n q =
     (numbered_spans pid n (take room q), n + of_nat (length (take room q)), drop room q)"
  by (induction room pid n q rule: drain_loop.induct) (simp_all add: algebra_simps)

lemma trace_id_inject: "trace_id pid n = trace_id pid' n' \<longleftrightarrow> pid = pid' \<and> n = n'"
  unfolding trace_id_def by (auto simp: append_eq_append_conv hex_pad_inject)

text \<open>Tracing: a cycle exports the oldest events of the channel, at most 128 of them, in the order in
  which they arrived, numbered with consecutive values of the counter, and leaves the younger
  ones for the next cycle; trace identifiers of different workers or different counter values
  differ.
\<close>
lemma traces_in_order:
  "drain_loop 128 pid n q = (numbered_spans pid n (take 128 q), n + of_nat (min (length q) 128), drop 128 q)
   \<and> (trace_id pid n = trace_id pid' n' \<longleftrightarrow> pid = pid' \<and> n = n')"
  by (simp add: drain_loop_eq trace_id_inject)

end
