(* ===== verification/Cors.thy ===== *)
theory Cors
  imports Config
begin

text \<open>
  Dynamic CORS, \<open>rust-ext/src/cors.rs\<close>: the allowed origin of a request, the credentials flag, and
  the packed string of the five headers handed to the Lua layer.
\<close>

definition SEP_STR :: string where
  "SEP_STR = [CHR 0x1F]"

definition allow_origin :: "CorsConfig \<Rightarrow> string \<Rightarrow> string option" where
  "allow_origin cfg origin =
     (if trim origin = [] then None
      else if list_ex (\<lambda>o'. o' = ''*'') (allowed_origins cfg) then Some ''*''
      else
        let exact = list_ex (\<lambda>o'. eq_ignore_ascii_case o' origin) (allowed_origins cfg) in
        if exact \<and> allow_credentials cfg then Some origin
        else if exact then Some origin else None)"

definition effective_credentials :: "CorsConfig \<Rightarrow> string \<Rightarrow> bool" where
  "effective_credentials cfg origin_value = (allow_credentials cfg \<and> origin_value \<noteq> ''*'')"

definition packed_headers :: "GatewayConfig \<Rightarrow> string \<Rightarrow> string" where
  "packed_headers g origin =
     (case cors g of
        None \<Rightarrow> []
      | Some cfg \<Rightarrow>
          (case allow_origin cfg origin of
             None \<Rightarrow> []
           | Some ao \<Rightarrow>
               (let creds = (if effective_credentials cfg ao then ''true'' else ''false'') in
                join_with SEP_STR
                  [ao, allowed_methods cfg, allowed_headers cfg, dec_string (unat (max_age cfg)), creds])))"

text \<open>The CORS decision. Headers are emitted exactly for a configured policy and an origin that is
  not blank and is covered by the policy; then the allowed origin is \<open>*\<close> or the request's own
  origin, and it is never \<open>*\<close> together with credentials.
\<close>
lemma cors_decision:
  "(packed_headers g origin = [] \<longleftrightarrow>
      (case cors g of None \<Rightarrow> True | Some cfg \<Rightarrow> trim origin = []
         \<or> ''*'' \<notin> set (allowed_origins cfg) \<and> \<not> (\<exists>o' \<in> set (allowed_origins cfg). eq_ignore_ascii_case o' origin)))
   \<and> (packed_headers g origin = [] \<or>
      (\<exists>cfg ao creds. cors g = Some cfg
         \<and> packed_headers g origin = join_with SEP_STR [ao, allowed_methods cfg, allowed_headers cfg,
             dec_string (unat (max_age cfg)), creds]
         \<and> ao \<in> {''*'', origin} \<and> creds \<in> {''true'', ''false''}
         \<and> (ao, creds) \<noteq> (''*'', ''true'')))"
proof (cases "cors g")
  case None
  then show ?thesis by (simp add: packed_headers_def)
next
  case (Some cfg)
  have ne: "join_with SEP_STR [ao, a, b, c, d] \<noteq> []" for ao a b c d by (simp add: SEP_STR_def)
  have ao: "allow_origin cfg origin = None \<longleftrightarrow> trim origin = []
      \<or> ''*'' \<notin> set (allowed_origins cfg) \<and> \<not> (\<exists>o' \<in> set (allowed_origins cfg). eq_ignore_ascii_case o' origin)"
    by (auto simp: allow_origin_def list_ex_iff Let_def)
  have val: "allow_origin cfg origin = Some v \<Longrightarrow> v \<in> {''*'', origin}" for v
    by (auto simp: allow_origin_def Let_def split: if_splits)
  show ?thesis
  proof (cases "allow_origin cfg origin")
    case None
    then show ?thesis using Some ao by (simp add: packed_headers_def)
  next
    case (Some v)
    let ?creds = "if effective_credentials cfg v then ''true'' else ''false''"
    have p: "packed_headers g origin = join_with SEP_STR [v, allowed_methods cfg, allowed_headers cfg,
             dec_string (unat (max_age cfg)), ?creds]"
      using \<open>cors g = Some cfg\<close> Some by (simp add: packed_headers_def)
    have c: "?creds \<in> {''true'', ''false''}" "(v, ?creds) \<noteq> (''*'', ''true'')"
      by (simp_all add: effective_credentials_def)
    show ?thesis
      using ao Some \<open>cors g = Some cfg\<close> val [OF Some] c ne unfolding p by (auto simp del: join_with.simps)
  qed
qed

end
