(* ===== verification/Gateway.thy ===== *)
theory Gateway
  imports Backpressure Waf Auth Router Rate_Limit Load_Balancing Debt Telemetry Otlp Cors
begin

text \<open>
  The entry points of the worker, \<open>rust-ext/src/lib.rs\<close>: the request pipeline \<open>process_request\<close> with
  its stages in their order, the accounting of a finished request, slot release, and the small
  queries. The state is what the components keep, shared or per worker.

  A C string argument is its bytes before the terminator, \<open>None\<close> a null pointer; an output buffer
  is its bytes, \<open>None\<close> a null pointer. What a call reads from outside the state (published
  configuration and router, clocks, posture, the interference of exchange loops, the process
  number) is the record \<open>request_reads\<close>; the configuration is loaded three times and a reload may
  come between. Third-party code is the record \<open>third_party\<close>.
\<close>

section \<open>State, arguments, environment\<close>

record ('c, 'r, 'w) third_party =
  tp_fx :: "string \<Rightarrow> u64"
  tp_ac :: "string list \<Rightarrow> nat list \<Rightarrow> bool"
  tp_jwt :: jwt_lib
  tp_lru :: "'c lru_lib"
  tp_matchit :: "'r matchit"
  tp_json :: "string \<Rightarrow> json option"
  tp_quota :: "'w quota_api"
  tp_powf :: "f64 \<Rightarrow> f64 \<Rightarrow> f64"

record ('c, 'w) gw_state =
  gs_in_flight :: int
  gs_lb :: lb_state
  gs_waf :: waf_shm
  gs_lru :: 'c
  gs_rl :: rl_state
  gs_quota :: "'w quota_state"
  gs_emas :: ema_table
  gs_debt :: debt_shm
  gs_metrics :: Metrics
  gs_trace_tx :: "SpanEvent list option"
  gs_request_counter :: u64

record 'r request_reads =
  rq_cfg_bp :: GatewayConfig
  rq_cfg_auth :: GatewayConfig
  rq_cfg_route :: GatewayConfig
  rq_router :: 'r
  rq_pid :: u32
  rq_waf_cas :: "u64 cas_event list"
  rq_waf_postures :: "nat \<Rightarrow> posture_state"
  rq_waf_now :: u32
  rq_auth :: auth_reads
  rq_posture :: posture_state
  rq_rl_cas :: "u64 cas_event list"
  rq_rl_now :: u32
  rq_quota_secs :: u64
  rq_lb_now :: u64

record request_args =
  ra_auth_header :: "string option"
  ra_path :: "string option"
  ra_user_agent :: "string option"
  ra_body :: "string option"
  ra_client_ip :: "string option"
  ra_canary_hint :: "string option"
  ra_content_type :: "string option"

record request_outs =
  ro_region :: "string option"
  ro_upstream :: "string option"
  ro_req_id :: "string option"
  ro_user_id :: "string option"
  ro_home_region :: "string option"
  ro_tier :: "string option"

section \<open>Strings across the boundary\<close>

definition write_c_string :: "string \<Rightarrow> string option \<Rightarrow> string option" where
  "write_c_string s buf =
     (case buf of
        None \<Rightarrow> None
      | Some b \<Rightarrow>
          if b = [] then Some b
          else (let copy_len = min (length s) (length b - 1) in
                Some (take copy_len s @ CHR 0x00 # drop (Suc copy_len) b)))"

text \<open>\<open>from_utf8(\<dots>).unwrap_or("")\<close> on an argument; the bytes of a decoded string.\<close>

definition c_str :: "string option \<Rightarrow> ustr" where
  "c_str arg = (case arg of
       None \<Rightarrow> []
     | Some bs \<Rightarrow> (case from_utf8 (map of_char bs) of Some s \<Rightarrow> s | None \<Rightarrow> []))"

definition str_bytes :: "ustr \<Rightarrow> string" where
  "str_bytes s = map char_of (utf8 s)"

definition body_str :: "string option \<Rightarrow> ustr" where
  "body_str arg = (case arg of None \<Rightarrow> [] | Some bs \<Rightarrow> from_utf8_lossy (map of_char bs))"

definition request_id :: "u32 \<Rightarrow> u64 \<Rightarrow> string" where
  "request_id pid n = hex_pad 8 (unat pid) @ hex_pad 16 (unat n)"

section \<open>The pipeline\<close>

definition gw_acquire :: "('c, 'r, 'w) third_party \<Rightarrow> GatewayConfig \<Rightarrow> ('c, 'w) gw_state \<Rightarrow> bool \<times> ('c, 'w) gw_state" where
  "gw_acquire tp cfg s =
     (case bp_acquire \<lparr>bp_max_concurrency = global_max_concurrency cfg,
                       bp_cb = global_state (tp_fx tp) (lb_cb (gs_lb s)), IN_FLIGHT = gs_in_flight s\<rparr> of
        (ok, b) \<Rightarrow> (ok, s\<lparr>gs_in_flight := IN_FLIGHT b\<rparr>))"

definition release_slot :: "('c, 'w) gw_state \<Rightarrow> ('c, 'w) gw_state" where
  "release_slot s = s\<lparr>gs_in_flight := gs_in_flight s - 1\<rparr>"

type_synonym ('c, 'w) gw_result = "int \<times> ('c, 'w) gw_state \<times> request_outs"

text \<open>An early return: the slot is released.\<close>

definition reject :: "int \<Rightarrow> ('c, 'w) gw_state \<Rightarrow> request_outs \<Rightarrow> ('c, 'w) gw_result" where
  "reject status s outs = (status, release_slot s, outs)"

text \<open>Stage 6: the upstream, and the outputs of an admitted request.\<close>

definition admitted_outs :: "string \<Rightarrow> string \<Rightarrow> UserIdentity option \<Rightarrow> request_outs \<Rightarrow> request_outs" where
  "admitted_outs region upstream identity outs =
     (let outs1 = outs\<lparr>ro_region := write_c_string region (ro_region outs),
                       ro_upstream := write_c_string upstream (ro_upstream outs)\<rparr> in
      case identity of
        None \<Rightarrow> outs1
      | Some uid \<Rightarrow>
          (let outs2 = outs1\<lparr>ro_user_id := write_c_string (ui_user_id uid) (ro_user_id outs1)\<rparr> in
           case ui_home_region uid of
             None \<Rightarrow> outs2
           | Some home \<Rightarrow> outs2\<lparr>ro_home_region := write_c_string home (ro_home_region outs2)\<rparr>))"

definition gw_select ::
    "('c, 'r, 'w) third_party \<Rightarrow> 'r request_reads \<Rightarrow> string \<Rightarrow> UserIdentity option \<Rightarrow> ServiceConfig \<Rightarrow> string
     \<Rightarrow> ('c, 'w) gw_state \<Rightarrow> request_outs \<Rightarrow> ('c, 'w) gw_result" where
  "gw_select tp rq hint identity svc region s outs =
     (case select_upstream (tp_fx tp) (rq_lb_now rq) (gs_emas s) (Some svc) region
             (map_option ui_user_id identity) hint (gs_lb s) of
        (Some upstream, lb) \<Rightarrow> (200, s\<lparr>gs_lb := lb\<rparr>, admitted_outs region upstream identity outs)
      | (None, lb) \<Rightarrow> reject 503 (s\<lparr>gs_lb := lb\<rparr>) outs)"

text \<open>Stages 4 to 5b: required identity, rate limit, quota.\<close>

definition gw_quota ::
    "('c, 'r, 'w) third_party \<Rightarrow> env \<Rightarrow> 'r request_reads \<Rightarrow> UserIdentity option \<Rightarrow> ServiceConfig
     \<Rightarrow> ('c, 'w) gw_state \<Rightarrow> bool \<times> ('c, 'w) gw_state" where
  "gw_quota tp env rq identity svc s =
     (case (identity, quota svc) of
        (Some uid, Some q) \<Rightarrow>
          (case check_quota (jl_sha256 (tp_jwt tp)) (tp_quota tp) env (auth_redis_url env) (rq_quota_secs rq)
                  (sc_name svc) (ui_user_id uid) q (gs_quota s) of
             (ok, qs) \<Rightarrow> (ok, s\<lparr>gs_quota := qs\<rparr>))
      | _ \<Rightarrow> (True, s))"

definition gw_limits ::
    "('c, 'r, 'w) third_party \<Rightarrow> env \<Rightarrow> 'r request_reads \<Rightarrow> string \<Rightarrow> UserIdentity option \<Rightarrow> ServiceConfig \<Rightarrow> string
     \<Rightarrow> ('c, 'w) gw_state \<Rightarrow> request_outs \<Rightarrow> ('c, 'w) gw_result" where
  "gw_limits tp env rq hint identity svc region s outs =
     (if require_auth svc \<and> identity = None then reject 401 s outs
      else
        (case check_rate_limit (tp_fx tp) env (rq_rl_cas rq) (rq_rl_now rq) (rate_limit_max svc)
                (map_option ui_user_id identity) (gs_rl s) of
           (False, rl) \<Rightarrow> reject 429 (s\<lparr>gs_rl := rl\<rparr>) outs
         | (True, rl) \<Rightarrow>
             (case gw_quota tp env rq identity svc (s\<lparr>gs_rl := rl\<rparr>) of
                (False, s1) \<Rightarrow> reject 429 s1 outs
              | (True, s1) \<Rightarrow> gw_select tp rq hint identity svc region s1 outs)))"

text \<open>Stages 3 to 4b: the route, the shedding of anonymous traffic, the body.\<close>

definition validation_status ::
    "(string \<Rightarrow> json option) \<Rightarrow> ValidationConfig option \<Rightarrow> string \<Rightarrow> string \<Rightarrow> int option" where
  "validation_status parse policy content_type body =
     (case policy of
        None \<Rightarrow> None
      | Some p \<Rightarrow> (case validate_body parse p content_type body of
                    Inr _ \<Rightarrow> None
                  | Inl v \<Rightarrow> Some (uint (fst (violation_response v)))))"

definition gw_route ::
    "('c, 'r, 'w) third_party \<Rightarrow> env \<Rightarrow> 'r request_reads \<Rightarrow> request_args \<Rightarrow> UserIdentity option
     \<Rightarrow> ('c, 'w) gw_state \<Rightarrow> request_outs \<Rightarrow> ('c, 'w) gw_result" where
  "gw_route tp env rq args identity s outs =
     (let path = str_bytes (c_str (ra_path args)); route_path = hd (split_on CHR ''?'' path) in
      case route_request (tp_matchit tp) env (rq_router rq) (rq_cfg_route rq) route_path
             (map_option ui_home_region identity) of
        Inl status \<Rightarrow> reject status s outs
      | Inr rr \<Rightarrow>
          (case rr_service rr of
             None \<Rightarrow> reject 404 s outs
           | Some svc \<Rightarrow>
               if shed_anonymous (rq_posture rq) \<and> identity = None then reject 503 s outs
               else
                 (let outs1 = outs\<lparr>ro_tier := write_c_string (rr_tier rr) (ro_tier outs)\<rparr> in
                  case validation_status (tp_json tp) (rr_validation rr) (str_bytes (c_str (ra_content_type args)))
                         (str_bytes (body_str (ra_body args))) of
                    Some status \<Rightarrow> reject status s outs1
                  | None \<Rightarrow> gw_limits tp env rq (str_bytes (c_str (ra_canary_hint args))) identity svc (rr_region rr) s outs1)))"

text \<open>Stages 1 and 2: the firewall and the identity.\<close>

definition gw_waf ::
    "('c, 'r, 'w) third_party \<Rightarrow> env \<Rightarrow> 'r request_reads \<Rightarrow> request_args \<Rightarrow> ('c, 'w) gw_state
     \<Rightarrow> WafDecision \<times> ('c, 'w) gw_state" where
  "gw_waf tp env rq args s =
     (case inspect (tp_ac tp) (\<lambda>ip. tp_fx tp (str_bytes ip)) (rq_waf_cas rq)
             (\<lambda>k. ip_rate_limit_rps env (rq_waf_postures rq k)) (rq_waf_now rq)
             (c_str (ra_path args)) (c_str (ra_auth_header args)) (c_str (ra_user_agent args))
             (body_str (ra_body args)) (c_str (ra_client_ip args)) (gs_waf s) of
        (d, shm) \<Rightarrow> (d, s\<lparr>gs_waf := shm\<rparr>))"

definition gw_identity ::
    "('c, 'r, 'w) third_party \<Rightarrow> env \<Rightarrow> 'r request_reads \<Rightarrow> request_args \<Rightarrow> ('c, 'w) gw_state
     \<Rightarrow> UserIdentity option \<times> ('c, 'w) gw_state" where
  "gw_identity tp env rq args s =
     (case validate_token (tp_jwt tp) (tp_lru tp) env (rq_cfg_auth rq) (rq_auth rq)
             (str_bytes (c_str (ra_auth_header args))) (gs_lru s) of
        (identity, c) \<Rightarrow> (identity, s\<lparr>gs_lru := c\<rparr>))"

definition process_request ::
    "('c, 'r, 'w) third_party \<Rightarrow> env \<Rightarrow> 'r request_reads \<Rightarrow> request_args \<Rightarrow> ('c, 'w) gw_state \<Rightarrow> request_outs
     \<Rightarrow> ('c, 'w) gw_result" where
  "process_request tp env rq args s outs =
     (case gw_acquire tp (rq_cfg_bp rq) s of
        (False, s1) \<Rightarrow> (503, s1, outs)
      | (True, s1) \<Rightarrow>
          if ra_auth_header args = None \<or> ra_path args = None \<or> ro_region outs = None then reject 500 s1 outs
          else
            (let outs1 = outs\<lparr>ro_req_id := write_c_string (request_id (rq_pid rq) (gs_request_counter s1)) (ro_req_id outs)\<rparr>;
                 s2 = s1\<lparr>gs_request_counter := gs_request_counter s1 + 1\<rparr> in
             case gw_waf tp env rq args s2 of
               (Block status _, s3) \<Rightarrow> reject (uint status) s3 outs1
             | (Allow, s3) \<Rightarrow>
                 (case gw_identity tp env rq args s3 of
                    (identity, s4) \<Rightarrow> gw_route tp env rq args identity s4 outs1)))"

section \<open>After the request\<close>

definition tier_budget_us :: "env \<Rightarrow> u64 option" where
  "tier_budget_us env = Option.bind (env ''DEBT_BUDGET_US'') parse_uint"

text \<open>The clocks: nanoseconds for the span, milliseconds for the debt, seconds for the two breakers.\<close>

record telemetry_reads =
  tr_now_ns :: u128
  tr_now_ms :: u64
  tr_now_cb :: u64
  tr_now_global :: u64

definition gw_breakers :: "('c, 'r, 'w) third_party \<Rightarrow> telemetry_reads \<Rightarrow> int \<Rightarrow> string \<Rightarrow> cb_shm \<Rightarrow> cb_shm" where
  "gw_breakers tp tr status upstream cb =
     (if upstream \<noteq> [] then
        (if 500 \<le> status then record_failure_for (tp_fx tp) (tr_now_cb tr) (tr_now_global tr) upstream cb
         else record_success_for (tp_fx tp) upstream cb)
      else if 500 \<le> status then record_failure (tp_fx tp) (tr_now_global tr) cb
      else record_success (tp_fx tp) cb)"

definition report_telemetry ::
    "('c, 'r, 'w) third_party \<Rightarrow> env \<Rightarrow> telemetry_reads \<Rightarrow> int \<Rightarrow> usize \<Rightarrow> string option \<Rightarrow> ('c, 'w) gw_state
     \<Rightarrow> ('c, 'w) gw_state" where
  "report_telemetry tp env tr status latency_us upstream_arg s =
     (let upstream = str_bytes (c_str upstream_arg);
          s1 = s\<lparr>gs_metrics := record_request status latency_us (gs_metrics s),
                 gs_trace_tx := otlp_record_request (tr_now_ns tr) status latency_us (gs_trace_tx s)\<rparr>;
          s2 = (if upstream \<noteq> []
                then s1\<lparr>gs_emas := record_upstream_latency upstream latency_us (gs_emas s1),
                        gs_debt := record_observation (tp_powf tp) (tp_fx tp) (tr_now_ms tr) upstream latency_us
                                     (unwrap_or (tier_budget_us env) 60000000) (gs_debt s1)\<rparr>
                else s1) in
      s2\<lparr>gs_lb := (gs_lb s2)\<lparr>lb_cb := gw_breakers tp tr status upstream (lb_cb (gs_lb s2))\<rparr>\<rparr>)"

section \<open>Queries and start-up\<close>

definition is_ready :: "GatewayConfig \<Rightarrow> int" where
  "is_ready cfg = (if is_config_ready cfg then 1 else 0)"

text \<open>Writing a string for the caller and returning its length; nothing for a null or empty buffer.\<close>

definition ffi_string :: "string \<Rightarrow> string option \<Rightarrow> int \<times> string option" where
  "ffi_string s buf =
     (case buf of
        None \<Rightarrow> (0, None)
      | Some b \<Rightarrow> if b = [] then (0, Some b) else (int (min (length s) (length b - 1)), write_c_string s (Some b)))"

definition get_config_version :: "GatewayConfig \<Rightarrow> string option \<Rightarrow> int \<times> string option" where
  "get_config_version cfg buf = ffi_string (version cfg) buf"

definition get_cors_headers :: "GatewayConfig \<Rightarrow> string option \<Rightarrow> string option \<Rightarrow> int \<times> string option" where
  "get_cors_headers cfg origin buf = ffi_string (packed_headers cfg (str_bytes (c_str origin))) buf"

definition DEV_SECRETS :: "string list" where
  "DEV_SECRETS = [''super_secret_key_for_hmac_sha256_change_in_prod'', ''super_secret_key_for_hmac_sha256'',
     ''default_secret'', ''change_me_use_a_long_random_secret_at_least_32_chars'']"

datatype secrets_verdict = SecretsFine | SecretsWarn | SecretsAbort

definition warn_insecure_secrets :: "env \<Rightarrow> secrets_verdict" where
  "warn_insecure_secrets env =
     (let secret = unwrap_or (env ''JWT_SECRET'') [] in
      if \<not> (secret = [] \<or> secret \<in> set DEV_SECRETS) then SecretsFine
      else if env_flag env ''GATEWAY_REFUSE_INSECURE_SECRETS'' then SecretsAbort else SecretsWarn)"

end
