(* ===== verification/Gateway_Pipeline.thy ===== *)
theory Gateway_Pipeline
  imports Gateway
begin

text \<open>
  What the request pipeline of theory \<open>Gateway\<close> guarantees: its statuses and the backpressure slot,
  the checks an admitted request passed, the order of rate limit and quota, what the global
  breaker does to a worker, and the strings that cross the foreign-function boundary.
\<close>

section \<open>Statuses and the slot\<close>

lemma inspect_status: "fst (inspect ac fx es rps now uri hdr ua body ip shm) = Block st msg \<Longrightarrow> st \<in> {400, 403, 429}"
  by (auto simp: inspect_def waf_block_def split: if_splits prod.splits bool.splits)

lemma route_request_status: "route_request mt env r cfg path idn = Inl e \<Longrightarrow> e = 403"
  by (auto simp: route_request_def resolve_region_def Let_def split: prod.splits sum.splits if_splits)

lemma validation_status_codes: "validation_status parse policy ct body = Some st \<Longrightarrow> st \<in> {400, 413, 415}"
proof -
  have "uint (fst (violation_response v)) \<in> {400, 413, 415}" for v by (cases v) simp_all
  then show "validation_status parse policy ct body = Some st \<Longrightarrow> st \<in> {400, 413, 415}"
    by (auto simp: validation_status_def split: option.splits sum.splits)
qed

text \<open>
  What a stage does to the gauge and which statuses it gives: an admitted request keeps its slot,
  every other outcome gives it back.
\<close>

definition settles :: "int set \<Rightarrow> ('c, 'w) gw_state \<Rightarrow> ('c, 'w) gw_result \<Rightarrow> bool" where
  "settles C s r \<longleftrightarrow>
     (fst r = 200 \<and> gs_in_flight (fst (snd r)) = gs_in_flight s
      \<or> fst r \<in> C \<and> gs_in_flight (fst (snd r)) = gs_in_flight s - 1)"

lemma settles_reject: "st \<in> C \<Longrightarrow> gs_in_flight s' = gs_in_flight s \<Longrightarrow> settles C s (reject st s' outs)"
  by (simp add: settles_def reject_def release_slot_def)

lemma settles_mono: "settles A s' r \<Longrightarrow> A \<subseteq> B \<Longrightarrow> gs_in_flight s' = gs_in_flight s \<Longrightarrow> settles B s r"
  by (auto simp: settles_def)

lemma gw_select_settles: "settles {503} s (gw_select tp rq hint idn svc region s outs)"
  by (auto simp: gw_select_def settles_def reject_def release_slot_def split: prod.splits option.splits)

lemma gw_quota_slot: "gs_in_flight (snd (gw_quota tp env rq idn svc s)) = gs_in_flight s"
  by (simp add: gw_quota_def split: option.splits prod.splits)

lemma gw_limits_settles: "settles {401, 429, 503} s (gw_limits tp env rq hint idn svc region s outs)"
proof -
  obtain ok rl where c: "check_rate_limit (tp_fx tp) env (rq_rl_cas rq) (rq_rl_now rq) (rate_limit_max svc)
      (map_option ui_user_id idn) (gs_rl s) = (ok, rl)" by fastforce
  obtain ok' s1 where q: "gw_quota tp env rq idn svc (s\<lparr>gs_rl := rl\<rparr>) = (ok', s1)" by fastforce
  have s1: "gs_in_flight s1 = gs_in_flight s" using gw_quota_slot [of tp env rq idn svc "s\<lparr>gs_rl := rl\<rparr>"] q by simp
  show ?thesis
    using s1 by (cases ok; cases ok')
      (simp_all add: gw_limits_def c q settles_reject settles_mono [OF gw_select_settles])
qed

lemma gw_route_settles: "settles {400, 401, 403, 404, 413, 415, 429, 503} s (gw_route tp env rq args idn s outs)"
proof -
  let ?path = "hd (split_on CHR ''?'' (str_bytes (c_str (ra_path args))))"
  show ?thesis
  proof (cases "route_request (tp_matchit tp) env (rq_router rq) (rq_cfg_route rq) ?path (map_option ui_home_region idn)")
    case (Inl e)
    then show ?thesis using route_request_status [OF Inl] by (simp add: gw_route_def settles_reject)
  next
    case (Inr rr)
    note l = settles_mono [OF gw_limits_settles]
    show ?thesis
      using Inr validation_status_codes
      by (auto simp: gw_route_def Let_def intro!: settles_reject l split: option.splits) fastforce+
  qed
qed

lemma gw_acquire_slot:
  "gs_in_flight (snd (gw_acquire tp cfg s)) = gs_in_flight s + (if fst (gw_acquire tp cfg s) then 1 else 0)"
  by (auto simp: gw_acquire_def bp_acquire_cases split: option.splits prod.splits)

lemma uint_waf_status: "fst (gw_waf tp env rq args s) = Block st msg \<Longrightarrow> uint st \<in> {400, 403, 429}"
proof -
  assume "fst (gw_waf tp env rq args s) = Block st msg"
  then have "st \<in> {400, 403, 429}"
    by (auto simp: gw_waf_def split: prod.splits dest!: arg_cong [of _ _ fst] inspect_status)
  then show ?thesis by auto
qed

lemma gw_waf_slot: "gs_in_flight (snd (gw_waf tp env rq args s)) = gs_in_flight s"
  by (simp add: gw_waf_def split: prod.splits)

lemma gw_identity_slot: "gs_in_flight (snd (gw_identity tp env rq args s)) = gs_in_flight s"
  by (simp add: gw_identity_def split: prod.splits)

lemma process_request_refused:
  "\<not> fst (gw_acquire tp (rq_cfg_bp rq) s) \<Longrightarrow> process_request tp env rq args s outs = (503, s, outs)"
  by (auto simp: process_request_def gw_acquire_def bp_acquire_cases split: prod.splits option.splits if_splits)

definition gateway_statuses :: "int set" where
  "gateway_statuses = {400, 401, 403, 404, 413, 415, 429, 500, 503}"

lemma process_request_settles:
  assumes "fst (gw_acquire tp (rq_cfg_bp rq) s)"
  shows "settles gateway_statuses (snd (gw_acquire tp (rq_cfg_bp rq) s)) (process_request tp env rq args s outs)"
proof -
  obtain s1 where a: "gw_acquire tp (rq_cfg_bp rq) s = (True, s1)" using assms by (cases "gw_acquire tp (rq_cfg_bp rq) s") simp
  let ?s2 = "s1\<lparr>gs_request_counter := gs_request_counter s1 + 1\<rparr>"
  obtain d s3 where w: "gw_waf tp env rq args ?s2 = (d, s3)" by fastforce
  obtain idn s4 where i: "gw_identity tp env rq args s3 = (idn, s4)" by fastforce
  have f: "gs_in_flight s3 = gs_in_flight s1" "gs_in_flight s4 = gs_in_flight s1"
    using gw_waf_slot [where tp = tp and env = env and rq = rq and args = args and s = ?s2]
      gw_identity_slot [where tp = tp and env = env and rq = rq and args = args and s = s3] w i by simp_all
  show ?thesis
  proof (cases d)
    case Allow
    then show ?thesis
      using f by (auto simp: process_request_def a w i gateway_statuses_def Let_def intro!: settles_reject settles_mono [OF gw_route_settles])
  next
    case (Block st msg)
    then have "uint st \<in> gateway_statuses" using uint_waf_status [where tp = tp and env = env and rq = rq and args = args and s = ?s2] w by (auto simp: gateway_statuses_def)
    then show ?thesis
      using f Block by (auto simp: process_request_def a w gateway_statuses_def Let_def intro!: settles_reject)
  qed
qed

lemma process_request_outcome:
  "case process_request tp env rq args s outs of (st, s', outs') \<Rightarrow>
     st = 200 \<and> gs_in_flight s' = gs_in_flight s + 1 \<or> st \<in> gateway_statuses \<and> gs_in_flight s' = gs_in_flight s"
proof (cases "fst (gw_acquire tp (rq_cfg_bp rq) s)")
  case True
  then show ?thesis
    using process_request_settles [OF True, where env = env and args = args and outs = outs] gw_acquire_slot [where tp = tp and cfg = "rq_cfg_bp rq" and s = s]
    by (auto simp: settles_def split: prod.splits)
next
  case False
  then show ?thesis by (simp add: process_request_refused gateway_statuses_def)
qed

text \<open>(C2)
  The backpressure slot follows the request: a request that is answered 200 holds exactly one
  more slot than before, for every other answer, at whichever of the stages it was given, the
  gauge is what it was. So releasing once after every 200 and never otherwise keeps the gauge
  balanced.
\<close>
theorem slot_held_iff_admitted:
  "gs_in_flight (fst (snd (process_request tp env rq args s outs)))
     = gs_in_flight s + (if fst (process_request tp env rq args s outs) = 200 then 1 else 0)"
proof -
  have "(200 :: int) \<notin> gateway_statuses" by (simp add: gateway_statuses_def)
  then show ?thesis
    using process_request_outcome [where tp = tp and env = env and rq = rq and args = args and s = s and outs = outs] by (auto split: prod.splits)
qed

text \<open>(C38)
  The answers of the pipeline: whatever the arguments, the configuration and the state, the status
  is one of 200, 400, 401, 403, 404, 413, 415, 429, 500 and 503.
\<close>
theorem process_request_statuses:
  "fst (process_request tp env rq args s outs) \<in> {200, 400, 401, 403, 404, 413, 415, 429, 500, 503}"
  using process_request_outcome [where tp = tp and env = env and rq = rq and args = args and s = s and outs = outs]
  by (auto simp: gateway_statuses_def split: prod.splits)

section \<open>What an admitted request passed\<close>

text \<open>The stages only touch their own part of the state, so a check sees the part it had at the start.\<close>

definition route_of :: "('c, 'r, 'w) third_party \<Rightarrow> env \<Rightarrow> 'r request_reads \<Rightarrow> request_args \<Rightarrow> UserIdentity option \<Rightarrow> int + ResolvedRoute" where
  "route_of tp env rq args idn =
     route_request (tp_matchit tp) env (rq_router rq) (rq_cfg_route rq)
       (hd (split_on CHR ''?'' (str_bytes (c_str (ra_path args))))) (map_option ui_home_region idn)"

definition rate_ok :: "('c, 'r, 'w) third_party \<Rightarrow> env \<Rightarrow> 'r request_reads \<Rightarrow> UserIdentity option \<Rightarrow> ServiceConfig \<Rightarrow> rl_state \<Rightarrow> bool" where
  "rate_ok tp env rq idn svc rl =
     fst (check_rate_limit (tp_fx tp) env (rq_rl_cas rq) (rq_rl_now rq) (rate_limit_max svc) (map_option ui_user_id idn) rl)"

definition quota_ok ::
    "('c, 'r, 'w) third_party \<Rightarrow> env \<Rightarrow> 'r request_reads \<Rightarrow> UserIdentity option \<Rightarrow> ServiceConfig \<Rightarrow> 'w quota_state \<Rightarrow> bool" where
  "quota_ok tp env rq idn svc qs \<longleftrightarrow>
     (\<forall>uid q. idn = Some uid \<longrightarrow> quota svc = Some q \<longrightarrow>
        fst (check_quota (jl_sha256 (tp_jwt tp)) (tp_quota tp) env (auth_redis_url env) (rq_quota_secs rq)
               (sc_name svc) (ui_user_id uid) q qs))"

lemma gw_select_admits:
  assumes "fst (gw_select tp rq hint idn svc region s outs) = 200"
  shows "\<exists>a \<in> usable_addresses (tp_fx tp) (rq_lb_now rq) (region_pool (Some svc) region) (gs_lb s).
     snd (snd (gw_select tp rq hint idn svc region s outs)) = admitted_outs region a idn outs"
proof -
  obtain r lb where sel: "select_upstream (tp_fx tp) (rq_lb_now rq) (gs_emas s) (Some svc) region
      (map_option ui_user_id idn) hint (gs_lb s) = (r, lb)" by fastforce
  then obtain a where r: "r = Some a" using assms by (cases r) (auto simp: gw_select_def reject_def)
  have "a \<in> usable_addresses (tp_fx tp) (rq_lb_now rq) (region_pool (Some svc) region) (gs_lb s)"
    using select_upstream_spec [where fx = "tp_fx tp" and now = "rq_lb_now rq" and emas = "gs_emas s" and service = "Some svc"
      and region = region and uid = "map_option ui_user_id idn" and hint = hint and st = "gs_lb s"]
    by (simp add: sel r)
  then show ?thesis by (auto simp: gw_select_def sel r)
qed

lemma gw_quota_ok: "fst (gw_quota tp env rq idn svc s) = quota_ok tp env rq idn svc (gs_quota s)"
  by (simp add: gw_quota_def quota_ok_def split: option.splits prod.splits)

lemma gw_quota_lb: "gs_lb (snd (gw_quota tp env rq idn svc s)) = gs_lb s"
  by (simp add: gw_quota_def split: option.splits prod.splits)

lemma gw_limits_admits:
  assumes "fst (gw_limits tp env rq hint idn svc region s outs) = 200"
  shows "(require_auth svc \<longrightarrow> idn \<noteq> None) \<and> rate_ok tp env rq idn svc (gs_rl s) \<and> quota_ok tp env rq idn svc (gs_quota s)
    \<and> (\<exists>a \<in> usable_addresses (tp_fx tp) (rq_lb_now rq) (region_pool (Some svc) region) (gs_lb s).
         snd (snd (gw_limits tp env rq hint idn svc region s outs)) = admitted_outs region a idn outs)"
proof -
  obtain ok rl where c: "check_rate_limit (tp_fx tp) env (rq_rl_cas rq) (rq_rl_now rq) (rate_limit_max svc)
      (map_option ui_user_id idn) (gs_rl s) = (ok, rl)" by fastforce
  obtain ok' s1 where q: "gw_quota tp env rq idn svc (s\<lparr>gs_rl := rl\<rparr>) = (ok', s1)" by fastforce
  have ok: "ok" "ok'" "\<not> (require_auth svc \<and> idn = None)"
    using assms by (auto simp: gw_limits_def c q reject_def split: if_splits bool.splits)
  then have l: "gw_limits tp env rq hint idn svc region s outs = gw_select tp rq hint idn svc region s1 outs"
    by (auto simp: gw_limits_def c q)
  have "quota_ok tp env rq idn svc (gs_quota s)" "gs_lb s1 = gs_lb s"
    using gw_quota_ok [where tp = tp and env = env and rq = rq and idn = idn and svc = svc and s = "s\<lparr>gs_rl := rl\<rparr>"]
      gw_quota_lb [where tp = tp and env = env and rq = rq and idn = idn and svc = svc and s = "s\<lparr>gs_rl := rl\<rparr>"] q ok by simp_all
  then show ?thesis using gw_select_admits [where s = s1] assms ok by (simp add: l rate_ok_def c)
qed

lemma gw_route_admits:
  assumes "fst (gw_route tp env rq args idn s outs) = 200"
  shows "\<exists>rr svc a. route_of tp env rq args idn = Inr rr \<and> rr_service rr = Some svc
    \<and> (shed_anonymous (rq_posture rq) \<or> require_auth svc \<longrightarrow> idn \<noteq> None)
    \<and> validation_status (tp_json tp) (rr_validation rr) (str_bytes (c_str (ra_content_type args)))
        (str_bytes (body_str (ra_body args))) = None
    \<and> rate_ok tp env rq idn svc (gs_rl s) \<and> quota_ok tp env rq idn svc (gs_quota s)
    \<and> a \<in> usable_addresses (tp_fx tp) (rq_lb_now rq) (region_pool (Some svc) (rr_region rr)) (gs_lb s)
    \<and> snd (snd (gw_route tp env rq args idn s outs))
        = admitted_outs (rr_region rr) a idn (outs\<lparr>ro_tier := write_c_string (rr_tier rr) (ro_tier outs)\<rparr>)"
proof -
  let ?path = "hd (split_on CHR ''?'' (str_bytes (c_str (ra_path args))))"
  have "\<exists>rr. route_of tp env rq args idn = Inr rr"
    using assms route_request_status
    by (cases "route_of tp env rq args idn") (fastforce simp: route_of_def gw_route_def reject_def)+
  then obtain rr where rr: "route_of tp env rq args idn = Inr rr" by blast
  obtain svc where svc: "rr_service rr = Some svc"
    using assms rr by (cases "rr_service rr") (auto simp: route_of_def gw_route_def reject_def)
  have shed: "\<not> (shed_anonymous (rq_posture rq) \<and> idn = None)"
  proof
    assume "shed_anonymous (rq_posture rq) \<and> idn = None"
    then show False using assms rr svc by (simp add: route_of_def gw_route_def reject_def)
  qed
  let ?v = "validation_status (tp_json tp) (rr_validation rr) (str_bytes (c_str (ra_content_type args)))
        (str_bytes (body_str (ra_body args)))"
  have v: "?v = None"
  proof (cases ?v)
    case (Some st)
    then have "st = 200" using assms rr svc shed by (simp add: route_of_def gw_route_def reject_def split: if_splits)
    then show ?thesis using validation_status_codes [OF Some] by simp
  qed simp
  have l: "gw_route tp env rq args idn s outs = gw_limits tp env rq (str_bytes (c_str (ra_canary_hint args))) idn svc
      (rr_region rr) s (outs\<lparr>ro_tier := write_c_string (rr_tier rr) (ro_tier outs)\<rparr>)"
    using rr svc shed v by (auto simp: route_of_def gw_route_def Let_def)
  show ?thesis
    using gw_limits_admits [OF assms [unfolded l]] rr svc shed v by (auto simp: l)
qed

lemma process_request_stages:
  assumes "fst (process_request tp env rq args s outs) = 200"
  shows "\<exists>s4. process_request tp env rq args s outs
      = gw_route tp env rq args (fst (gw_identity tp env rq args s)) s4
          (outs\<lparr>ro_req_id := write_c_string (request_id (rq_pid rq) (gs_request_counter s)) (ro_req_id outs)\<rparr>)
    \<and> fst (gw_waf tp env rq args s) = Allow \<and> fst (gw_acquire tp (rq_cfg_bp rq) s)
    \<and> gs_rl s4 = gs_rl s \<and> gs_quota s4 = gs_quota s \<and> gs_lb s4 = gs_lb s
    \<and> gs_waf s4 = gs_waf (snd (gw_waf tp env rq args s))"
proof -
  obtain s1 where a: "gw_acquire tp (rq_cfg_bp rq) s = (True, s1)"
    using assms process_request_refused [of tp rq s env args outs] by (cases "gw_acquire tp (rq_cfg_bp rq) s") fastforce
  have s1: "s1 = s\<lparr>gs_in_flight := gs_in_flight s1\<rparr>"
    using a by (auto simp: gw_acquire_def split: prod.splits)
  have n: "\<not> (ra_auth_header args = None \<or> ra_path args = None \<or> ro_region outs = None)"
  proof
    assume "ra_auth_header args = None \<or> ra_path args = None \<or> ro_region outs = None"
    then show False using assms by (simp add: process_request_def a reject_def)
  qed
  let ?s2 = "s1\<lparr>gs_request_counter := gs_request_counter s1 + 1\<rparr>"
  obtain d s3 where w: "gw_waf tp env rq args ?s2 = (d, s3)" by fastforce
  have "gs_waf ?s2 = gs_waf s" by (subst s1) simp
  then have w': "fst (gw_waf tp env rq args s) = d" "s3 = ?s2\<lparr>gs_waf := gs_waf (snd (gw_waf tp env rq args s))\<rparr>"
    using w by (auto simp: gw_waf_def split: prod.splits)
  have d: "d = Allow"
  proof (cases d)
    case (Block st msg)
    then have "uint st = 200" using assms n by (simp add: process_request_def a w reject_def)
    moreover have "uint st \<in> {400, 403, 429}"
      using w Block by (intro uint_waf_status [where tp = tp and env = env and rq = rq and args = args and s = ?s2]) simp
    ultimately show ?thesis by auto
  qed
  obtain idn s4 where i: "gw_identity tp env rq args s3 = (idn, s4)" by fastforce
  have "gs_lru s3 = gs_lru s" unfolding w'(2) by (subst s1) simp
  then have i': "idn = fst (gw_identity tp env rq args s)" "s4 = s3\<lparr>gs_lru := gs_lru s4\<rparr>"
    using i by (auto simp: gw_identity_def split: prod.splits)
  have c: "gs_request_counter s1 = gs_request_counter s" by (subst s1) simp
  have "process_request tp env rq args s outs = gw_route tp env rq args idn s4
      (outs\<lparr>ro_req_id := write_c_string (request_id (rq_pid rq) (gs_request_counter s1)) (ro_req_id outs)\<rparr>)"
    using n by (auto simp: process_request_def a w d i)
  note p = this [unfolded c]
  have "gs_rl s4 = gs_rl s3 \<and> gs_quota s4 = gs_quota s3 \<and> gs_lb s4 = gs_lb s3 \<and> gs_waf s4 = gs_waf s3"
    by (subst (1 2 3 4) i'(2)) simp
  moreover have "gs_rl s3 = gs_rl s1 \<and> gs_quota s3 = gs_quota s1 \<and> gs_lb s3 = gs_lb s1" unfolding w'(2) by simp
  moreover have "gs_rl s1 = gs_rl s \<and> gs_quota s1 = gs_quota s \<and> gs_lb s1 = gs_lb s" by (subst (1 2 3) s1) simp
  moreover have "gs_waf s3 = gs_waf (snd (gw_waf tp env rq args s))" unfolding w'(2) by simp
  ultimately show ?thesis using p i'(1) w'(1) d a by (intro exI [of _ s4]) simp
qed

text \<open>(C1)
  Nothing is admitted past a check. A request that is answered 200 got a slot, was allowed by the
  firewall, has an identity if its service requires one or the posture sheds anonymous traffic,
  was routed within its residency, carries a body its route accepts, is within its rate limit and
  its quota, and the upstream written for it is a configured upstream of that service in that
  region which is usable; the outputs are exactly the request id, the tier, the region, the
  upstream and the identity.
\<close>
theorem admitted_request_passed_all_checks:
  assumes "fst (process_request tp env rq args s outs) = 200"
  shows "fst (gw_acquire tp (rq_cfg_bp rq) s) \<and> fst (gw_waf tp env rq args s) = Allow
    \<and> (\<exists>idn rr svc a. idn = fst (gw_identity tp env rq args s)
        \<and> route_of tp env rq args idn = Inr rr \<and> rr_service rr = Some svc
        \<and> (shed_anonymous (rq_posture rq) \<or> require_auth svc \<longrightarrow> idn \<noteq> None)
        \<and> validation_status (tp_json tp) (rr_validation rr) (str_bytes (c_str (ra_content_type args)))
            (str_bytes (body_str (ra_body args))) = None
        \<and> rate_ok tp env rq idn svc (gs_rl s) \<and> quota_ok tp env rq idn svc (gs_quota s)
        \<and> a \<in> usable_addresses (tp_fx tp) (rq_lb_now rq) (region_pool (Some svc) (rr_region rr)) (gs_lb s)
        \<and> snd (snd (process_request tp env rq args s outs))
            = admitted_outs (rr_region rr) a idn
                (outs\<lparr>ro_req_id := write_c_string (request_id (rq_pid rq) (gs_request_counter s)) (ro_req_id outs),
                      ro_tier := write_c_string (rr_tier rr) (ro_tier outs)\<rparr>))"
proof -
  obtain s4 where s4: "process_request tp env rq args s outs
      = gw_route tp env rq args (fst (gw_identity tp env rq args s)) s4
          (outs\<lparr>ro_req_id := write_c_string (request_id (rq_pid rq) (gs_request_counter s)) (ro_req_id outs)\<rparr>)"
    "fst (gw_waf tp env rq args s) = Allow" "fst (gw_acquire tp (rq_cfg_bp rq) s)"
    "gs_rl s4 = gs_rl s" "gs_quota s4 = gs_quota s" "gs_lb s4 = gs_lb s"
    using process_request_stages [OF assms] by blast
  show ?thesis
    using gw_route_admits [OF assms [unfolded s4(1)]] s4 by simp
qed

text \<open>A worker with one public service in one region.\<close>

definition demo_upstream :: Upstream where
  "demo_upstream = \<lparr>up_name = ''u'', up_address = ''a:1'', up_weight = 1, up_version = []\<rparr>"

definition demo_service :: "QuotaPolicy option \<Rightarrow> ServiceConfig" where
  "demo_service q = \<lparr>sc_name = ''svc'', rate_limit_max = 0, regional_upstreams = [''US'' \<mapsto> [demo_upstream]],
     require_auth = False, canary = None, quota = q\<rparr>"

definition demo_config :: "QuotaPolicy option \<Rightarrow> GatewayConfig" where
  "demo_config q = GatewayConfig_default\<lparr>services := [''svc'' \<mapsto> demo_service q]\<rparr>"

definition demo_tp :: "(string \<Rightarrow> CachedToken option, unit, unit) third_party" where
  "demo_tp = \<lparr>tp_fx = (\<lambda>s. of_nat (length s)), tp_ac = (\<lambda>_ _. False), tp_jwt = demo_lib, tp_lru = map_cache,
     tp_matchit = \<lparr>mt_new = (), mt_insert = (\<lambda>_ _ r. r),
       mt_at = (\<lambda>_ _. Some \<lparr>rm_service_name = ''svc'', rm_tier = ''normal'', rm_validation = None\<rparr>)\<rparr>,
     tp_json = (\<lambda>_. None), tp_quota = \<lparr>qa_open = (\<lambda>_ _ w. (False, w)), qa_incr = (\<lambda>_ _ w. (None, w))\<rparr>,
     tp_powf = (\<lambda>x _. x)\<rparr>"

definition demo_state :: "(string \<Rightarrow> CachedToken option, unit) gw_state" where
  "demo_state = \<lparr>gs_in_flight = 0, gs_lb = \<lparr>lb_cb = cb_init_shm, lb_health = (\<lambda>_. fresh_health)\<rparr>, gs_waf = (\<lambda>_. 0),
     gs_lru = Map.empty, gs_rl = rl_init,
     gs_quota = \<lparr>qs_conn = False, qs_world = (), qs_checks_total = 0, qs_rejected_total = 0, qs_borrowed_total = 0\<rparr>,
     gs_emas = Map.empty, gs_debt = (\<lambda>_. \<lparr>debt_us = 0, debt_last_update_ms = 0\<rparr>), gs_metrics = metrics_zero,
     gs_trace_tx = None, gs_request_counter = 0\<rparr>"

definition calm_posture :: posture_state where
  "calm_posture = \<lparr>posture = 0, posture_since_ms = 0, transitions_total = 0\<rparr>"

definition demo_request_reads :: "QuotaPolicy option \<Rightarrow> unit request_reads" where
  "demo_request_reads q = \<lparr>rq_cfg_bp = demo_config q, rq_cfg_auth = GatewayConfig_default, rq_cfg_route = demo_config q, rq_router = (),
     rq_pid = 42, rq_waf_cas = [], rq_waf_postures = (\<lambda>_. calm_posture), rq_waf_now = 100, rq_auth = demo_reads 100,
     rq_posture = calm_posture, rq_rl_cas = [], rq_rl_now = 100, rq_quota_secs = 100, rq_lb_now = 100\<rparr>"

definition demo_args :: "string \<Rightarrow> request_args" where
  "demo_args hdr = \<lparr>ra_auth_header = Some hdr, ra_path = Some ''/x?q'', ra_user_agent = None, ra_body = None,
     ra_client_ip = None, ra_canary_hint = None, ra_content_type = None\<rparr>"

definition demo_outs :: request_outs where
  "demo_outs = \<lparr>ro_region = Some ''........'', ro_upstream = Some ''........'', ro_req_id = None, ro_user_id = None,
     ro_home_region = None, ro_tier = None\<rparr>"

lemma fresh_usable: "fst (usable fx now a \<lparr>lb_cb = cb_init_shm, lb_health = (\<lambda>_. fresh_health)\<rparr>)"
  by (simp add: usable_fst is_upstream_open_def get_cb_def cb_init_shm_def fresh_cb_def cb_is_open_def is_open_env_def
      is_healthy_def slot_touch_def seed_def fresh_health_def Let_def)

lemma demo_select:
  "\<exists>a lb. select_upstream fx now emas (Some (demo_service q)) ''US'' uid hint
     \<lparr>lb_cb = cb_init_shm, lb_health = (\<lambda>_. fresh_health)\<rparr> = (Some a, lb)"
proof -
  let ?st = "\<lparr>lb_cb = cb_init_shm, lb_health = (\<lambda>_. fresh_health)\<rparr>"
  have "usable_addresses fx now (region_pool (Some (demo_service q)) ''US'') ?st \<noteq> {}"
    by (simp add: usable_addresses_def region_pool_def demo_service_def demo_upstream_def fresh_usable)
  then show ?thesis
    using select_upstream_spec [where fx = fx and now = now and emas = emas and service = "Some (demo_service q)"
        and region = "''US''" and uid = uid and hint = hint and st = ?st]
    by (cases "select_upstream fx now emas (Some (demo_service q)) ''US'' uid hint ?st") (auto split: option.splits)
qed

lemma c_str_ascii:
  assumes "list_all (\<lambda>c. (of_char c :: nat) < 128) bs"
  shows "c_str (Some bs) = map of_char bs" and "str_bytes (c_str (Some bs)) = bs"
proof -
  have "utf8 (map of_char bs) = map of_char bs" and "list_all scalar (map of_char bs)"
    using assms by (induction bs) (simp_all add: utf8_char_def scalar_def)
  then have u: "from_utf8 (map of_char bs) = Some (map of_char bs)" "utf8 (map of_char bs) = map of_char bs"
    by (simp_all add: from_utf8_iff)
  show "c_str (Some bs) = map of_char bs" using u by (simp add: c_str_def)
  then show "str_bytes (c_str (Some bs)) = bs" using u by (simp add: str_bytes_def comp_def)
qed

lemma demo_c_str: "c_str (Some ''/x?q'') = [47, 120, 63, 113]" "c_str (Some []) = []" "c_str (Some ''x'') = [120]" "c_str None = []"
  by (simp_all add: c_str_ascii) (simp add: c_str_def)

lemma demo_waf: "hdr \<in> {[], ''x''} \<Longrightarrow> gw_waf demo_tp Map.empty (demo_request_reads q) (demo_args hdr) s = (Allow, s)"
  by (auto simp: gw_waf_def inspect_def demo_args_def demo_c_str body_str_def demo_tp_def str_len_def utf8_char_def)

lemma demo_identity: "hdr \<in> {[], ''x''} \<Longrightarrow> gw_identity demo_tp Map.empty (demo_request_reads q) (demo_args hdr) s = (None, s)"
  by (auto simp: gw_identity_def validate_token_def demo_args_def demo_c_str str_bytes_def strip_prefix_def utf8_char_def)

lemma demo_acquire: "gw_acquire demo_tp (demo_config q) demo_state = (True, demo_state\<lparr>gs_in_flight := 1\<rparr>)"
  by (simp add: gw_acquire_def bp_acquire_cases bp_limit_def demo_config_def GatewayConfig_default_def demo_state_def
      global_state_def state_value_def get_cb_def cb_init_shm_def fresh_cb_def)

lemma demo_route_of:
  "Option.bind (map_option ui_home_region idn) id = None \<Longrightarrow> route_of demo_tp Map.empty (demo_request_reads q) args idn
     = Inr \<lparr>rr_service = Some (demo_service q), rr_region = ''US'', rr_tier = ''normal'', rr_validation = None\<rparr>"
  by (simp add: route_of_def route_request_def find_service_def demo_tp_def demo_request_reads_def demo_config_def
      resolve_region_def current_region_def)

lemma demo_route:
  assumes "gs_lb s = gs_lb demo_state" and "hdr \<in> {[], ''x''}"
  shows "fst (gw_route demo_tp Map.empty (demo_request_reads q) (demo_args hdr) None s outs) = 200"
proof -
  obtain a lb where "select_upstream (tp_fx demo_tp) 100 (gs_emas s) (Some (demo_service q)) ''US'' None []
      (gs_lb s) = (Some a, lb)"
    using demo_select [where fx = "tp_fx demo_tp" and now = 100 and emas = "gs_emas s" and uid = None and hint = "[]" and q = q] assms(1) by (auto simp: demo_state_def)
  moreover have "require_auth (demo_service q) = False" "rate_limit_max (demo_service q) = 0" "quota (demo_service q) = q"
    by (simp_all add: demo_service_def)
  ultimately show ?thesis
    using demo_route_of [of None q "demo_args hdr"] assms(2)
    by (simp add: gw_route_def route_of_def demo_request_reads_def calm_posture_def shed_anonymous_def validation_status_def
        gw_limits_def check_rate_limit_def gw_quota_def gw_select_def demo_args_def demo_c_str str_bytes_def)
qed

lemma demo_admitted:
  assumes "hdr \<in> {[], ''x''}"
  shows "fst (process_request demo_tp Map.empty (demo_request_reads q) (demo_args hdr) demo_state demo_outs) = 200"
proof -
  note demo_acquire [of q]
  moreover have "rq_cfg_bp (demo_request_reads q) = demo_config q" by (simp add: demo_request_reads_def)
  moreover have "ra_auth_header (demo_args hdr) \<noteq> None" "ra_path (demo_args hdr) \<noteq> None" "ro_region demo_outs \<noteq> None"
    by (simp_all add: demo_args_def demo_outs_def)
  ultimately show ?thesis by (auto simp: process_request_def demo_waf [OF assms] demo_identity [OF assms] demo_route [OF _ assms] Let_def)
qed

theorem admitted_request_passed_all_checks_witness:
  "fst (gw_waf demo_tp Map.empty (demo_request_reads None) (demo_args []) demo_state) = Allow
   \<and> (\<exists>rr svc a. route_of demo_tp Map.empty (demo_request_reads None) (demo_args []) None = Inr rr \<and> rr_service rr = Some svc
        \<and> \<not> require_auth svc
        \<and> a \<in> usable_addresses (tp_fx demo_tp) 100 (region_pool (Some svc) (rr_region rr)) (gs_lb demo_state))"
proof -
  have "rq_lb_now (demo_request_reads None) = 100" by (simp add: demo_request_reads_def)
  then show ?thesis
    using admitted_request_passed_all_checks [OF demo_admitted [of "[]" None]] by (auto simp: demo_identity)
qed

section \<open>Rate limit before quota\<close>

lemma process_request_parts:
  "(let s' = fst (snd (process_request tp env rq args s outs)) in gs_quota s' = gs_quota s \<and> gs_rl s' = gs_rl s)
   \<or> (\<exists>s4 o4. process_request tp env rq args s outs = gw_route tp env rq args (fst (gw_identity tp env rq args s)) s4 o4
        \<and> gs_quota s4 = gs_quota s \<and> gs_rl s4 = gs_rl s)"
proof (cases "fst (gw_acquire tp (rq_cfg_bp rq) s)")
  case False
  then show ?thesis by (simp add: process_request_refused)
next
  case True
  then obtain s1 where a: "gw_acquire tp (rq_cfg_bp rq) s = (True, s1)" by (cases "gw_acquire tp (rq_cfg_bp rq) s") simp
  have s1: "s1 = s\<lparr>gs_in_flight := gs_in_flight s1\<rparr>" using a by (auto simp: gw_acquire_def split: prod.splits)
  let ?s2 = "s1\<lparr>gs_request_counter := gs_request_counter s1 + 1\<rparr>"
  obtain d s3 where w: "gw_waf tp env rq args ?s2 = (d, s3)" by fastforce
  have s3: "s3 = ?s2\<lparr>gs_waf := gs_waf s3\<rparr>" using w by (auto simp: gw_waf_def split: prod.splits)
  obtain idn s4 where i: "gw_identity tp env rq args s3 = (idn, s4)" by fastforce
  have "gs_lru s3 = gs_lru s" by (subst s3, subst s1) simp
  then have idn: "idn = fst (gw_identity tp env rq args s)" and s4: "s4 = s3\<lparr>gs_lru := gs_lru s4\<rparr>"
    using i by (auto simp: gw_identity_def split: prod.splits)
  have f: "gs_quota s1 = gs_quota s" "gs_rl s1 = gs_rl s" by (subst s1, simp)+
  have f3: "gs_quota s3 = gs_quota s" "gs_rl s3 = gs_rl s" using f by (subst s3, simp)+
  have f4: "gs_quota s4 = gs_quota s" "gs_rl s4 = gs_rl s" using f3 by (subst s4, simp)+
  show ?thesis
  proof (cases "ra_auth_header args = None \<or> ra_path args = None \<or> ro_region outs = None")
    case True
    then show ?thesis by (simp add: process_request_def a reject_def release_slot_def f)
  next
    case n: False
    show ?thesis
    proof (cases d)
      case (Block st msg)
      then show ?thesis using n by (auto simp: process_request_def a w reject_def release_slot_def f3)
    next
      case Allow
      then show ?thesis using n f4 by (auto simp: process_request_def a w i idn)
    qed
  qed
qed

lemma gw_select_frame: "gs_quota (fst (snd (gw_select tp rq hint idn svc region s outs))) = gs_quota s"
    "gs_rl (fst (snd (gw_select tp rq hint idn svc region s outs))) = gs_rl s"
    "gs_waf (fst (snd (gw_select tp rq hint idn svc region s outs))) = gs_waf s"
  by (auto simp: gw_select_def reject_def release_slot_def split: prod.splits option.splits)

lemma gw_limits_spares_quota:
  assumes "gs_quota (fst (snd (gw_limits tp env rq hint idn svc region s outs))) \<noteq> gs_quota s"
  shows "rate_ok tp env rq idn svc (gs_rl s) \<and> idn \<noteq> None \<and> quota svc \<noteq> None"
proof -
  obtain ok rl where c: "check_rate_limit (tp_fx tp) env (rq_rl_cas rq) (rq_rl_now rq) (rate_limit_max svc)
      (map_option ui_user_id idn) (gs_rl s) = (ok, rl)" by fastforce
  have n: "\<not> (require_auth svc \<and> idn = None)"
  proof
    assume "require_auth svc \<and> idn = None"
    then show False using assms by (simp add: gw_limits_def reject_def release_slot_def)
  qed
  have ok: ok
  proof (rule ccontr)
    assume "\<not> ok"
    then show False using assms n by (auto simp: gw_limits_def c reject_def release_slot_def)
  qed
  have "idn \<noteq> None \<and> quota svc \<noteq> None"
  proof (rule ccontr)
    assume "\<not> (idn \<noteq> None \<and> quota svc \<noteq> None)"
    then have "gw_quota tp env rq idn svc (s\<lparr>gs_rl := rl\<rparr>) = (True, s\<lparr>gs_rl := rl\<rparr>)"
      by (auto simp: gw_quota_def split: option.splits)
    then show False using assms n ok by (auto simp: gw_limits_def c gw_select_frame)
  qed
  then show ?thesis using ok by (simp add: rate_ok_def c)
qed

text \<open>(C17)
  The daily quota is only spent by requests that are within their rate limit: whenever processing
  a request changes the quota state (the stored counters or the connection), the request has an
  identity, its route has a service with a quota, and the rate limiter admitted it. A request
  rejected for its burst rate, or at any earlier stage, never consumes the allowance.
\<close>
theorem quota_spent_within_rate_limit:
  assumes "gs_quota (fst (snd (process_request tp env rq args s outs))) \<noteq> gs_quota s"
  shows "\<exists>uid rr svc q. fst (gw_identity tp env rq args s) = Some uid \<and> route_of tp env rq args (Some uid) = Inr rr
    \<and> rr_service rr = Some svc \<and> quota svc = Some q \<and> rate_ok tp env rq (Some uid) svc (gs_rl s)"
proof -
  let ?idn = "fst (gw_identity tp env rq args s)"
  obtain s4 o4 where p: "process_request tp env rq args s outs = gw_route tp env rq args ?idn s4 o4"
    and f: "gs_quota s4 = gs_quota s" "gs_rl s4 = gs_rl s"
    using assms process_request_parts [where tp = tp and env = env and rq = rq and args = args and s = s and outs = outs]
    by (auto simp: Let_def)
  have ne: "gs_quota (fst (snd (gw_route tp env rq args ?idn s4 o4))) \<noteq> gs_quota s4" using assms p f by simp
  have r: "fst (snd (reject st s4 o')) = release_slot s4" "gs_quota (release_slot s4) = gs_quota s4" for st o'
    by (simp_all add: reject_def release_slot_def)
  obtain rr where rr: "route_of tp env rq args ?idn = Inr rr"
    using ne r by (cases "route_of tp env rq args ?idn") (auto simp: route_of_def gw_route_def)
  obtain svc where svc: "rr_service rr = Some svc"
    using ne r rr by (cases "rr_service rr") (auto simp: route_of_def gw_route_def)
  have "\<exists>hint o5. gs_quota (fst (snd (gw_limits tp env rq hint ?idn svc (rr_region rr) s4 o5))) \<noteq> gs_quota s4"
    using ne r rr svc by (auto simp: route_of_def gw_route_def Let_def split: if_splits option.splits)
  then have "rate_ok tp env rq ?idn svc (gs_rl s4) \<and> ?idn \<noteq> None \<and> quota svc \<noteq> None"
    using gw_limits_spares_quota by blast
  then show ?thesis using rr svc f by auto
qed

text \<open>The same worker with a quota and an authenticated request.\<close>

definition demo_quota :: "QuotaPolicy option" where
  "demo_quota = Some \<lparr>daily_limit = 10, borrow_percent = 0\<rparr>"

definition demo_user :: UserIdentity where
  "demo_user = \<lparr>ui_user_id = ''al'', ui_home_region = None\<rparr>"

lemma demo_bearer: "c_str (Some ''Bearer h.p.s'') = map of_char ''Bearer h.p.s''"
    "str_bytes (c_str (Some ''Bearer h.p.s'')) = ''Bearer h.p.s''"
  by (rule c_str_ascii, simp)+

lemma demo_limits_quota:
  "qs_conn (gs_quota s) = False \<Longrightarrow>
     qs_checks_total (gs_quota (fst (snd (gw_limits demo_tp Map.empty (demo_request_reads demo_quota) hint (Some demo_user)
       (demo_service demo_quota) region s outs)))) = qs_checks_total (gs_quota s) + 1"
  by (simp add: gw_limits_def demo_service_def check_rate_limit_def gw_quota_def demo_quota_def check_quota_def demo_tp_def
      numeral_2_eq_2 open_quota_connection_def Let_def gw_select_frame)

lemma demo_quota_spent:
  "gs_quota (fst (snd (process_request demo_tp Map.empty (demo_request_reads demo_quota) (demo_args ''Bearer h.p.s'')
     demo_state demo_outs))) \<noteq> gs_quota demo_state"
proof -
  let ?rq = "demo_request_reads demo_quota" and ?args = "demo_args ''Bearer h.p.s''"
  have w: "gw_waf demo_tp Map.empty ?rq ?args s = (Allow, s)" for s
    by (simp add: gw_waf_def inspect_def demo_args_def demo_c_str demo_bearer(1) body_str_def demo_tp_def str_len_def utf8_char_def)
  have i: "\<exists>c. gw_identity demo_tp Map.empty ?rq ?args s = (Some demo_user, s\<lparr>gs_lru := c\<rparr>)" if "gs_lru s = Map.empty" for s
    using demo_accepts that
    by (auto simp: gw_identity_def demo_args_def demo_bearer(2) demo_tp_def demo_request_reads_def demo_user_def split: prod.splits)
  let ?s2 = "demo_state\<lparr>gs_in_flight := 1, gs_request_counter := 1\<rparr>"
  obtain c where i2: "gw_identity demo_tp Map.empty ?rq ?args ?s2 = (Some demo_user, ?s2\<lparr>gs_lru := c\<rparr>)"
    using i [of ?s2] by (auto simp: demo_state_def)
  have a: "gw_acquire demo_tp (rq_cfg_bp ?rq) demo_state = (True, demo_state\<lparr>gs_in_flight := 1\<rparr>)"
    using demo_acquire [of demo_quota] by (simp add: demo_request_reads_def)
  have r: "route_of demo_tp Map.empty ?rq ?args (Some demo_user)
      = Inr \<lparr>rr_service = Some (demo_service demo_quota), rr_region = ''US'', rr_tier = ''normal'', rr_validation = None\<rparr>"
    by (simp add: demo_route_of demo_user_def)
  have c0: "gs_request_counter demo_state = 0" by (simp add: demo_state_def)
  have "ra_auth_header ?args \<noteq> None" "ra_path ?args \<noteq> None" "ro_region demo_outs \<noteq> None"
    by (simp_all add: demo_args_def demo_outs_def)
  then have "\<exists>o'. process_request demo_tp Map.empty ?rq ?args demo_state demo_outs
      = gw_route demo_tp Map.empty ?rq ?args (Some demo_user) (?s2\<lparr>gs_lru := c\<rparr>) o'"
    using i2 by (auto simp: process_request_def a w c0 Let_def)
  then obtain o' where p: "process_request demo_tp Map.empty ?rq ?args demo_state demo_outs
      = gw_route demo_tp Map.empty ?rq ?args (Some demo_user) (?s2\<lparr>gs_lru := c\<rparr>) o'" by blast
  have "\<exists>hint o''. gw_route demo_tp Map.empty ?rq ?args (Some demo_user) (?s2\<lparr>gs_lru := c\<rparr>) o'
      = gw_limits demo_tp Map.empty ?rq hint (Some demo_user) (demo_service demo_quota) ''US'' (?s2\<lparr>gs_lru := c\<rparr>) o''"
    using r by (auto simp: gw_route_def route_of_def validation_status_def)
  then obtain hint o'' where q: "gw_route demo_tp Map.empty ?rq ?args (Some demo_user) (?s2\<lparr>gs_lru := c\<rparr>) o'
      = gw_limits demo_tp Map.empty ?rq hint (Some demo_user) (demo_service demo_quota) ''US'' (?s2\<lparr>gs_lru := c\<rparr>) o''" by blast
  have n: "qs_conn (gs_quota (?s2\<lparr>gs_lru := c\<rparr>)) = False" "gs_quota (?s2\<lparr>gs_lru := c\<rparr>) = gs_quota demo_state"
    by (simp_all add: demo_state_def)
  have "qs_checks_total (gs_quota (fst (snd (process_request demo_tp Map.empty ?rq ?args demo_state demo_outs))))
      = qs_checks_total (gs_quota demo_state) + 1"
    unfolding p q demo_limits_quota [OF n(1)] n(2) ..
  then show ?thesis by (metis add_cancel_right_right zero_neq_one)
qed

theorem quota_spent_within_rate_limit_witness:
  "\<exists>uid rr svc q. fst (gw_identity demo_tp Map.empty (demo_request_reads demo_quota) (demo_args ''Bearer h.p.s'') demo_state) = Some uid
     \<and> route_of demo_tp Map.empty (demo_request_reads demo_quota) (demo_args ''Bearer h.p.s'') (Some uid) = Inr rr
     \<and> rr_service rr = Some svc \<and> quota svc = Some q
     \<and> rate_ok demo_tp Map.empty (demo_request_reads demo_quota) (Some uid) svc (gs_rl demo_state)"
  by (rule quota_spent_within_rate_limit [OF demo_quota_spent])

section \<open>A header that is not a token\<close>

lemma inspect_with_header:
  assumes "hdr \<noteq> []" and "fst (inspect ac fx es rps now uri hdr ua body ip shm) = Allow"
  shows "snd (inspect ac fx es rps now uri hdr ua body ip shm) = shm"
  using assms by (auto simp: inspect_def waf_block_def split: if_splits)

lemma gw_limits_anonymous:
  "gs_rl (fst (snd (gw_limits tp env rq hint None svc region s outs))) = gs_rl s
   \<and> gs_waf (fst (snd (gw_limits tp env rq hint None svc region s outs))) = gs_waf s"
  by (simp add: gw_limits_def check_rate_limit_def gw_quota_def gw_select_frame reject_def release_slot_def)

lemma gw_route_anonymous:
  "gs_rl (fst (snd (gw_route tp env rq args None s outs))) = gs_rl s
   \<and> gs_waf (fst (snd (gw_route tp env rq args None s outs))) = gs_waf s"
  by (auto simp: gw_route_def reject_def release_slot_def gw_limits_anonymous Let_def split: sum.splits option.splits)

text \<open>(C22)
  Anonymous traffic escapes both limiters with a made-up header. A request whose Authorization
  header is not empty and yields no identity is neither counted against the limit of its source
  address (the firewall only counts requests without the header) nor against a user limit (there
  is no user): when it is admitted, the window words of the firewall and of the rate limiter are
  unchanged, so any number of such requests may follow.
\<close>
theorem made_up_header_escapes_limits:
  assumes "fst (process_request tp env rq args s outs) = 200"
    and "c_str (ra_auth_header args) \<noteq> []" and "fst (gw_identity tp env rq args s) = None"
  shows "gs_waf (fst (snd (process_request tp env rq args s outs))) = gs_waf s
    \<and> gs_rl (fst (snd (process_request tp env rq args s outs))) = gs_rl s"
proof -
  obtain s4 o4 where s4: "process_request tp env rq args s outs = gw_route tp env rq args None s4 o4"
    "fst (gw_waf tp env rq args s) = Allow" "gs_rl s4 = gs_rl s" "gs_waf s4 = gs_waf (snd (gw_waf tp env rq args s))"
    using process_request_stages [OF assms(1)] assms(3) by auto
  have "gs_waf (snd (gw_waf tp env rq args s)) = gs_waf s"
    using s4(2) assms(2) by (auto simp: gw_waf_def case_prod_unfold intro!: inspect_with_header)
  then show ?thesis using s4 gw_route_anonymous [where tp = tp and env = env and rq = rq and args = args and s = s4] by simp
qed

theorem made_up_header_escapes_limits_witness:
  "gs_waf (fst (snd (process_request demo_tp Map.empty (demo_request_reads None) (demo_args ''x'') demo_state demo_outs)))
     = gs_waf demo_state"
proof -
  have h: "''x'' \<in> {[], ''x''}" by simp
  have "c_str (ra_auth_header (demo_args ''x'')) \<noteq> []" by (simp add: demo_args_def demo_c_str)
  with made_up_header_escapes_limits [OF demo_admitted [OF h, of None]] show ?thesis by (simp add: demo_identity)
qed

section \<open>The global breaker\<close>

text \<open>Everything a worker is asked to do, in any order.\<close>

datatype 'r gw_event =
    GwRequest "'r request_reads" request_args request_outs
  | GwReport telemetry_reads int usize "string option"
  | GwRelease

fun gw_step :: "('c, 'r, 'w) third_party \<Rightarrow> env \<Rightarrow> ('c, 'w) gw_state \<Rightarrow> 'r gw_event \<Rightarrow> ('c, 'w) gw_state" where
  "gw_step tp env s (GwRequest rq args outs) = fst (snd (process_request tp env rq args s outs))"
| "gw_step tp env s (GwReport tr status lat up) = report_telemetry tp env tr status lat up s"
| "gw_step tp env s GwRelease = release_slot s"

abbreviation global_open :: "('c, 'r, 'w) third_party \<Rightarrow> ('c, 'w) gw_state \<Rightarrow> bool" where
  "global_open tp s \<equiv> global_state (tp_fx tp) (lb_cb (gs_lb s)) = STATE_OPEN"

lemma open_refuses: "global_open tp s \<Longrightarrow> process_request tp env rq args s outs = (503, s, outs)"
  by (rule process_request_refused) (simp add: gw_acquire_def bp_acquire_cases bp_limit_def)

lemma open_cb_stays: "cb_state cb = STATE_OPEN \<Longrightarrow> cb_record_failure now cb = cb \<and> cb_record_success cb = cb"
  by (simp add: cb_record_failure_def cb_record_failure_env_def cb_record_success_def cb_record_success_env_def)

lemma open_breakers:
  assumes "global_state (tp_fx tp) cb = STATE_OPEN"
  shows "global_state (tp_fx tp) (gw_breakers tp tr status upstream cb) = STATE_OPEN"
proof -
  have f: "global_state (tp_fx tp) (record_failure (tp_fx tp) now c) = STATE_OPEN"
    and t: "global_state (tp_fx tp) (record_success (tp_fx tp) c) = STATE_OPEN"
    if "global_state (tp_fx tp) c = STATE_OPEN" for now c
    using that open_cb_stays [of "get_cb (tp_fx tp) c GLOBAL_NAME"]
    by (simp_all add: global_state_def state_value_def record_failure_def record_success_def get_cb_def set_cb_def)
  have u: "global_state (tp_fx tp) (set_cb (tp_fx tp) u (cb_record_failure now (get_cb (tp_fx tp) cb u)) cb) = STATE_OPEN"
      "global_state (tp_fx tp) (set_cb (tp_fx tp) u (cb_record_success (get_cb (tp_fx tp) cb u)) cb) = STATE_OPEN" for u now
    using assms open_cb_stays [of "get_cb (tp_fx tp) cb GLOBAL_NAME" now]
    by (auto simp: global_state_def state_value_def get_cb_def set_cb_def)
  show ?thesis
    unfolding gw_breakers_def record_failure_for_def record_success_for_def using f t u assms by simp
qed

lemma open_step: "global_open tp s \<Longrightarrow> global_open tp (gw_step tp env s e)"
  by (cases e) (simp_all add: open_refuses report_telemetry_def open_breakers release_slot_def Let_def)

text \<open>(C3)
  The global breaker never recovers. Once it is open, every request is answered 503 without
  reaching a stage that could probe, reports of finished requests leave it open, and so does
  everything else a worker does, in any order and for any clock: the only operation that moves a
  breaker from open to half-open is asked about upstreams, never about the global one.
\<close>
theorem global_breaker_never_recovers:
  assumes "global_state (tp_fx tp) (lb_cb (gs_lb s)) = STATE_OPEN"
  shows "global_state (tp_fx tp) (lb_cb (gs_lb (run (gw_step tp env) s es))) = STATE_OPEN
    \<and> process_request tp env rq args (run (gw_step tp env) s es) outs = (503, run (gw_step tp env) s es, outs)"
proof -
  have "global_open tp (run (gw_step tp env) s es)"
    by (rule run_inv [where I = "global_open tp"]) (simp_all add: open_step assms)
  then show ?thesis by (simp add: open_refuses)
qed

text \<open>Fifty failures without an upstream in between open the global breaker.\<close>

definition demo_tripped :: "(string \<Rightarrow> CachedToken option, unit) gw_state" where
  "demo_tripped = demo_state\<lparr>gs_lb := \<lparr>lb_cb = (\<lambda>_. \<lparr>cb_state = 1, cb_failures = 50, cb_last_failure_time = 100\<rparr>),
     lb_health = (\<lambda>_. fresh_health)\<rparr>\<rparr>"

theorem global_breaker_never_recovers_witness:
  "fst (process_request demo_tp Map.empty (demo_request_reads None) (demo_args [])
     (run (gw_step demo_tp Map.empty) demo_tripped
        [GwRequest (demo_request_reads None) (demo_args []) demo_outs,
         GwReport \<lparr>tr_now_ns = 0, tr_now_ms = 0, tr_now_cb = 1000, tr_now_global = 1000\<rparr> 200 5 (Some ''a:1'')]) demo_outs) = 503"
proof -
  have "global_state (tp_fx demo_tp) (lb_cb (gs_lb demo_tripped)) = STATE_OPEN"
    by (simp add: demo_tripped_def global_state_def state_value_def get_cb_def)
  from global_breaker_never_recovers [OF this] show ?thesis by (simp del: run.simps)
qed

section \<open>Strings and identifiers\<close>

text \<open>(C39)
  Writing a string to an output buffer is safe and faithful: the buffer keeps its length, it is
  terminated, and reading it back as a C string gives the string, cut to the bytes that fit before
  the terminator.
\<close>
theorem c_string_round_trip:
  assumes "CHR 0x00 \<notin> set s" and "b \<noteq> []"
  shows "\<exists>b'. write_c_string s (Some b) = Some b' \<and> length b' = length b
    \<and> takeWhile (\<lambda>c. c \<noteq> CHR 0x00) b' = take (length b - 1) s"
proof -
  let ?n = "min (length s) (length b - 1)"
  have "length (take ?n s @ CHR 0x00 # drop (Suc ?n) b) = length b" using assms(2) by (cases b) auto
  moreover have "\<forall>c \<in> set (take ?n s). c \<noteq> CHR 0x00" using assms(1) by (auto dest: in_set_takeD)
  then have "takeWhile (\<lambda>c. c \<noteq> CHR 0x00) (take ?n s @ CHR 0x00 # drop (Suc ?n) b) = take (length b - 1) s"
    by (subst takeWhile_append2) (auto simp: min_def)
  ultimately show ?thesis using assms(2) by (simp add: write_c_string_def Let_def)
qed

theorem c_string_round_trip_witness:
  "\<exists>b'. write_c_string ''US'' (Some ''........'') = Some b' \<and> length b' = length ''........''
    \<and> takeWhile (\<lambda>c. c \<noteq> CHR 0x00) b' = ''US''"
  using c_string_round_trip [of "''US''" "''........''"] by simp

text \<open>Request identifiers: always 24 characters, and different for different workers or different
  values of the counter, so no two requests of a deployment share one until a counter wraps.
\<close>
lemma request_ids_unique:
  "length (request_id pid n) = 24 \<and> (request_id pid n = request_id pid' n' \<longleftrightarrow> pid = pid' \<and> n = n')"
  by (auto simp: request_id_def append_eq_append_conv hex_pad_inject)

end
