(* ===== verification/Prom_Text.thy ===== *)
theory Prom_Text
  imports Rust_Str F64
begin

text \<open>
  The text format of the two scrape endpoints, \<open>rust-ext/src/telemetry.rs\<close> and
  \<open>config-sidecar/src/metrics.rs\<close>. Both write families of one sample: a help line, a type line and
  the sample. The reader \<open>scrape\<close> is what a collector does with the text: it skips comments and
  splits every other line at its last space. The lemmas say that the reader gives back what was
  written, as long as no name or value carries a line break.
\<close>

section \<open>Writing\<close>

definition newline :: char where "newline = CHR 0x0A"

text \<open>Name, help, type and value of a sample.\<close>

type_synonym sample_family = "string \<times> string \<times> string \<times> string"

definition sample_line :: "string \<Rightarrow> string \<Rightarrow> string" where
  "sample_line n v = n @ '' '' @ v @ [newline]"

definition family_head :: "string \<Rightarrow> string \<Rightarrow> string \<Rightarrow> string" where
  "family_head n h k = ''# HELP '' @ n @ '' '' @ h @ [newline] @ ''# TYPE '' @ n @ '' '' @ k @ [newline]"

definition family_text :: "sample_family \<Rightarrow> string" where
  "family_text = (\<lambda>(n, h, k, v). family_head n h k @ sample_line n v)"

definition families_text :: "sample_family list \<Rightarrow> string" where
  "families_text fs = concat (map family_text fs)"

section \<open>Numbers\<close>

definition uint_string :: "'a::len word \<Rightarrow> string" where
  "uint_string w = dec_string (unat w)"

definition int_string :: "int \<Rightarrow> string" where
  "int_string i = (if i < 0 then CHR ''-'' # dec_string (nat (- i)) else dec_string (nat i))"

text \<open>The format \<open>{:.4}\<close>: the value rounded to four decimals, ties to even.\<close>

fun fixed4 :: "f64 \<Rightarrow> string" where
  "fixed4 (Fin q) =
     (let n = nat (rne (\<bar>q\<bar> * 10000)); f = dec_string (n mod 10000) in
      (if q < 0 then ''-'' else []) @ dec_string (n div 10000) @ ''.'' @ replicate (4 - length f) CHR ''0'' @ f)"
| "fixed4 PInf = ''inf''"
| "fixed4 NInf = ''-inf''"
| "fixed4 NaN = ''NaN''"

section \<open>Reading\<close>

definition last_field :: "string \<Rightarrow> string" where
  "last_field l = rev (takeWhile (\<lambda>c. c \<noteq> CHR '' '') (rev l))"

definition read_line :: "string \<Rightarrow> (string \<times> string) list" where
  "read_line l =
     (if l = [] \<or> hd l = CHR ''#'' then []
      else [(take (length l - Suc (length (last_field l))) l, last_field l)])"

definition scrape :: "string \<Rightarrow> (string \<times> string) list" where
  "scrape t = concat (map read_line (split_on newline t))"

text \<open>The value of a sample, as an unsigned and as a signed number.\<close>

definition read_uint :: "string \<Rightarrow> string \<Rightarrow> 'a::len word option" where
  "read_uint t n = Option.bind (map_of (scrape t) n) parse_uint"

definition parse_int :: "string \<Rightarrow> int option" where
  "parse_int s =
     (case s of
        c # cs \<Rightarrow> if c = CHR ''-'' then map_option (\<lambda>n. - int n) (parse_nat cs) else map_option int (parse_nat s)
      | [] \<Rightarrow> None)"

definition read_int :: "string \<Rightarrow> string \<Rightarrow> int option" where
  "read_int t n = Option.bind (map_of (scrape t) n) parse_int"

section \<open>Reading what was written\<close>

text \<open>Names and values that keep the lines apart.\<close>

definition plain_name :: "string \<Rightarrow> bool" where
  "plain_name n \<longleftrightarrow> n \<noteq> [] \<and> hd n \<noteq> CHR ''#'' \<and> newline \<notin> set n"

definition plain_value :: "string \<Rightarrow> bool" where
  "plain_value v \<longleftrightarrow> newline \<notin> set v \<and> CHR '' '' \<notin> set v"

fun plain_family :: "sample_family \<Rightarrow> bool" where
  "plain_family (n, h, k, v) \<longleftrightarrow> plain_name n \<and> newline \<notin> set h \<and> newline \<notin> set k \<and> plain_value v"

lemma split_on_line: "c \<notin> set l \<Longrightarrow> split_on c (l @ c # r) = l # split_on c r"
  by (induction l) auto

lemma scrape_line: "newline \<notin> set l \<Longrightarrow> scrape (l @ newline # r) = read_line l @ scrape r"
  by (simp add: scrape_def split_on_line)

lemma scrape_Nil [simp]: "scrape [] = []"
  by (simp add: scrape_def read_line_def)

lemma read_line_sample:
  assumes "plain_name n" and "plain_value v"
  shows "read_line (n @ CHR '' '' # v) = [(n, v)]"
proof -
  have "takeWhile (\<lambda>c. c \<noteq> CHR '' '') (rev v @ CHR '' '' # rev n) = rev v"
    using assms(2) by (subst takeWhile_append2) (auto simp: plain_value_def)
  then have "last_field (n @ CHR '' '' # v) = v" by (simp add: last_field_def)
  then show ?thesis using assms(1) by (simp add: read_line_def plain_name_def)
qed

lemma scrape_sample_line:
  assumes "plain_name n" and "plain_value v"
  shows "scrape (sample_line n v @ r) = (n, v) # scrape r"
proof -
  have "newline \<notin> set (n @ CHR '' '' # v)" using assms by (auto simp: plain_name_def plain_value_def newline_def)
  from scrape_line [OF this, of r] show ?thesis
    using read_line_sample [OF assms] by (simp add: sample_line_def)
qed

lemma scrape_head:
  assumes "newline \<notin> set n" and "newline \<notin> set h" and "newline \<notin> set k"
  shows "scrape (family_head n h k @ r) = scrape r"
proof -
  have c: "scrape (''#'' @ l @ newline # r) = scrape r" if "newline \<notin> set l" for l r
    using scrape_line [of "CHR ''#'' # l" r] that by (simp add: read_line_def newline_def)
  have "newline \<notin> set ('' HELP '' @ n @ '' '' @ h)" "newline \<notin> set ('' TYPE '' @ n @ '' '' @ k)"
    using assms by (auto simp: newline_def)
  from c [OF this(1), of "''#'' @ ('' TYPE '' @ n @ '' '' @ k) @ newline # r"] c [OF this(2), of r]
  show ?thesis by (simp add: family_head_def)
qed

lemma scrape_families:
  "list_all plain_family fs \<Longrightarrow> scrape (families_text fs @ r) = map (\<lambda>(n, h, k, v). (n, v)) fs @ scrape r"
  by (induction fs)
    (auto simp: families_text_def family_text_def scrape_head scrape_sample_line plain_name_def)

section \<open>Numbers are read back\<close>

lemma plain_dec_string [simp]: "plain_value (dec_string n)"
  using dec_string_digits [of n] by (auto simp: plain_value_def newline_def list_all_iff is_digit_def)

lemma plain_uint_string [simp]: "plain_value (uint_string w)"
  by (simp add: uint_string_def)

lemma plain_int_string [simp]: "plain_value (int_string i)"
  using plain_dec_string [of "nat (- i)"] plain_dec_string [of "nat i"]
  by (auto simp: int_string_def plain_value_def newline_def)

lemma plain_fixed4 [simp]: "plain_value (fixed4 x)"
  using plain_dec_string [of "nat (rne (\<bar>q\<bar> * 10000)) mod 10000" for q]
    plain_dec_string [of "nat (rne (\<bar>q\<bar> * 10000)) div 10000" for q]
  by (cases x) (auto simp: Let_def plain_value_def newline_def)

lemma parse_uint_string [simp]: "parse_uint (uint_string w) = Some w"
  by (simp add: parse_uint_def uint_string_def parse_nat_dec_string)

lemma parse_int_string [simp]: "parse_int (int_string i) = Some i"
proof (cases "i < 0")
  case False
  obtain c cs where d: "dec_string (nat i) = c # cs"
    using dec_string_digits [of "nat i"] by (cases "dec_string (nat i)") auto
  have "c \<noteq> CHR ''-''" using dec_string_digits [of "nat i"] by (auto simp: d is_digit_def)
  then show ?thesis
    using False parse_nat_dec_string [of "nat i"] by (simp add: int_string_def parse_int_def d)
qed (simp add: int_string_def parse_int_def parse_nat_dec_string)

lemma read_uint_sample: "map_of (scrape t) n = Some (uint_string w) \<Longrightarrow> read_uint t n = Some w"
  by (simp add: read_uint_def)

lemma read_int_sample: "map_of (scrape t) n = Some (int_string i) \<Longrightarrow> read_int t n = Some i"
  by (simp add: read_int_def)

end
