(* ===== verification/Cache.thy ===== *)
theory Cache
  imports Gateway_Prelude "HOL-Library.List_Lexorder" "HOL-Library.Char_ord"
begin

text \<open>
  The per-worker response cache, \<open>rust-ext/src/cache.rs\<close>: keys, lookup with its counters, insertion
  with eviction, and the two invalidations. The cache is a finite map; the order in which a
  \<open>HashMap\<close> yields its keys is the parameter \<open>keys\<close>, an enumeration of the domain.
\<close>

definition DEFAULT_TTL_SECS :: u64 where "DEFAULT_TTL_SECS = 30"
definition L1_MAX_ENTRIES :: nat where [simp]: "L1_MAX_ENTRIES = 5000"

record CacheEntry =
  ce_value :: string
  ce_expires_at :: u64
  ce_etag :: string

definition ce_is_valid :: "u64 \<Rightarrow> CacheEntry \<Rightarrow> bool" where
  "ce_is_valid now e = (now < ce_expires_at e)"

type_synonym l1_map = "string \<rightharpoonup> CacheEntry"

record l1_state =
  l1_cache :: l1_map
  CACHE_HITS :: usize
  CACHE_MISSES :: usize

definition cache_key :: "string \<Rightarrow> string \<Rightarrow> string option \<Rightarrow> string" where
  "cache_key method path user_id =
     (case user_id of Some uid \<Rightarrow> method @ '':'' @ path @ '':'' @ uid | None \<Rightarrow> method @ '':'' @ path)"

definition l1_get :: "u64 \<Rightarrow> string \<Rightarrow> l1_state \<Rightarrow> CacheEntry option \<times> l1_state" where
  "l1_get now key s =
     (case l1_cache s key of
        Some e \<Rightarrow> if ce_is_valid now e then (Some e, s\<lparr>CACHE_HITS := CACHE_HITS s + 1\<rparr>)
                  else (None, s\<lparr>CACHE_MISSES := CACHE_MISSES s + 1\<rparr>)
      | None \<Rightarrow> (None, s\<lparr>CACHE_MISSES := CACHE_MISSES s + 1\<rparr>))"

definition retain :: "(string \<Rightarrow> CacheEntry \<Rightarrow> bool) \<Rightarrow> l1_map \<Rightarrow> l1_map" where
  "retain p m = (\<lambda>k. case m k of Some e \<Rightarrow> if p k e then Some e else None | None \<Rightarrow> None)"

definition remove_all :: "string list \<Rightarrow> l1_map \<Rightarrow> l1_map" where
  "remove_all ks m = fold (\<lambda>k m. m(k := None)) ks m"

definition evict :: "(l1_map \<Rightarrow> string list) \<Rightarrow> u64 \<Rightarrow> l1_map \<Rightarrow> l1_map" where
  "evict keys now m =
     (if L1_MAX_ENTRIES \<le> length (keys m) then
        (let m1 = retain (\<lambda>_ e. now < ce_expires_at e) m in
         if L1_MAX_ENTRIES \<le> length (keys m1)
         then remove_all (take (length (keys m1) div 2) (keys m1)) m1 else m1)
      else m)"

definition l1_set ::
    "(l1_map \<Rightarrow> string list) \<Rightarrow> u64 \<Rightarrow> string \<Rightarrow> string \<Rightarrow> u64 option \<Rightarrow> string \<Rightarrow> l1_state \<Rightarrow> l1_state" where
  "l1_set keys now key val ttl_secs etag s =
     (let expires_at = now + (case ttl_secs of Some t \<Rightarrow> t | None \<Rightarrow> DEFAULT_TTL_SECS) in
      s\<lparr>l1_cache := (evict keys now (l1_cache s))(key \<mapsto> \<lparr>ce_value = val, ce_expires_at = expires_at, ce_etag = etag\<rparr>)\<rparr>)"

definition l1_invalidate :: "string \<Rightarrow> l1_state \<Rightarrow> l1_state" where
  "l1_invalidate key s = s\<lparr>l1_cache := (l1_cache s)(key := None)\<rparr>"

definition l1_invalidate_prefix :: "string \<Rightarrow> l1_state \<Rightarrow> l1_state" where
  "l1_invalidate_prefix pre s = s\<lparr>l1_cache := retain (\<lambda>k _. \<not> contains_str k pre) (l1_cache s)\<rparr>"

section \<open>Properties\<close>

text \<open>An enumeration of the keys of every finite map.\<close>

definition enumerates :: "(l1_map \<Rightarrow> string list) \<Rightarrow> bool" where
  "enumerates keys \<longleftrightarrow> (\<forall>m. finite (dom m) \<longrightarrow> distinct (keys m) \<and> set (keys m) = dom m)"

lemma retain_dom: "dom (retain p m) \<subseteq> dom m"
  by (auto simp: retain_def split: option.splits if_splits)

lemma remove_all_key: "remove_all ks m k = (if k \<in> set ks then None else m k)"
  unfolding remove_all_def by (induction ks arbitrary: m) auto

lemma keys_card: "enumerates keys \<Longrightarrow> finite (dom m) \<Longrightarrow> length (keys m) = card (dom m)"
  unfolding enumerates_def by (metis distinct_card)

lemma evict_dom: "dom (evict keys now m) \<subseteq> dom m"
proof -
  have "dom (remove_all ks m') \<subseteq> dom m'" for ks m' by (auto simp: remove_all_key split: if_splits)
  then have "dom (remove_all ks (retain p m)) \<subseteq> dom m" for ks p using retain_dom by (rule subset_trans)
  then show ?thesis by (simp add: evict_def Let_def retain_dom)
qed

lemma evict_room:
  assumes "enumerates keys" and "finite (dom m)" and "card (dom m) \<le> 5000"
  shows "card (dom (evict keys now m)) < 5000"
proof -
  let ?m1 = "retain (\<lambda>_ e. now < ce_expires_at e) m"
  have f1: "finite (dom ?m1)" using assms(2) retain_dom by (rule finite_subset [rotated])
  have "card (dom ?m1) \<le> 5000" using card_mono [OF assms(2) retain_dom] assms(3) by (rule order_trans)
  moreover have "card (dom (remove_all (take n (keys ?m1)) ?m1)) = card (dom ?m1) - n" if "n \<le> card (dom ?m1)" for n
  proof -
    have "dom (remove_all (take n (keys ?m1)) ?m1) = dom ?m1 - set (take n (keys ?m1))"
      by (auto simp: remove_all_key split: if_splits)
    moreover have "set (take n (keys ?m1)) \<subseteq> dom ?m1"
      using assms(1) f1 set_take_subset unfolding enumerates_def by fastforce
    moreover have "card (set (take n (keys ?m1))) = n"
      using assms(1) f1 that keys_card [OF assms(1) f1] unfolding enumerates_def by (simp add: distinct_card)
    ultimately show ?thesis using f1 by (simp add: card_Diff_subset finite_subset)
  qed
  ultimately show ?thesis
    using assms keys_card [OF assms(1) f1] keys_card [OF assms(1,2)] by (auto simp: evict_def Let_def)
qed

text \<open>The sorted enumeration is one instance.\<close>

lemma sorted_keys_enumerate: "enumerates (\<lambda>m. sorted_list_of_set (dom m))"
  unfolding enumerates_def by simp

lemma l1_set_bounded:
  assumes "enumerates keys" and "finite (dom (l1_cache s))" and "card (dom (l1_cache s)) \<le> 5000"
  shows "finite (dom (l1_cache (l1_set keys now key val ttl etag s)))
    \<and> card (dom (l1_cache (l1_set keys now key val ttl etag s))) \<le> 5000"
proof -
  let ?m = "evict keys now (l1_cache s)"
  have f: "finite (dom ?m)" using evict_dom assms(2) by (rule finite_subset)
  have "card (insert key (dom ?m)) \<le> Suc (card (dom ?m))" by (simp add: f card_insert_if)
  then show ?thesis using f evict_room [OF assms, of now] by (simp add: l1_set_def Let_def)
qed

text \<open>The operations as events, each with the clock reading it takes.\<close>

datatype l1_event =
    L1Get u64 string
  | L1Set u64 string string "u64 option" string
  | L1Invalidate string
  | L1InvalidatePrefix string

fun l1_step :: "(l1_map \<Rightarrow> string list) \<Rightarrow> l1_state \<Rightarrow> l1_event \<Rightarrow> l1_state" where
  "l1_step keys s (L1Get now k) = snd (l1_get now k s)"
| "l1_step keys s (L1Set now k v ttl tag) = l1_set keys now k v ttl tag s"
| "l1_step keys s (L1Invalidate k) = l1_invalidate k s"
| "l1_step keys s (L1InvalidatePrefix p) = l1_invalidate_prefix p s"

definition l1_init :: l1_state where
  "l1_init = \<lparr>l1_cache = Map.empty, CACHE_HITS = 0, CACHE_MISSES = 0\<rparr>"

lemma l1_get_frame [simp]: "l1_cache (snd (l1_get now k s)) = l1_cache s"
  by (simp add: l1_get_def split: option.splits)

lemma shrink_bounded:
  assumes "finite (dom m) \<and> card (dom m) \<le> n" and "dom m' \<subseteq> dom m"
  shows "finite (dom m') \<and> card (dom m') \<le> n"
  using assms card_mono [of "dom m" "dom m'"] by (auto intro: finite_subset)

text \<open>The response cache is bounded: from the empty cache, any sequence of lookups, insertions and
  invalidations, at any clock readings, leaves at most 5000 entries, whatever order the hash map
  yields its keys in.
\<close>
lemma cache_bounded:
  assumes "enumerates keys"
  shows "finite (dom (l1_cache (run (l1_step keys) l1_init es)))
    \<and> card (dom (l1_cache (run (l1_step keys) l1_init es))) \<le> 5000"
proof (rule run_inv [where I = "\<lambda>s. finite (dom (l1_cache s)) \<and> card (dom (l1_cache s)) \<le> 5000"])
  fix s :: l1_state and e assume i: "finite (dom (l1_cache s)) \<and> card (dom (l1_cache s)) \<le> 5000"
  show "finite (dom (l1_cache (l1_step keys s e))) \<and> card (dom (l1_cache (l1_step keys s e))) \<le> 5000"
  proof (cases e)
    case (L1Set now k v ttl tag)
    then show ?thesis using i l1_set_bounded [OF assms] by simp
  next
    case (L1Invalidate k)
    have "dom ((l1_cache s)(k := None)) \<subseteq> dom (l1_cache s)" by auto
    from shrink_bounded [OF i this] show ?thesis using L1Invalidate by (simp add: l1_invalidate_def)
  next
    case (L1InvalidatePrefix p)
    from shrink_bounded [OF i retain_dom] show ?thesis
      using L1InvalidatePrefix by (simp add: l1_invalidate_prefix_def)
  qed (use i in simp)
qed (simp add: l1_init_def)

lemma cache_bounded_witness:
  "card (dom (l1_cache (run (l1_step (\<lambda>m. sorted_list_of_set (dom m))) l1_init
     [L1Set 1000 ''GET:/a'' ''x'' None ''e'', L1Get 1010 ''GET:/a'']))) \<le> 5000"
  using cache_bounded [OF sorted_keys_enumerate] by blast

text \<open>
  The specification of a lookup: the entry of the last store under the key, gone after an
  invalidation that names the key or a part of it.
\<close>

fun spec_step :: "string \<Rightarrow> CacheEntry option \<Rightarrow> l1_event \<Rightarrow> CacheEntry option" where
  "spec_step k c (L1Get now k') = c"
| "spec_step k c (L1Set now k' v ttl tag) =
     (if k' = k then Some \<lparr>ce_value = v, ce_expires_at = now + unwrap_or ttl 30, ce_etag = tag\<rparr> else c)"
| "spec_step k c (L1Invalidate k') = (if k' = k then None else c)"
| "spec_step k c (L1InvalidatePrefix p) = (if contains_str k p then None else c)"

definition agrees :: "string \<Rightarrow> l1_state \<Rightarrow> CacheEntry option \<Rightarrow> bool" where
  "agrees k s c \<longleftrightarrow> l1_cache s k = None \<or> l1_cache s k = c"

lemma evict_key: "evict keys now m k = None \<or> evict keys now m k = m k"
  by (auto simp: evict_def Let_def remove_all_key retain_def split: option.splits)

lemma agrees_step:
  assumes "agrees k s c"
  shows "agrees k (l1_step keys s e) (spec_step k c e)"
proof (cases e)
  case (L1Set now k' v ttl tag)
  then show ?thesis
    using assms evict_key [of keys now "l1_cache s" k]
    by (auto simp: agrees_def l1_set_def Let_def unwrap_or_def DEFAULT_TTL_SECS_def split: option.splits)
qed (use assms in \<open>auto simp: agrees_def l1_invalidate_def l1_invalidate_prefix_def retain_def split: option.splits\<close>)

lemma agrees_run: "agrees k s c \<Longrightarrow> agrees k (run (l1_step keys) s es) (run (spec_step k) c es)"
  by (induction es arbitrary: s c) (simp_all add: agrees_step)

text \<open>(C33)
  The cache serves only what was stored last: after any sequence of operations, whatever a lookup
  returns is the entry of the last store under that very key, no later invalidation names the key
  or a part of it, and the entry has not expired; evictions can only turn a hit into a miss.
\<close>
theorem cache_serves_last_store:
  assumes "fst (l1_get now k (run (l1_step keys) l1_init es)) = Some e"
  shows "run (spec_step k) None es = Some e \<and> now < ce_expires_at e"
  using assms agrees_run [of k l1_init None keys es]
  by (auto simp: agrees_def l1_init_def l1_get_def ce_is_valid_def split: option.splits if_splits)

theorem cache_serves_last_store_witness:
  "run (spec_step ''GET:/a'') None
      [L1Set 1000 ''GET:/a'' ''old'' None ''1'', L1Set 1001 ''GET:/a'' ''new'' (Some 5) ''2'', L1Invalidate ''GET:/b'']
    = Some \<lparr>ce_value = ''new'', ce_expires_at = 1006, ce_etag = ''2''\<rparr> \<and> (1005 :: u64) < 1006"
  using cache_serves_last_store [of 1005 "''GET:/a''" "\<lambda>_. []"
      "[L1Set 1000 ''GET:/a'' ''old'' None ''1'', L1Set 1001 ''GET:/a'' ''new'' (Some 5) ''2'', L1Invalidate ''GET:/b'']"
      "\<lparr>ce_value = ''new'', ce_expires_at = 1006, ce_etag = ''2''\<rparr>"]
  by (simp add: l1_init_def l1_set_def l1_get_def l1_invalidate_def evict_def ce_is_valid_def unwrap_or_def)

text \<open>
  A path that ends in a colon and a name has the key of the shorter path for the user of that
  name: an anonymous response and a user's response share one entry.
\<close>
lemma cache_key_collision: "cache_key m (p @ '':'' @ uid) None = cache_key m p (Some uid)"
  by (simp add: cache_key_def)

end
