(* ===== verification/Exposition.thy ===== *)
theory Exposition
  imports Prom_Text Telemetry Health Cache Rate_Limit Revocation Quota Sentinel Waf Backpressure Config
begin

text \<open>
  The metrics endpoint of the gateway: \<open>prometheus_text\<close> of \<open>rust-ext/src/telemetry.rs\<close>, the fragment
  of \<open>health.rs\<close> it includes, and \<open>get_metrics_string\<close> of \<open>lib.rs\<close>, which hands the text to the
  server as a C string. Every value is one atomic load from the component that owns it; the record
  \<open>prom_state\<close> holds what the loads see, with the configuration twice because it is loaded twice.
  \<open>sec\<close> gives the second each of the four aggregations of the Redis window reads. The lock of the
  upstream registry is never poisoned: its holders do not panic.
\<close>

section \<open>What the loads see\<close>

record ('w, 'q) prom_state =
  pr_metrics :: Metrics
  pr_cfg :: GatewayConfig
  pr_cfg_ready :: GatewayConfig
  pr_in_flight :: int
  pr_breakers :: cb_shm
  pr_waf :: waf_shm
  pr_cache :: l1_state
  pr_rl :: rl_counters
  pr_rl_restarts :: u64
  pr_redis_cb :: CircuitBreaker
  pr_rev :: "'w rev_state"
  pr_health :: health_state
  pr_posture :: posture_state
  pr_quota :: "'q quota_state"

section \<open>The parts of the text\<close>

definition request_families :: "Metrics \<Rightarrow> sample_family list" where
  "request_families m =
      [(''gateway_requests_total'', ''Total requests processed'', ''counter'',
        uint_string (requests_total m)),
       (''gateway_requests_401_total'', ''Unauthorized requests'', ''counter'',
        uint_string (requests_401 m)),
       (''gateway_requests_429_total'', ''Rate-limited requests'', ''counter'',
        uint_string (requests_429 m)),
       (''gateway_requests_5xx_total'', ''Server error responses'', ''counter'',
        uint_string (requests_5xx m))]"

text \<open>The cumulative histogram: one line per bound, the line of all requests, sum and count.\<close>

definition bucket_name :: "string \<Rightarrow> string" where
  "bucket_name le = ''gateway_latency_us_bucket{le='' @ [CHR 0x22] @ le @ [CHR 0x22] @ ''}''"

definition histogram_samples :: "Metrics \<Rightarrow> (string \<times> string) list" where
  "histogram_samples m =
     map2 (\<lambda>bound count. (bucket_name (uint_string bound), uint_string count)) HIST_BUCKETS_US (latency_buckets m)
     @ [(bucket_name ''+Inf'', uint_string (latency_us_count m)),
        (''gateway_latency_us_sum'', uint_string (latency_us_sum m)),
        (''gateway_latency_us_count'', uint_string (latency_us_count m))]"

definition latency_text :: "Metrics \<Rightarrow> string" where
  "latency_text m =
     family_head ''gateway_latency_us'' ''Latency histogram in microseconds'' ''histogram''
     @ concat (map (\<lambda>(n, v). sample_line n v) (histogram_samples m))"

definition gateway_families :: "(string \<Rightarrow> u64) \<Rightarrow> env \<Rightarrow> ('w, 'q) prom_state \<Rightarrow> sample_family list" where
  "gateway_families fx env p =
      [(''gateway_in_flight'', ''Current in-flight requests'', ''gauge'',
        int_string (pr_in_flight p)),
       (''gateway_max_concurrency'', ''Configured concurrency ceiling'', ''gauge'',
        int_string (sint (global_max_concurrency (pr_cfg p)))),
       (''gateway_waf_blocks_total'', ''Requests blocked by the WAF'', ''counter'',
        uint_string (waf_blocks_total (pr_waf p))),
       (''gateway_config_ready'', ''1 when a non-default config snapshot is loaded'', ''gauge'',
        if is_config_ready (pr_cfg_ready p) then ''1'' else ''0''),
       (''gateway_cache_hits_total'', ''L1 cache hits'', ''counter'',
        uint_string (CACHE_HITS (pr_cache p))),
       (''gateway_cache_misses_total'', ''L1 cache misses'', ''counter'',
        uint_string (CACHE_MISSES (pr_cache p))),
       (''gateway_circuit_breaker_state'', ''Global CB state (0=closed,1=open,2=half-open)'', ''gauge'',
        uint_string (global_state fx (pr_breakers p))),
       (''gateway_up'', ''Gateway process is up'', ''gauge'',
        ''1''),
       (''gateway_rate_limit_redis_syncs_total'', ''Successful fleet-wide RL Redis syncs'', ''counter'',
        uint_string (syncs_ok (pr_rl p))),
       (''gateway_rate_limit_redis_sync_errors_total'', ''Failed RL Redis syncs (fail-open)'', ''counter'',
        uint_string (syncs_err (pr_rl p))),
       (''gateway_rate_limit_sync_thread_restarts_total'', ''Times RL sync thread restarted'', ''counter'',
        uint_string (pr_rl_restarts p)),
       (''gateway_rate_limit_redis_enabled'', ''1 if Redis fleet sync is active'', ''gauge'',
        if rl_redis_enabled env then ''1'' else ''0'')]"

definition redis_families :: "(nat \<Rightarrow> u32) \<Rightarrow> CircuitBreaker \<Rightarrow> sample_family list" where
  "redis_families sec cb =
      [(''redis_requests_total'', ''Total Redis operations attempted'', ''counter'',
        uint_string (redis_requests_total cb)),
       (''redis_success_total'', ''Successful Redis operations'', ''counter'',
        uint_string (redis_success_total cb)),
       (''redis_errors_total'', ''Redis operation errors (excludes timeouts)'', ''counter'',
        uint_string (redis_errors_total cb)),
       (''redis_timeouts_total'', ''Redis operation timeouts'', ''counter'',
        uint_string (redis_timeouts_total cb)),
       (''redis_circuit_state'', ''Circuit breaker state (0=CLOSED,1=OPEN,2=HALF_OPEN)'', ''gauge'',
        uint_string (state cb)),
       (''redis_circuit_open_total'', ''Times circuit transitioned to OPEN'', ''counter'',
        uint_string (circuit_open_total cb)),
       (''redis_circuit_half_open_total'', ''Times circuit transitioned to HALF_OPEN'', ''counter'',
        uint_string (circuit_half_open_total cb)),
       (''redis_circuit_rejected_total'', ''Requests rejected because circuit was OPEN or concurrency limit hit'', ''counter'',
        uint_string (circuit_rejected_total cb)),
       (''redis_inflight_current'', ''Current Redis operations in flight'', ''gauge'',
        int_string (inflight_count cb)),
       (''redis_latency_p50_us'', ''Rolling p50 Redis latency in microseconds'', ''gauge'',
        uint_string (p50_us (sec 0) cb)),
       (''redis_latency_p95_us'', ''Rolling p95 Redis latency in microseconds'', ''gauge'',
        uint_string (p95_us (sec 1) cb)),
       (''redis_latency_p99_us'', ''Rolling p99 Redis latency in microseconds'', ''gauge'',
        uint_string (p99_us (sec 2) cb)),
       (''redis_error_rate_rolling'', ''Rolling error rate (0.0-1.0)'', ''gauge'',
        fixed4 (rcb_error_rate (sec 3) cb))]"

definition auth_families :: "u64 \<Rightarrow> 'w rev_state \<Rightarrow> sample_family list" where
  "auth_families now_ms rv =
     (case rev_stats now_ms (rv_snapshot rv) of (snap_gen, snap_age, snap_revoked, snap_tv) \<Rightarrow>
      [(''gateway_auth_snapshot_syncs_total'', ''Successful revocation-snapshot syncs from Redis'', ''counter'',
        uint_string (rv_sync_ok rv)),
       (''gateway_auth_snapshot_sync_errors_total'', ''Failed snapshot sync cycles'', ''counter'',
        uint_string (rv_sync_err rv)),
       (''gateway_auth_snapshot_generation'', ''Snapshot publish generation'', ''gauge'',
        uint_string (snap_gen)),
       (''gateway_auth_snapshot_age_seconds'', ''Age of the local auth snapshot'', ''gauge'',
        uint_string (snap_age)),
       (''gateway_auth_snapshot_revoked_entries'', ''Locally cached revoked-token keys'', ''gauge'',
        dec_string (snap_revoked)),
       (''gateway_auth_snapshot_tv_floors'', ''Locally synced token-version floors'', ''gauge'',
        dec_string (snap_tv))])"

definition probe_families :: "health_state \<Rightarrow> sample_family list" where
  "probe_families h =
      [(''gateway_active_health_checks_total'', ''Active health probes sent'', ''counter'',
        uint_string (hs_checks_total h)),
       (''gateway_active_health_failures_total'', ''Failed active probes'', ''counter'',
        uint_string (hs_check_failures_total h))]"

definition sentinel_families :: "posture_state \<Rightarrow> sample_family list" where
  "sentinel_families ps =
      [(''gateway_sentinel_level'', ''Adaptive defense posture (0 normal, 2 elevated, 3 guarded, 4 lockdown)'', ''gauge'',
        uint_string (posture ps)),
       (''gateway_sentinel_transitions_total'', ''Posture transitions since boot'', ''counter'',
        uint_string (transitions_total ps))]"

definition quota_families :: "'q quota_state \<Rightarrow> sample_family list" where
  "quota_families q =
      [(''gateway_quota_checks_total'', ''Quota pipeline checks executed'', ''counter'',
        uint_string (qs_checks_total q)),
       (''gateway_quota_rejected_total'', ''Requests rejected for daily quota'', ''counter'',
        uint_string (qs_rejected_total q)),
       (''gateway_quota_borrowed_total'', ''Requests admitted via grace borrowing (ADR-0073)'', ''counter'',
        uint_string (qs_borrowed_total q))]"

section \<open>The upstreams\<close>

definition upstream_name :: "string \<Rightarrow> string" where
  "upstream_name a = ''gateway_active_health_up{upstream='' @ [CHR 0x22] @ escape_label a @ [CHR 0x22] @ ''}''"

fun upstream_lines :: "(string \<Rightarrow> u64) \<Rightarrow> string list \<Rightarrow> health_shm \<Rightarrow> string \<times> health_shm" where
  "upstream_lines fx [] shm = ([], shm)"
| "upstream_lines fx (a # as) shm =
     (case slot_touch fx a shm of (s, shm1) \<Rightarrow>
        (case upstream_lines fx as shm1 of (t, shm2) \<Rightarrow>
           (sample_line (upstream_name a) (int_string (uh_healthy s)) @ t, shm2)))"

definition prometheus_fragment :: "(string \<Rightarrow> u64) \<Rightarrow> health_state \<Rightarrow> string \<times> health_state" where
  "prometheus_fragment fx h =
     (case upstream_lines fx (hs_registry h) (hs_shm h) of (t, shm) \<Rightarrow>
        (family_head ''gateway_active_health_up'' ''1 when active probes consider the upstream up'' ''gauge'' @ t,
         h\<lparr>hs_shm := shm\<rparr>))"

section \<open>The whole text\<close>

definition prometheus_text ::
    "(string \<Rightarrow> u64) \<Rightarrow> env \<Rightarrow> (nat \<Rightarrow> u32) \<Rightarrow> u64 \<Rightarrow> ('w, 'q) prom_state \<Rightarrow> string \<times> ('w, 'q) prom_state" where
  "prometheus_text fx env sec now_ms p =
     (case prometheus_fragment fx (pr_health p) of (fragment, h) \<Rightarrow>
        (families_text (request_families (pr_metrics p)) @ latency_text (pr_metrics p)
         @ families_text (gateway_families fx env p) @ families_text (redis_families sec (pr_redis_cb p))
         @ families_text (auth_families now_ms (pr_rev p)) @ fragment @ families_text (probe_families h)
         @ families_text (sentinel_families (pr_posture p)) @ families_text (quota_families (pr_quota p)),
         p\<lparr>pr_health := h\<rparr>))"

text \<open>\<open>CString::new\<close> refuses a text with a zero byte; the caller then gets a null pointer.\<close>

definition get_metrics_string ::
    "(string \<Rightarrow> u64) \<Rightarrow> env \<Rightarrow> (nat \<Rightarrow> u32) \<Rightarrow> u64 \<Rightarrow> ('w, 'q) prom_state \<Rightarrow> string option \<times> ('w, 'q) prom_state" where
  "get_metrics_string fx env sec now_ms p =
     (case prometheus_text fx env sec now_ms p of (t, p') \<Rightarrow>
        ((if CHR 0x00 \<in> set t then None else Some t), p'))"

section \<open>Every line is well formed\<close>

lemmas family_defs = request_families_def gateway_families_def redis_families_def auth_families_def
  probe_families_def sentinel_families_def quota_families_def

lemma plain_families:
  "list_all plain_family (request_families m)"
  "list_all plain_family (gateway_families fx env p)"
  "list_all plain_family (redis_families sec cb)"
  "list_all plain_family (auth_families now_ms rv)"
  "list_all plain_family (probe_families h)"
  "list_all plain_family (sentinel_families ps)"
  "list_all plain_family (quota_families q)"
  by (simp_all add: family_defs plain_name_def newline_def plain_value_def [of "[_]"] split: prod.split)

lemma plain_bucket_name [simp]: "plain_value le \<Longrightarrow> plain_name (bucket_name le)"
  by (auto simp: plain_name_def plain_value_def bucket_name_def newline_def)

lemma scrape_samples:
  "\<forall>(n, v) \<in> set ss. plain_name n \<and> plain_value v \<Longrightarrow>
     scrape (concat (map (\<lambda>(n, v). sample_line n v) ss) @ r) = ss @ scrape r"
  by (induction ss) (auto simp: scrape_sample_line)

lemma scrape_latency: "scrape (latency_text m @ r) = histogram_samples m @ scrape r"
proof -
  have "\<forall>(n, v) \<in> set (histogram_samples m). plain_name n \<and> plain_value v"
    by (auto simp: histogram_samples_def plain_name_def [of "c # cs" for c cs] plain_value_def [of "c # cs" for c cs] newline_def)
  then show ?thesis by (simp add: latency_text_def scrape_head scrape_samples newline_def)
qed

text \<open>Label values are escaped so that no address breaks a line, and are read back by the format's rules.\<close>

fun unescape_label :: "string \<Rightarrow> string" where
  "unescape_label [] = []"
| "unescape_label [c] = [c]"
| "unescape_label (c # d # cs) =
     (if c = CHR 0x5C then (if d = CHR ''n'' then newline else d) # unescape_label cs else c # unescape_label (d # cs))"

lemma escape_label_simps [simp]:
  "escape_label [] = []"
  "escape_label (c # cs) =
     (if c = CHR 0x5C then [CHR 0x5C, CHR 0x5C] else if c = CHR 0x22 then [CHR 0x5C, CHR 0x22]
      else if c = newline then [CHR 0x5C, CHR ''n''] else [c]) @ escape_label cs"
  by (simp_all add: escape_label_def replace_char_def newline_def)

lemma unescape_plain: "c \<noteq> CHR 0x5C \<Longrightarrow> unescape_label (c # cs) = c # unescape_label cs"
  by (cases cs) simp_all

lemma unescape_escape: "unescape_label (escape_label a) = a"
  by (induction a) (auto simp: unescape_plain newline_def)

lemma escape_label_inject [simp]: "escape_label a = escape_label b \<longleftrightarrow> a = b"
  by (metis unescape_escape)

lemma escape_label_no_newline: "newline \<notin> set (escape_label a)"
  by (induction a) (auto simp: newline_def)

lemma plain_upstream_name [simp]: "plain_name (upstream_name a)"
  using escape_label_no_newline [of a] by (auto simp: plain_name_def upstream_name_def newline_def)

section \<open>The samples of the text\<close>

text \<open>What a probe of the metrics reports for an address: the flag of its slot, seeded when new.\<close>

definition reported_up :: "(string \<Rightarrow> u64) \<Rightarrow> health_shm \<Rightarrow> string \<Rightarrow> int" where
  "reported_up fx shm a = uh_healthy (seed (shm (health_index fx a)))"

lemma seed_idem [simp]: "seed (seed s) = seed s"
  by (simp add: seed_def)

lemma reported_up_touch: "reported_up fx (snd (slot_touch fx a shm)) = reported_up fx shm"
  by (rule ext) (simp add: reported_up_def slot_touch_def Let_def)

lemma scrape_upstreams:
  "scrape (fst (upstream_lines fx as shm) @ r)
     = map (\<lambda>a. (upstream_name a, int_string (reported_up fx shm a))) as @ scrape r"
proof (induction as arbitrary: shm)
  case (Cons a as)
  have "uh_healthy (fst (slot_touch fx a shm)) = reported_up fx shm a"
    by (simp add: slot_touch_def reported_up_def Let_def)
  then show ?case
    using Cons [of "snd (slot_touch fx a shm)"]
    by (simp add: reported_up_touch scrape_sample_line case_prod_beta)
qed simp

definition family_samples :: "sample_family list \<Rightarrow> (string \<times> string) list" where
  "family_samples = map (\<lambda>(n, h, k, v). (n, v))"

definition prom_samples ::
    "(string \<Rightarrow> u64) \<Rightarrow> env \<Rightarrow> (nat \<Rightarrow> u32) \<Rightarrow> u64 \<Rightarrow> ('w, 'q) prom_state \<Rightarrow> (string \<times> string) list" where
  "prom_samples fx env sec now_ms p =
     family_samples (request_families (pr_metrics p)) @ histogram_samples (pr_metrics p)
     @ family_samples (gateway_families fx env p) @ family_samples (redis_families sec (pr_redis_cb p))
     @ family_samples (auth_families now_ms (pr_rev p))
     @ map (\<lambda>a. (upstream_name a, int_string (reported_up fx (hs_shm (pr_health p)) a))) (hs_registry (pr_health p))
     @ family_samples (probe_families (pr_health p)) @ family_samples (sentinel_families (pr_posture p))
     @ family_samples (quota_families (pr_quota p))"

lemma scrape_families_end: "list_all plain_family fs \<Longrightarrow> scrape (families_text fs) = family_samples fs"
  using scrape_families [of fs "[]"] by (simp add: family_samples_def)

lemma scrape_fragment:
  "scrape (fst (prometheus_fragment fx h) @ r)
     = map (\<lambda>a. (upstream_name a, int_string (reported_up fx (hs_shm h) a))) (hs_registry h) @ scrape r"
proof -
  have "newline \<notin> set ''gateway_active_health_up''" "newline \<notin> set ''1 when active probes consider the upstream up''"
    "newline \<notin> set ''gauge''"
    by (simp_all add: newline_def)
  note scrape_head [OF this]
  then show ?thesis
    using scrape_upstreams [of fx "hs_registry h" "hs_shm h" r] by (simp add: prometheus_fragment_def case_prod_beta)
qed

lemma probe_families_fragment: "probe_families (snd (prometheus_fragment fx h)) = probe_families h"
  by (simp add: prometheus_fragment_def probe_families_def split: prod.split)

lemma scrape_prometheus_text: "scrape (fst (prometheus_text fx env sec now_ms p)) = prom_samples fx env sec now_ms p"
proof -
  have "fst (prometheus_text fx env sec now_ms p)
      = families_text (request_families (pr_metrics p)) @ latency_text (pr_metrics p)
         @ families_text (gateway_families fx env p) @ families_text (redis_families sec (pr_redis_cb p))
         @ families_text (auth_families now_ms (pr_rev p)) @ fst (prometheus_fragment fx (pr_health p))
         @ families_text (probe_families (pr_health p))
         @ families_text (sentinel_families (pr_posture p)) @ families_text (quota_families (pr_quota p))"
    using probe_families_fragment [of fx "pr_health p"] by (simp add: prometheus_text_def case_prod_beta)
  then show ?thesis
    by (simp only: scrape_families plain_families scrape_latency scrape_fragment scrape_families_end
        prom_samples_def family_samples_def)
qed

section \<open>No name twice\<close>

text \<open>The names around the lines of the upstreams.\<close>

definition names_before :: "string list" where
  "names_before =
     [''gateway_requests_total'', ''gateway_requests_401_total'',
      ''gateway_requests_429_total'', ''gateway_requests_5xx_total'']
     @ map bucket_name [''100'', ''250'', ''500'', ''1000'', ''2500'', ''5000'', ''10000'', ''+Inf'']
     @ [''gateway_latency_us_sum'', ''gateway_latency_us_count'']
     @ [''gateway_in_flight'', ''gateway_max_concurrency'', ''gateway_waf_blocks_total'',
      ''gateway_config_ready'', ''gateway_cache_hits_total'',
      ''gateway_cache_misses_total'', ''gateway_circuit_breaker_state'', ''gateway_up'',
      ''gateway_rate_limit_redis_syncs_total'',
      ''gateway_rate_limit_redis_sync_errors_total'',
      ''gateway_rate_limit_sync_thread_restarts_total'',
      ''gateway_rate_limit_redis_enabled'']
     @ [''redis_requests_total'', ''redis_success_total'', ''redis_errors_total'',
      ''redis_timeouts_total'', ''redis_circuit_state'', ''redis_circuit_open_total'',
      ''redis_circuit_half_open_total'', ''redis_circuit_rejected_total'',
      ''redis_inflight_current'', ''redis_latency_p50_us'', ''redis_latency_p95_us'',
      ''redis_latency_p99_us'', ''redis_error_rate_rolling'']
     @ [''gateway_auth_snapshot_syncs_total'', ''gateway_auth_snapshot_sync_errors_total'',
      ''gateway_auth_snapshot_generation'', ''gateway_auth_snapshot_age_seconds'',
      ''gateway_auth_snapshot_revoked_entries'', ''gateway_auth_snapshot_tv_floors'']"

definition names_after :: "string list" where
  "names_after =
     [''gateway_active_health_checks_total'', ''gateway_active_health_failures_total'']
     @ [''gateway_sentinel_level'', ''gateway_sentinel_transitions_total'']
     @ [''gateway_quota_checks_total'', ''gateway_quota_rejected_total'',
      ''gateway_quota_borrowed_total'']"

definition upstream_prefix :: string where "upstream_prefix = ''gateway_active_health_up{''"

lemma names_distinct:
  "distinct (names_before @ names_after)"
  "list_all (\<lambda>n. take (length upstream_prefix) n \<noteq> upstream_prefix) (names_before @ names_after)"
  by code_simp+

lemma bucket_names: "map (\<lambda>b. uint_string b) HIST_BUCKETS_US = [''100'', ''250'', ''500'', ''1000'', ''2500'', ''5000'', ''10000'']"
  by (simp add: HIST_BUCKETS_US_def uint_string_def dec_string.simps char_of_eq_iff)

lemma histogram_names:
  assumes "length (latency_buckets m) = 7"
  shows "map fst (histogram_samples m) =
    map bucket_name [''100'', ''250'', ''500'', ''1000'', ''2500'', ''5000'', ''10000'', ''+Inf'']
     @ [''gateway_latency_us_sum'', ''gateway_latency_us_count'']"
proof -
  have "map fst (map2 (\<lambda>b c. (bucket_name (uint_string b), uint_string c)) HIST_BUCKETS_US (latency_buckets m))
      = map bucket_name (map uint_string (map fst (zip HIST_BUCKETS_US (latency_buckets m))))"
    by (simp add: case_prod_beta comp_def)
  moreover have "map fst (zip HIST_BUCKETS_US (latency_buckets m)) = HIST_BUCKETS_US"
    using assms by (simp add: HIST_BUCKETS_US_def)
  ultimately show ?thesis using bucket_names by (simp add: histogram_samples_def)
qed

lemma sample_names:
  assumes "length (latency_buckets (pr_metrics p)) = 7"
  shows "map fst (prom_samples fx env sec now_ms p)
    = names_before @ map upstream_name (hs_registry (pr_health p)) @ names_after"
  using histogram_names [OF assms]
  by (simp add: prom_samples_def family_samples_def family_defs rev_stats_def names_before_def names_after_def comp_def)

lemma distinct_names:
  assumes "length (latency_buckets (pr_metrics p)) = 7" and "distinct (hs_registry (pr_health p))"
  shows "distinct (map fst (prom_samples fx env sec now_ms p))"
proof -
  have "upstream_name a = upstream_prefix @ drop (length upstream_prefix) (upstream_name a)" for a
    by (simp add: upstream_prefix_def upstream_name_def)
  then have u: "take (length upstream_prefix) (upstream_name a) = upstream_prefix" for a
    by (metis append_eq_conv_conj)
  have "upstream_name a \<notin> set (names_before @ names_after)" for a
    using names_distinct(2) u [of a] unfolding list_all_iff by blast
  then have "set (map upstream_name as) \<inter> set (names_before @ names_after) = {}" for as by auto
  moreover have "inj upstream_name" by (rule injI) (simp add: upstream_name_def)
  then have "distinct (map upstream_name (hs_registry (pr_health p)))"
    using assms(2) by (simp add: distinct_map inj_on_def)
  ultimately show ?thesis
    using names_distinct(1) unfolding sample_names [OF assms(1)] distinct_append set_append by blast
qed

section \<open>Reading the metrics back\<close>

abbreviation metrics_page ::
    "(string \<Rightarrow> u64) \<Rightarrow> env \<Rightarrow> (nat \<Rightarrow> u32) \<Rightarrow> u64 \<Rightarrow> ('w, 'q) prom_state \<Rightarrow> string" where
  "metrics_page fx env sec now_ms p \<equiv> fst (prometheus_text fx env sec now_ms p)"

lemma page_sample:
  assumes "length (latency_buckets (pr_metrics p)) = 7" and "distinct (hs_registry (pr_health p))"
    and "(n, v) \<in> set (prom_samples fx env sec now_ms p)"
  shows "map_of (scrape (metrics_page fx env sec now_ms p)) n = Some v"
  using assms distinct_names [OF assms(1,2)] by (simp only: scrape_prometheus_text map_of_eq_Some_iff)

text \<open>
  Every counter and gauge under the name and in the order of the page, and the value that its
  component holds. Only the rolling error rate, a decimal fraction, is treated apart.
\<close>

definition counted_values ::
    "(string \<Rightarrow> u64) \<Rightarrow> env \<Rightarrow> ('w, 'q) prom_state \<Rightarrow> (string \<times> int) list" where
  "counted_values fx env p =
     (let m = pr_metrics p in
       [(''gateway_requests_total'', uint (requests_total m)),
        (''gateway_requests_401_total'', uint (requests_401 m)),
        (''gateway_requests_429_total'', uint (requests_429 m)),
        (''gateway_requests_5xx_total'', uint (requests_5xx m))]
       @ map2 (\<lambda>bound n. (bucket_name bound, uint n))
           [''100'', ''250'', ''500'', ''1000'', ''2500'', ''5000'', ''10000''] (latency_buckets m)
       @ [(bucket_name ''+Inf'', uint (latency_us_count m)),
          (''gateway_latency_us_sum'', uint (latency_us_sum m)),
          (''gateway_latency_us_count'', uint (latency_us_count m)),
          (''gateway_in_flight'', pr_in_flight p),
          (''gateway_max_concurrency'', sint (global_max_concurrency (pr_cfg p))),
          (''gateway_waf_blocks_total'', uint (waf_blocks_total (pr_waf p))),
          (''gateway_config_ready'', of_bool (is_config_ready (pr_cfg_ready p))),
          (''gateway_cache_hits_total'', uint (CACHE_HITS (pr_cache p))),
          (''gateway_cache_misses_total'', uint (CACHE_MISSES (pr_cache p))),
          (''gateway_circuit_breaker_state'', uint (global_state fx (pr_breakers p))),
          (''gateway_up'', 1),
          (''gateway_rate_limit_redis_syncs_total'', uint (syncs_ok (pr_rl p))),
          (''gateway_rate_limit_redis_sync_errors_total'', uint (syncs_err (pr_rl p))),
          (''gateway_rate_limit_sync_thread_restarts_total'', uint (pr_rl_restarts p)),
          (''gateway_rate_limit_redis_enabled'', of_bool (rl_redis_enabled env))])"

definition redis_values :: "(nat \<Rightarrow> u32) \<Rightarrow> CircuitBreaker \<Rightarrow> (string \<times> int) list" where
  "redis_values sec cb =
     [(''redis_requests_total'', uint (redis_requests_total cb)),
      (''redis_success_total'', uint (redis_success_total cb)),
      (''redis_errors_total'', uint (redis_errors_total cb)),
      (''redis_timeouts_total'', uint (redis_timeouts_total cb)),
      (''redis_circuit_state'', uint (state cb)),
      (''redis_circuit_open_total'', uint (circuit_open_total cb)),
      (''redis_circuit_half_open_total'', uint (circuit_half_open_total cb)),
      (''redis_circuit_rejected_total'', uint (circuit_rejected_total cb)),
      (''redis_inflight_current'', inflight_count cb),
      (''redis_latency_p50_us'', uint (p50_us (sec 0) cb)),
      (''redis_latency_p95_us'', uint (p95_us (sec 1) cb)),
      (''redis_latency_p99_us'', uint (p99_us (sec 2) cb))]"

definition background_values ::
    "(string \<Rightarrow> u64) \<Rightarrow> u64 \<Rightarrow> ('w, 'q) prom_state \<Rightarrow> (string \<times> int) list" where
  "background_values fx now_ms p =
     (let snap = rv_snapshot (pr_rev p); h = pr_health p in
       [(''gateway_auth_snapshot_syncs_total'', uint (rv_sync_ok (pr_rev p))),
        (''gateway_auth_snapshot_sync_errors_total'', uint (rv_sync_err (pr_rev p))),
        (''gateway_auth_snapshot_generation'', uint (rs_generation snap)),
        (''gateway_auth_snapshot_age_seconds'',
           if rs_synced_at_ms snap = 0 then 0 else uint (sat_sub now_ms (rs_synced_at_ms snap)) div 1000),
        (''gateway_auth_snapshot_revoked_entries'', int (card (dom (rs_revoked snap)))),
        (''gateway_auth_snapshot_tv_floors'', int (card (dom (rs_tv_floors snap))))]
       @ map (\<lambda>a. (upstream_name a, reported_up fx (hs_shm h) a)) (hs_registry h)
       @ [(''gateway_active_health_checks_total'', uint (hs_checks_total h)),
          (''gateway_active_health_failures_total'', uint (hs_check_failures_total h)),
          (''gateway_sentinel_level'', uint (posture (pr_posture p))),
          (''gateway_sentinel_transitions_total'', uint (transitions_total (pr_posture p))),
          (''gateway_quota_checks_total'', uint (qs_checks_total (pr_quota p))),
          (''gateway_quota_rejected_total'', uint (qs_rejected_total (pr_quota p))),
          (''gateway_quota_borrowed_total'', uint (qs_borrowed_total (pr_quota p)))])"

text \<open>Reading the samples of a part of the page as numbers.\<close>

definition read_numbers :: "(string \<times> string) list \<Rightarrow> (string \<times> int option) list" where
  "read_numbers = map (\<lambda>(n, v). (n, parse_int v))"

definition known_numbers :: "(string \<times> int) list \<Rightarrow> (string \<times> int option) list" where
  "known_numbers = map (\<lambda>(n, i). (n, Some i))"

lemma numbers_simps [simp]:
  "read_numbers [] = []" "read_numbers ((n, v) # ss) = (n, parse_int v) # read_numbers ss" "read_numbers (ss @ ss') = read_numbers ss @ read_numbers ss'"
  "known_numbers [] = []" "known_numbers ((n, i) # is) = (n, Some i) # known_numbers is" "known_numbers (is @ is') = known_numbers is @ known_numbers is'"
  by (simp_all add: read_numbers_def known_numbers_def)

lemma parse_int_dec_string [simp]: "parse_int (dec_string n) = Some (int n)"
  using parse_int_string [of "int n"] by (simp add: int_string_def)

lemma parse_int_uint_string [simp]: "parse_int (uint_string w) = Some (uint w)"
  by (simp add: uint_string_def)

lemma parse_int_digit [simp]: "parse_int ''0'' = Some 0" "parse_int ''1'' = Some 1"
proof -
  have "dec_string 0 = ''0''" "dec_string 1 = ''1''" by (simp_all add: dec_string.simps char_of_eq_iff)
  then show "parse_int ''0'' = Some 0" "parse_int ''1'' = Some 1"
    using parse_int_dec_string [of 0] parse_int_dec_string [of 1] by simp_all
qed

lemma numbers_buckets:
  "read_numbers (map2 (\<lambda>bound count. (bucket_name (uint_string bound), uint_string count)) HIST_BUCKETS_US cs)
     = known_numbers (map2 (\<lambda>bound n. (bucket_name bound, uint n)) [''100'', ''250'', ''500'', ''1000'', ''2500'', ''5000'', ''10000''] cs)"
  unfolding bucket_names [symmetric] by (simp add: read_numbers_def known_numbers_def case_prod_beta zip_map1 comp_def)

lemma numbers_gateway:
  "read_numbers (family_samples (request_families (pr_metrics p)) @ histogram_samples (pr_metrics p)
     @ family_samples (gateway_families fx env p)) = known_numbers (counted_values fx env p)"
  by (simp add: counted_values_def Let_def request_families_def histogram_samples_def gateway_families_def
      family_samples_def numbers_buckets)

lemma redis_samples:
  "family_samples (redis_families sec cb)
     = butlast (family_samples (redis_families sec cb)) @ [(''redis_error_rate_rolling'', fixed4 (rcb_error_rate (sec 3) cb))]"
  "read_numbers (butlast (family_samples (redis_families sec cb))) = known_numbers (redis_values sec cb)"
  by (simp_all add: family_samples_def redis_families_def redis_values_def)

lemma numbers_background:
  "read_numbers (family_samples (auth_families now_ms (pr_rev p))
     @ map (\<lambda>a. (upstream_name a, int_string (reported_up fx (hs_shm (pr_health p)) a))) (hs_registry (pr_health p))
     @ family_samples (probe_families (pr_health p)) @ family_samples (sentinel_families (pr_posture p))
     @ family_samples (quota_families (pr_quota p))) = known_numbers (background_values fx now_ms p)"
proof -
  have "read_numbers (map (\<lambda>a. (upstream_name a, int_string (f a))) as) = known_numbers (map (\<lambda>a. (upstream_name a, f a)) as)" for f as
    by (simp add: read_numbers_def known_numbers_def)
  then show ?thesis
    by (simp add: background_values_def Let_def auth_families_def rev_stats_def probe_families_def sentinel_families_def
        quota_families_def family_samples_def uint_div)
qed

text \<open>The page is these three parts, with the error rate between the second and the third.\<close>

lemma page_parts:
  "\<exists>before after. scrape (metrics_page fx env sec now_ms p)
       = before @ (''redis_error_rate_rolling'', fixed4 (rcb_error_rate (sec 3) (pr_redis_cb p))) # after
     \<and> read_numbers before = known_numbers (counted_values fx env p @ redis_values sec (pr_redis_cb p))
     \<and> read_numbers after = known_numbers (background_values fx now_ms p)"
proof (intro exI conjI)
  let ?before = "family_samples (request_families (pr_metrics p)) @ histogram_samples (pr_metrics p)
     @ family_samples (gateway_families fx env p) @ butlast (family_samples (redis_families sec (pr_redis_cb p)))"
  let ?after = "family_samples (auth_families now_ms (pr_rev p))
     @ map (\<lambda>a. (upstream_name a, int_string (reported_up fx (hs_shm (pr_health p)) a))) (hs_registry (pr_health p))
     @ family_samples (probe_families (pr_health p)) @ family_samples (sentinel_families (pr_posture p))
     @ family_samples (quota_families (pr_quota p))"
  show "scrape (metrics_page fx env sec now_ms p)
       = ?before @ (''redis_error_rate_rolling'', fixed4 (rcb_error_rate (sec 3) (pr_redis_cb p))) # ?after"
    unfolding scrape_prometheus_text prom_samples_def by (subst redis_samples(1)) (simp only: append_assoc append.simps)
  show "read_numbers ?before = known_numbers (counted_values fx env p @ redis_values sec (pr_redis_cb p))"
    using numbers_gateway [of p fx env] by (simp add: redis_samples(2))
  show "read_numbers ?after = known_numbers (background_values fx now_ms p)" by (rule numbers_background)
qed

lemma numbers_lookup:
  assumes "distinct (map fst ss)" and "(n, v) \<in> set ss" and "(n, x) \<in> set (read_numbers ss)"
  shows "Option.bind (map_of ss n) parse_int = x"
  using assms by (force simp: read_numbers_def dest: map_of_is_SomeI eq_key_imp_eq_value)

text \<open>(C37)
  The metrics page can be read back, completely: no sample name occurs twice, and reading any
  sample by its name gives the value its component holds. These are the request counters with those
  of each status, every bucket, the sum and the count of the latency histogram, the gauges of
  backpressure and its configured ceiling, the firewall's blocks, the readiness, hits and misses of
  the cache, the state of the global breaker, the synchronisation of the rate limits, the totals,
  state, concurrency and percentiles of the Redis breaker, the revocation snapshot, for every
  registered upstream, whatever characters its address has, its health flag, the probes, the
  posture and the quota counters. The rolling error rate is there with its four decimals, and the
  page has no other sample. The histogram has its seven buckets, and the registry lists no address
  twice.
\<close>
theorem exposition_round_trip:
  assumes l: "length (latency_buckets (pr_metrics p)) = 7" and d: "distinct (hs_registry (pr_health p))"
  shows "distinct (map fst (scrape (metrics_page fx env sec now_ms p)))
    \<and> (\<forall>(n, i) \<in> set (counted_values fx env p @ redis_values sec (pr_redis_cb p) @ background_values fx now_ms p).
         read_int (metrics_page fx env sec now_ms p) n = Some i)
    \<and> map_of (scrape (metrics_page fx env sec now_ms p)) ''redis_error_rate_rolling''
        = Some (fixed4 (rcb_error_rate (sec 3) (pr_redis_cb p)))
    \<and> map fst (scrape (metrics_page fx env sec now_ms p)) =
        map fst (counted_values fx env p) @ map fst (redis_values sec (pr_redis_cb p))
        @ ''redis_error_rate_rolling'' # map fst (background_values fx now_ms p)"
proof -
  let ?page = "scrape (metrics_page fx env sec now_ms p)"
  have dist: "distinct (map fst ?page)" using distinct_names [OF l d] by (simp only: scrape_prometheus_text)
  obtain before after where parts: "?page = before @ (''redis_error_rate_rolling'', fixed4 (rcb_error_rate (sec 3) (pr_redis_cb p))) # after"
    "read_numbers before = known_numbers (counted_values fx env p @ redis_values sec (pr_redis_cb p))"
    "read_numbers after = known_numbers (background_values fx now_ms p)"
    using page_parts [of fx env sec now_ms p] by blast
  have fst_numbers: "map fst (read_numbers ss) = map fst ss" "map fst (known_numbers is) = map fst is" for ss "is"
    by (simp_all add: read_numbers_def known_numbers_def case_prod_beta comp_def)
  have "read_int (metrics_page fx env sec now_ms p) n = Some i"
    if "(n, i) \<in> set (counted_values fx env p @ redis_values sec (pr_redis_cb p) @ background_values fx now_ms p)" for n i
  proof -
    have "(n, Some i) \<in> set (read_numbers before) \<union> set (read_numbers after)"
      unfolding parts(2,3) using that by (force simp: known_numbers_def)
    then have "(n, Some i) \<in> set (read_numbers ?page)" unfolding parts(1) by auto
    moreover from this obtain v where "(n, v) \<in> set ?page" by (auto simp: read_numbers_def)
    ultimately show ?thesis unfolding read_int_def by (intro numbers_lookup [OF dist])
  qed
  moreover have "map_of ?page ''redis_error_rate_rolling'' = Some (fixed4 (rcb_error_rate (sec 3) (pr_redis_cb p)))"
    by (rule map_of_is_SomeI [OF dist]) (simp add: parts(1))
  moreover have "map fst ?page = map fst (counted_values fx env p) @ map fst (redis_values sec (pr_redis_cb p))
      @ ''redis_error_rate_rolling'' # map fst (background_values fx now_ms p)"
    using fst_numbers(1) [of before] fst_numbers(1) [of after] fst_numbers(2) parts by simp
  ultimately show ?thesis using dist by blast
qed

text \<open>A page with one served request, an open Redis breaker and an address with a quote and a line break.\<close>

definition demo_page_state :: "(unit, unit) prom_state" where
  "demo_page_state = \<lparr>pr_metrics = record_request 503 120 metrics_zero, pr_cfg = GatewayConfig_default,
     pr_cfg_ready = GatewayConfig_default, pr_in_flight = - 1, pr_breakers = cb_init_shm, pr_waf = (\<lambda>_. 7),
     pr_cache = l1_init, pr_rl = \<lparr>syncs_ok = 0, syncs_err = 0\<rparr>, pr_rl_restarts = 0, pr_redis_cb = demo_open,
     pr_rev = rev_start (),
     pr_health = \<lparr>hs_shm = (\<lambda>_. fresh_health), hs_registry = [''a:1'', [CHR 0x22, newline]],
       hs_checks_total = 0, hs_check_failures_total = 0\<rparr>,
     pr_posture = \<lparr>posture = L3_GUARDED, posture_since_ms = 0, transitions_total = 1\<rparr>,
     pr_quota = \<lparr>qs_conn = False, qs_world = (), qs_checks_total = 0, qs_rejected_total = 0, qs_borrowed_total = 0\<rparr>\<rparr>"

theorem exposition_round_trip_witness:
  "read_int (metrics_page (\<lambda>_. 0) Map.empty (\<lambda>_. 0) 0 demo_page_state) ''gateway_requests_5xx_total'' = Some 1
   \<and> read_int (metrics_page (\<lambda>_. 0) Map.empty (\<lambda>_. 0) 0 demo_page_state) ''gateway_in_flight'' = Some (- 1)
   \<and> read_int (metrics_page (\<lambda>_. 0) Map.empty (\<lambda>_. 0) 0 demo_page_state) ''redis_circuit_state'' = Some 1
   \<and> read_int (metrics_page (\<lambda>_. 0) Map.empty (\<lambda>_. 0) 0 demo_page_state) (upstream_name [CHR 0x22, newline]) = Some 1"
proof -
  have l: "length (latency_buckets (pr_metrics demo_page_state)) = 7"
    by (simp add: demo_page_state_def record_request_fields metrics_zero_def)
  have d: "distinct (hs_registry (pr_health demo_page_state))" by (simp add: demo_page_state_def)
  note rt = bspec [OF conjunct1 [OF conjunct2 [OF exposition_round_trip [OF l d, of "\<lambda>_. 0" Map.empty "\<lambda>_. 0" 0]]]]
  have "(''gateway_requests_5xx_total'', 1) \<in> set (counted_values (\<lambda>_. 0) Map.empty demo_page_state)"
    "(''gateway_in_flight'', - 1) \<in> set (counted_values (\<lambda>_. 0) Map.empty demo_page_state)"
    "(''redis_circuit_state'', 1) \<in> set (redis_values (\<lambda>_. 0) (pr_redis_cb demo_page_state))"
    "(upstream_name [CHR 0x22, newline], 1) \<in> set (background_values (\<lambda>_. 0) 0 demo_page_state)"
    by (simp_all add: counted_values_def redis_values_def background_values_def Let_def demo_page_state_def
        record_request_fields metrics_zero_def demo_open_def reported_up_def seed_def fresh_health_def)
  then show ?thesis using rt by fastforce
qed

section \<open>When the page is served\<close>

definition nul_free :: "string \<Rightarrow> bool" where
  "nul_free s \<longleftrightarrow> CHR 0x00 \<notin> set s"

lemma nul_free_simps [simp]:
  "nul_free []" "nul_free (c # s) \<longleftrightarrow> c \<noteq> CHR 0x00 \<and> nul_free s" "nul_free (s @ t) \<longleftrightarrow> nul_free s \<and> nul_free t"
  by (auto simp: nul_free_def)

lemma nul_free_numbers [simp]:
  "nul_free (dec_string n)" "nul_free (uint_string w)" "nul_free (int_string i)" "nul_free (fixed4 x)"
proof -
  show d: "nul_free (dec_string n)" for n
    using dec_string_digits [of n] by (auto simp: nul_free_def list_all_iff is_digit_def)
  then show "nul_free (uint_string w)" "nul_free (int_string i)" by (simp_all add: uint_string_def int_string_def)
  have "nul_free (replicate n CHR ''0'')" for n by (simp add: nul_free_def)
  then show "nul_free (fixed4 x)" using d by (cases x) (simp_all add: Let_def)
qed

lemma nul_free_family [simp]:
  "nul_free (families_text []) \<longleftrightarrow> True"
  "nul_free (families_text ((n, h, k, v) # fs)) \<longleftrightarrow>
     nul_free n \<and> nul_free h \<and> nul_free k \<and> nul_free v \<and> nul_free (families_text fs)"
  by (auto simp: families_text_def family_text_def family_head_def sample_line_def newline_def)

lemma nul_free_families:
  "nul_free (families_text (request_families m))"
  "nul_free (families_text (gateway_families fx env p))"
  "nul_free (families_text (redis_families sec cb))"
  "nul_free (families_text (auth_families now_ms rv))"
  "nul_free (families_text (probe_families h))"
  "nul_free (families_text (sentinel_families ps))"
  "nul_free (families_text (quota_families q))"
  by (simp_all add: family_defs split: prod.split)

lemma nul_free_latency: "nul_free (latency_text m)"
proof -
  have "nul_free (sample_line n v)" if "(n, v) \<in> set (histogram_samples m)" for n v
    using that by (auto simp: histogram_samples_def sample_line_def bucket_name_def newline_def)
  then have "nul_free (concat (map (\<lambda>(n, v). sample_line n v) (histogram_samples m)))"
    by (auto simp: nul_free_def)
  then show ?thesis by (simp add: latency_text_def family_head_def newline_def)
qed

lemma nul_free_escape: "nul_free (escape_label a) \<longleftrightarrow> nul_free a"
  by (induction a) (auto simp: newline_def)

lemma nul_free_upstreams: "nul_free (fst (upstream_lines fx as shm)) \<longleftrightarrow> (\<forall>a \<in> set as. nul_free a)"
  by (induction as arbitrary: shm)
    (simp_all add: case_prod_beta sample_line_def upstream_name_def nul_free_escape newline_def)

text \<open>The metrics endpoint answers unless an address is broken: \<open>get_metrics_string\<close> returns the whole page
  except when a registered upstream address holds a zero byte, and then it returns nothing at all,
  because escaping keeps that byte and \<open>CString::new\<close> refuses it.
\<close>
lemma metrics_unavailable_iff_nul_address:
  "fst (get_metrics_string fx env sec now_ms p)
     = (if \<exists>a \<in> set (hs_registry (pr_health p)). CHR 0x00 \<in> set a then None
        else Some (fst (prometheus_text fx env sec now_ms p)))"
proof -
  have "nul_free (fst (prometheus_text fx env sec now_ms p)) \<longleftrightarrow> (\<forall>a \<in> set (hs_registry (pr_health p)). nul_free a)"
    using nul_free_upstreams [of fx "hs_registry (pr_health p)" "hs_shm (pr_health p)"]
    by (simp add: prometheus_text_def prometheus_fragment_def case_prod_beta nul_free_families nul_free_latency
        family_head_def newline_def)
  then show ?thesis by (auto simp: get_metrics_string_def case_prod_beta nul_free_def)
qed

lemma registry_distinct_add: "distinct known \<Longrightarrow> distinct (add_new known as)"
  by (induction known as rule: add_new.induct) auto

text \<open>The registry never lists an address twice.\<close>

lemma registry_distinct_cycle:
  assumes "distinct (hs_registry st)"
  shows "distinct (hs_registry (probe_cycle fx cfg addresses get clock st))"
proof -
  have "hs_registry (fold (\<lambda>a. probe_one fx c get (clock a) a) as st) = hs_registry st" for c as st
    by (induction as arbitrary: st) (simp_all add: probe_one_def Let_def case_prod_beta)
  then show ?thesis
    using assms registry_distinct_add by (simp add: probe_cycle_def Let_def split: option.split)
qed

end
