(* ===== verification/Lua_Handler.thy ===== *)
theory Lua_Handler
  imports Gateway_Pipeline Exposition
begin

text \<open>
  The bridge between NGINX and the worker: the request handlers of \<open>src/lua/gateway.lua\<close> and what
  \<open>src/gateway-locations.conf\<close> makes of their results. The worker of theory \<open>Gateway\<close> is called
  through buffers that the module allocates once and never clears.

  A request is what NGINX gives the handlers (\<open>ngx.var\<close>, \<open>ngx.req\<close>); a missing variable is \<open>None\<close>.
  Header tables are functions from the names as the sources spell them. What the handlers leave
  behind is the record \<open>lua_req\<close>: the variables the locations use, the headers of the proxied
  request and of the response, and \<open>ngx.ctx\<close>. What \<open>ngx.exec\<close> does to \<open>ngx.ctx\<close> is the parameter
  \<open>exec_ctx\<close>, the JSON encoder with the traceback of a 5xx answer is the parameter \<open>enc\<close>. No handler
  yields between its call of the worker and the copies out of the buffers, so a handler is one step.
\<close>

section \<open>Requests, handlers' state\<close>

type_synonym header_table = "string \<Rightarrow> string option"

record http_request =
  hr_method :: string
  hr_request_uri :: "string option"
  hr_uri :: "string option"
  hr_authorization :: "string option"
  hr_user_agent :: "string option"
  hr_remote_addr :: "string option"
  hr_x_canary :: "string option"
  hr_cookie_canary :: "string option"
  hr_content_type :: "string option"
  hr_origin :: "string option"
  hr_traceparent :: "string option"
  hr_body_data :: "string option"
  hr_body_file :: "string option"
  hr_headers :: header_table

record lua_ctx =
  ctx_request_id :: "string option"
  ctx_admitted :: bool

record lua_req =
  lr_request_id :: string
  lr_user_id :: string
  lr_home_region :: string
  lr_target_region :: string
  lr_target_upstream :: string
  lr_target_tier :: string
  lr_headers_in :: header_table
  lr_headers_out :: header_table
  lr_body :: string
  lr_ctx :: lua_ctx

text \<open>A worker process: the state behind the foreign functions, the buffers of the module.\<close>

record ('c, 'w) lua_worker =
  lw_gw :: "('c, 'w) gw_state"
  lw_bufs :: request_outs
  lw_cors_buf :: "string option"
  lw_version_buf :: "string option"

definition scratch :: "nat \<Rightarrow> string option" where
  "scratch n = Some (replicate n (CHR 0x00))"

definition module_buffers :: request_outs where
  "module_buffers = \<lparr>ro_region = scratch 16, ro_upstream = scratch 256, ro_req_id = scratch 40,
     ro_user_id = scratch 128, ro_home_region = scratch 16, ro_tier = scratch 16\<rparr>"

definition lua_load :: "('c, 'w) gw_state \<Rightarrow> ('c, 'w) lua_worker" where
  "lua_load s = \<lparr>lw_gw = s, lw_bufs = module_buffers, lw_cors_buf = scratch 512, lw_version_buf = scratch 64\<rparr>"

text \<open>A handler that stops the request with a status, or hands it to a named location.\<close>

datatype lua_outcome = LuaExit int | LuaExec string

text \<open>\<open>set $target_region ""\<close> and its siblings, for a new request.\<close>

definition lua_start :: "http_request \<Rightarrow> lua_req" where
  "lua_start hr = \<lparr>lr_request_id = [], lr_user_id = [], lr_home_region = [], lr_target_region = [],
     lr_target_upstream = [], lr_target_tier = [], lr_headers_in = hr_headers hr, lr_headers_out = Map.empty,
     lr_body = [], lr_ctx = \<lparr>ctx_request_id = None, ctx_admitted = False\<rparr>\<rparr>"

section \<open>Strings of the foreign-function interface\<close>

text \<open>A Lua string passed as \<open>const char*\<close> ends at its first zero byte. \<open>ffi.string\<close> copies up to the
  first zero byte, or the number of bytes it is given.
\<close>

definition c_arg :: "string \<Rightarrow> string option" where
  "c_arg s = Some (takeWhile (\<lambda>c. c \<noteq> CHR 0x00) s)"

definition ffi_str :: "string option \<Rightarrow> string" where
  "ffi_str buf = (case buf of None \<Rightarrow> [] | Some b \<Rightarrow> takeWhile (\<lambda>c. c \<noteq> CHR 0x00) b)"

definition ffi_bytes :: "int \<Rightarrow> string option \<Rightarrow> string" where
  "ffi_bytes n buf = (case buf of None \<Rightarrow> [] | Some b \<Rightarrow> take (nat n) b)"

text \<open>\<open>ngx.say\<close> ends the text with a newline.\<close>

definition ngx_say :: "string \<Rightarrow> string" where
  "ngx_say s = s @ [CHR 0x0A]"

text \<open>\<open>var or d\<close> for a variable that may be nil.\<close>

abbreviation lua_or :: "string option \<Rightarrow> string \<Rightarrow> string" where
  "lua_or v d \<equiv> unwrap_or v d"

section \<open>Dynamic CORS\<close>

text \<open>\<open>packed:find(sep, pos, true)\<close> from the start of the rest, and the loop that cuts at it.\<close>

fun find_char :: "char \<Rightarrow> string \<Rightarrow> nat option" where
  "find_char c [] = None"
| "find_char c (x # xs) = (if x = c then Some 0 else map_option Suc (find_char c xs))"

lemma find_char_less: "find_char c s = Some i \<Longrightarrow> i < length s"
  by (induction s arbitrary: i) (auto split: if_splits)

function lua_split :: "char \<Rightarrow> string \<Rightarrow> string list" where
  "lua_split c s =
     (case find_char c s of
        None \<Rightarrow> [s]
      | Some i \<Rightarrow> take i s # lua_split c (drop (Suc i) s))"
  by pat_completeness auto
termination by (relation "measure (\<lambda>(c, s). length s)") (auto dest: find_char_less)

declare lua_split.simps [simp del]

text \<open>\<open>parts[i]\<close>, nil past the end.\<close>

definition part :: "nat \<Rightarrow> string list \<Rightarrow> string option" where
  "part i ps = (if 1 \<le> i \<and> i \<le> length ps then Some (ps ! (i - 1)) else None)"

definition cors_response :: "bool \<Rightarrow> string list \<Rightarrow> header_table \<Rightarrow> header_table" where
  "cors_response preflight ps h =
     (let h1 = h(''Access-Control-Allow-Origin'' := part 1 ps);
          h2 = (if part 5 ps = Some ''true'' then h1(''Access-Control-Allow-Credentials'' := Some ''true'') else h1);
          h3 = h2(''Vary'' := Some ''Origin'') in
      if preflight
      then (let h4 = h3(''Access-Control-Allow-Methods'' := part 2 ps, ''Access-Control-Allow-Headers'' := part 3 ps,
                        ''Access-Control-Max-Age'' := part 4 ps);
                h5 = (if part 5 ps = Some ''true'' then h4(''Access-Control-Allow-Credentials'' := Some ''true'') else h4) in
            h5(''Content-Length'' := Some ''0''))
      else h3)"

definition apply_cors ::
    "GatewayConfig \<Rightarrow> http_request \<Rightarrow> ('c, 'w) lua_worker \<Rightarrow> lua_req \<Rightarrow> int option \<times> ('c, 'w) lua_worker \<times> lua_req" where
  "apply_cors cfg hr w x =
     (case hr_origin hr of
        None \<Rightarrow> (None, w, x)
      | Some origin \<Rightarrow>
          if origin = [] then (None, w, x)
          else
            (let preflight = (hr_method hr = ''OPTIONS'') in
             case get_cors_headers cfg (c_arg origin) (lw_cors_buf w) of
               (n, buf) \<Rightarrow>
                 (let w1 = w\<lparr>lw_cors_buf := buf\<rparr>; packed = ffi_bytes n buf in
                  if packed = []
                  then (if preflight
                        then (Some 403, w1, x\<lparr>lr_headers_out := (lr_headers_out x)(''Content-Length'' := Some ''0'')\<rparr>)
                        else (None, w1, x))
                  else (if preflight then Some 204 else None, w1,
                        x\<lparr>lr_headers_out := cors_response preflight (lua_split (CHR 0x1F) packed) (lr_headers_out x)\<rparr>))))"

section \<open>The access handler\<close>

definition WAF_BODY_SCAN_BYTES :: nat where
  "WAF_BODY_SCAN_BYTES = 8192"

text \<open>The body handed to the firewall: in memory, or the first 8 KiB of the file it was spooled to
  (\<open>None\<close> when there is none or it does not open).
\<close>

definition lua_body :: "http_request \<Rightarrow> string" where
  "lua_body hr =
     (if hr_method hr \<in> {''POST'', ''PUT'', ''PATCH''}
      then (case hr_body_data hr of
              Some b \<Rightarrow> b
            | None \<Rightarrow> (case hr_body_file hr of Some f \<Rightarrow> take WAF_BODY_SCAN_BYTES f | None \<Rightarrow> []))
      else [])"

definition lua_args :: "http_request \<Rightarrow> request_args" where
  "lua_args hr =
     \<lparr>ra_auth_header = c_arg (lua_or (hr_authorization hr) []),
      ra_path = c_arg (case hr_request_uri hr of Some p \<Rightarrow> p | None \<Rightarrow> lua_or (hr_uri hr) ''/''),
      ra_user_agent = c_arg (lua_or (hr_user_agent hr) []),
      ra_body = Some (lua_body hr),
      ra_client_ip = c_arg (lua_or (hr_remote_addr hr) []),
      ra_canary_hint = c_arg (case hr_x_canary hr of Some h \<Rightarrow> h | None \<Rightarrow> lua_or (hr_cookie_canary hr) []),
      ra_content_type = c_arg (lua_or (hr_content_type hr) [])\<rparr>"

definition ERROR_BODIES :: "int \<Rightarrow> string option" where \<open>
  ERROR_BODIES code =
     (if code = 400 then Some ''{"error":"Bad Request"}''
      else if code = 401 then Some ''{"error":"Unauthorized"}''
      else if code = 403 then Some ''{"error":"Forbidden"}''
      else if code = 404 then Some ''{"error":"Not Found"}''
      else if code = 429 then Some ''{"error":"Too Many Requests"}''
      else if code = 500 then Some ''{"error":"Internal Server Error"}''
      else if code = 503 then Some ''{"error":"Service Unavailable"}''
      else None)\<close>

text \<open>\<open>body:match('"error":"([^"]+)"')\<close>: the first place where the key is followed by a value that is
  not empty and is closed.
\<close>

fun match_error :: "string \<Rightarrow> string option" where \<open>
  match_error [] = None\<close>
| \<open>match_error (c # cs) =
     (case strip_prefix ''"error":"'' (c # cs) of
        Some rest \<Rightarrow>
          (let v = takeWhile (\<lambda>d. d \<noteq> CHR 0x22) rest in
           if v \<noteq> [] \<and> length v < length rest then Some v else match_error cs)
      | None \<Rightarrow> match_error cs)\<close>

definition rejected_response :: "(string option \<Rightarrow> string) \<Rightarrow> int \<Rightarrow> string \<Rightarrow> lua_req \<Rightarrow> lua_req" where \<open>
  rejected_response enc code req_id x =
     (let h1 = (lr_headers_out x)(''Content-Type'' := Some ''application/json'', ''X-Request-ID'' := Some req_id);
          h2 = (if code = 429 \<or> code = 503 then h1(''Retry-After'' := Some ''1'') else h1);
          body = unwrap_or (ERROR_BODIES code) ''{"error":"Request rejected"}'';
          body' = (if 500 \<le> code then enc (match_error body) else body) in
      x\<lparr>lr_headers_out := h2, lr_body := ngx_say body'\<rparr>)\<close>

definition admitted_request :: "request_outs \<Rightarrow> lua_req \<Rightarrow> lua_outcome \<times> lua_req" where
  "admitted_request bufs x =
     (let tier0 = ffi_str (ro_tier bufs);
          tier = (if tier0 \<noteq> ''fast'' \<and> tier0 \<noteq> ''slow'' then ''normal'' else tier0);
          uid = ffi_str (ro_user_id bufs);
          home = ffi_str (ro_home_region bufs);
          h1 = (if uid \<noteq> [] then (lr_headers_in x)(''X-User-Id'' := Some uid) else lr_headers_in x);
          h2 = (if home \<noteq> [] then h1(''X-Home-Region'' := Some home) else h1) in
      (LuaExec (''@up_'' @ tier),
       x\<lparr>lr_ctx := (lr_ctx x)\<lparr>ctx_admitted := True\<rparr>, lr_target_region := ffi_str (ro_region bufs),
         lr_target_upstream := ffi_str (ro_upstream bufs), lr_target_tier := tier, lr_user_id := uid,
         lr_home_region := home, lr_headers_in := h2\<rparr>))"

text \<open>Everything after the call of \<open>process_request\<close>.\<close>

definition lua_respond :: "(string option \<Rightarrow> string) \<Rightarrow> http_request \<Rightarrow> int \<Rightarrow> request_outs \<Rightarrow> lua_req \<Rightarrow> lua_outcome \<times> lua_req" where
  "lua_respond enc hr code bufs x =
     (let req_id = ffi_str (ro_req_id bufs);
          h1 = (lr_headers_in x)(''X-Request-ID'' := Some req_id);
          h2 = (case hr_traceparent hr of
                  Some t \<Rightarrow> if t \<noteq> [] then h1(''traceparent'' := Some t) else h1
                | None \<Rightarrow> h1);
          x1 = x\<lparr>lr_ctx := (lr_ctx x)\<lparr>ctx_request_id := Some req_id\<rparr>, lr_request_id := req_id, lr_headers_in := h2\<rparr> in
      if code \<noteq> 200 then (LuaExit code, rejected_response enc code req_id x1)
      else admitted_request bufs x1)"

definition lua_access ::
    "('c, 'r, 'w) third_party \<Rightarrow> env \<Rightarrow> (string option \<Rightarrow> string) \<Rightarrow> GatewayConfig \<Rightarrow> 'r request_reads \<Rightarrow> http_request
     \<Rightarrow> ('c, 'w) lua_worker \<Rightarrow> lua_outcome \<times> ('c, 'w) lua_worker \<times> lua_req" where
  "lua_access tp env enc cors_cfg rq hr w =
     (case apply_cors cors_cfg hr w (lua_start hr) of
        (Some code, w1, x1) \<Rightarrow> (LuaExit code, w1, x1)
      | (None, w1, x1) \<Rightarrow>
          (let x2 = x1\<lparr>lr_headers_in := (lr_headers_in x1)(''X-User-Id'' := None, ''X-Home-Region'' := None)\<rparr> in
           case process_request tp env rq (lua_args hr) (lw_gw w1) (lw_bufs w1) of
             (code, s, bufs) \<Rightarrow>
               (case lua_respond enc hr code bufs x2 of
                  (out, x3) \<Rightarrow> (out, w1\<lparr>lw_gw := s, lw_bufs := bufs\<rparr>, x3))))"

text \<open>The header fields \<open>@up_fast\<close>, \<open>@up_normal\<close> and \<open>@up_slow\<close> set from the variables; NGINX does not
  pass a field whose value is empty.
\<close>

definition proxied_headers :: "lua_req \<Rightarrow> header_table" where
  "proxied_headers x =
     (lr_headers_in x)
       (''X-Region'' := non_empty (Some (lr_target_region x)),
        ''X-Upstream'' := non_empty (Some (lr_target_upstream x)),
        ''X-Tier'' := non_empty (Some (lr_target_tier x)),
        ''X-User-Id'' := non_empty (Some (lr_user_id x)),
        ''X-Home-Region'' := non_empty (Some (lr_home_region x)))"

section \<open>The other handlers\<close>

text \<open>The log phase; \<open>status\<close> is \<open>ngx.var.status\<close>, a missing one counts as 0.\<close>

definition lua_log ::
    "('c, 'r, 'w) third_party \<Rightarrow> env \<Rightarrow> telemetry_reads \<Rightarrow> int option \<Rightarrow> usize \<Rightarrow> lua_req \<Rightarrow> ('c, 'w) lua_worker
     \<Rightarrow> ('c, 'w) lua_worker" where
  "lua_log tp env tr status latency_us x w =
     (let w1 = w\<lparr>lw_gw := report_telemetry tp env tr (unwrap_or status 0) latency_us (c_arg (lr_target_upstream x)) (lw_gw w)\<rparr> in
      if ctx_admitted (lr_ctx x) then w1\<lparr>lw_gw := release_slot (lw_gw w1)\<rparr> else w1)"

text \<open>The pages of the gateway itself: status, content type, body. \<open>/metrics\<close> gives the page, or a line
  that says the process is up when the call returns a null pointer.
\<close>

definition lua_metrics :: "string option \<Rightarrow> int \<times> string \<times> string" where
  "lua_metrics page =
     (200, ''text/plain; version=0.0.4; charset=utf-8'',
      case page of Some t \<Rightarrow> t | None \<Rightarrow> ''gateway_up 1'' @ [CHR 0x0A])"

definition lua_health :: "GatewayConfig \<Rightarrow> ('c, 'w) lua_worker \<Rightarrow> (int \<times> string \<times> string) \<times> ('c, 'w) lua_worker" where \<open>
  lua_health cfg w =
     (case get_config_version cfg (lw_version_buf w) of
        (n, buf) \<Rightarrow>
          (let ver = (if 0 < n then ffi_str buf else ''v0'') in
           ((200, ''application/json'',
             ngx_say (''{"status":"healthy","service":"gateway","config_version":"'' @ ver @ ''"}'')),
            w\<lparr>lw_version_buf := buf\<rparr>)))\<close>

definition lua_ready :: "GatewayConfig \<Rightarrow> int \<times> string \<times> string" where \<open>
  lua_ready cfg =
     (if is_ready cfg = 1 then (200, ''application/json'', ngx_say ''{"status":"ready"}'')
      else (503, ''application/json'', ngx_say ''{"status":"not_ready","reason":"config not loaded"}''))\<close>

section \<open>A worker between NGINX and the upstreams\<close>

text \<open>
  Requests arrive and finish in any order. A request the handler answered finishes with its status,
  a proxied one with the status of its upstream; both reach the log phase with the variables and the
  context the location sees.
\<close>

record ('c, 'w) lua_server =
  sv_worker :: "('c, 'w) lua_worker"
  sv_pending :: "(lua_req \<times> int option) list"

datatype 'r lua_event =
    Arrive GatewayConfig "'r request_reads" http_request
  | Finish nat telemetry_reads int usize

fun lua_step ::
    "('c, 'r, 'w) third_party \<Rightarrow> env \<Rightarrow> (string option \<Rightarrow> string) \<Rightarrow> (lua_ctx \<Rightarrow> lua_ctx) \<Rightarrow> ('c, 'w) lua_server
     \<Rightarrow> 'r lua_event \<Rightarrow> ('c, 'w) lua_server" where
  "lua_step tp env enc exec_ctx sv (Arrive cfg rq hr) =
     (case lua_access tp env enc cfg rq hr (sv_worker sv) of
        (LuaExit code, w, x) \<Rightarrow> sv\<lparr>sv_worker := w, sv_pending := sv_pending sv @ [(x, Some code)]\<rparr>
      | (LuaExec loc, w, x) \<Rightarrow>
          sv\<lparr>sv_worker := w, sv_pending := sv_pending sv @ [(x\<lparr>lr_ctx := exec_ctx (lr_ctx x)\<rparr>, None)]\<rparr>)"
| "lua_step tp env enc exec_ctx sv (Finish i tr status latency_us) =
     (if i < length (sv_pending sv)
      then (case sv_pending sv ! i of
              (x, code) \<Rightarrow>
                sv\<lparr>sv_worker := lua_log tp env tr (Some (unwrap_or code status)) latency_us x (sv_worker sv),
                   sv_pending := take i (sv_pending sv) @ drop (Suc i) (sv_pending sv)\<rparr>)
      else sv)"

text \<open>The arrivals of a run that were handed to an upstream.\<close>

fun is_exec :: "lua_outcome \<Rightarrow> bool" where
  "is_exec (LuaExec loc) = True"
| "is_exec (LuaExit code) = False"

fun admits :: 
    "('c, 'r, 'w) third_party \<Rightarrow> env \<Rightarrow> (string option \<Rightarrow> string) \<Rightarrow> ('c, 'w) lua_server \<Rightarrow> 'r lua_event \<Rightarrow> nat" where
  "admits tp env enc sv (Arrive cfg rq hr) =
     (if is_exec (fst (lua_access tp env enc cfg rq hr (sv_worker sv))) then 1 else 0)"
| "admits tp env enc sv (Finish i tr status latency_us) = 0"

fun admissions ::
    "('c, 'r, 'w) third_party \<Rightarrow> env \<Rightarrow> (string option \<Rightarrow> string) \<Rightarrow> (lua_ctx \<Rightarrow> lua_ctx) \<Rightarrow> ('c, 'w) lua_server
     \<Rightarrow> 'r lua_event list \<Rightarrow> nat" where
  "admissions tp env enc exec_ctx sv [] = 0"
| "admissions tp env enc exec_ctx sv (e # es) =
     admits tp env enc sv e + admissions tp env enc exec_ctx (lua_step tp env enc exec_ctx sv e) es"

definition in_flight :: "('c, 'w) lua_server \<Rightarrow> int" where
  "in_flight sv = gs_in_flight (lw_gw (sv_worker sv))"

text \<open>Pending requests whose log phase will release a slot.\<close>

definition held :: "('c, 'w) lua_server \<Rightarrow> int" where
  "held sv = int (length (filter (\<lambda>(x, _). ctx_admitted (lr_ctx x)) (sv_pending sv)))"

section \<open>The slot across the hand-over\<close>

lemma apply_cors_keeps:
  "apply_cors cfg hr w x = (c, w1, x1) \<Longrightarrow> lw_gw w1 = lw_gw w \<and> lw_bufs w1 = lw_bufs w \<and> lr_ctx x1 = lr_ctx x
     \<and> lr_target_upstream x1 = lr_target_upstream x \<and> lr_headers_in x1 = lr_headers_in x"
  by (auto simp: apply_cors_def Let_def split: option.splits if_splits prod.splits)

lemma lua_respond_spec:
  "lua_respond enc hr code bufs x =
     (if code \<noteq> 200 then (LuaExit code, snd (lua_respond enc hr code bufs x))
      else (LuaExec (''@up_'' @ lr_target_tier (snd (lua_respond enc hr code bufs x))), snd (lua_respond enc hr code bufs x)))"
  "ctx_admitted (lr_ctx (snd (lua_respond enc hr code bufs x))) = (code = 200 \<or> ctx_admitted (lr_ctx x))"
  "code \<noteq> 200 \<Longrightarrow> lr_target_upstream (snd (lua_respond enc hr code bufs x)) = lr_target_upstream x"
  by (simp_all add: lua_respond_def admitted_request_def rejected_response_def Let_def)

text \<open>An arrival either passes the pipeline with 200 and is handed over, or is answered here.\<close>

lemma lua_access_cases:
  obtains
    (exec) s bufs w' x where "process_request tp env rq (lua_args hr) (lw_gw w) (lw_bufs w) = (200, s, bufs)"
      and "lua_access tp env enc cfg rq hr w = (LuaExec (''@up_'' @ lr_target_tier x), w', x)"
      and "lw_gw w' = s" and "lw_bufs w' = bufs" and "ctx_admitted (lr_ctx x)"
  | (answered) code s bufs w' x where "process_request tp env rq (lua_args hr) (lw_gw w) (lw_bufs w) = (code, s, bufs)" and "code \<noteq> 200"
      and "lua_access tp env enc cfg rq hr w = (LuaExit code, w', x)"
      and "lw_gw w' = s" and "lw_bufs w' = bufs" and "\<not> ctx_admitted (lr_ctx x)" and "lr_target_upstream x = []"
  | (preflight) code w' x where "hr_method hr = ''OPTIONS''" and "code \<in> {204, 403}"
      and "lua_access tp env enc cfg rq hr w = (LuaExit code, w', x)"
      and "lw_gw w' = lw_gw w" and "lw_bufs w' = lw_bufs w" and "\<not> ctx_admitted (lr_ctx x)" and "lr_target_upstream x = []"
proof -
  obtain c w1 x1 where a: "apply_cors cfg hr w (lua_start hr) = (c, w1, x1)" by (cases "apply_cors cfg hr w (lua_start hr)") auto
  note k = apply_cors_keeps [OF a]
  have x1: "\<not> ctx_admitted (lr_ctx x1)" "lr_target_upstream x1 = []" using k by (simp_all add: lua_start_def)
  show ?thesis
  proof (cases c)
    case (Some code)
    have "hr_method hr = ''OPTIONS'' \<and> code \<in> {204, 403}"
      using a Some by (auto simp: apply_cors_def Let_def split: option.splits if_splits prod.splits)
    then show ?thesis using a Some k x1 by (intro preflight [of code w1 x1]) (simp_all add: lua_access_def)
  next
    case None
    let ?x2 = "x1\<lparr>lr_headers_in := (lr_headers_in x1)(''X-User-Id'' := None, ''X-Home-Region'' := None)\<rparr>"
    obtain code s bufs where p: "process_request tp env rq (lua_args hr) (lw_gw w) (lw_bufs w) = (code, s, bufs)"
      by (cases "process_request tp env rq (lua_args hr) (lw_gw w) (lw_bufs w)") auto
    let ?r = "lua_respond enc hr code bufs ?x2" and ?w' = "w1\<lparr>lw_gw := s, lw_bufs := bufs\<rparr>"
    have acc: "lua_access tp env enc cfg rq hr w = (fst ?r, ?w', snd ?r)"
      using k by (simp add: lua_access_def a None p case_prod_unfold Let_def)
    note r = lua_respond_spec [where enc = enc and hr = hr and code = code and bufs = bufs and x = ?x2]
    show ?thesis
    proof (cases "code = 200")
      case True
      have o: "fst ?r = LuaExec (''@up_'' @ lr_target_tier (snd ?r))"
        using arg_cong [OF r(1), of fst] True by simp
      have c: "ctx_admitted (lr_ctx (snd ?r))" using r(2) True by simp
      have "lua_access tp env enc cfg rq hr w = (LuaExec (''@up_'' @ lr_target_tier (snd ?r)), ?w', snd ?r)"
        unfolding acc o ..
      then show ?thesis by (rule exec [OF p [unfolded True] _ _ _ c]) simp_all
    next
      case False
      have o: "fst ?r = LuaExit code" using arg_cong [OF r(1), of fst] False by simp
      have c: "\<not> ctx_admitted (lr_ctx (snd ?r))" "lr_target_upstream (snd ?r) = []"
        using r(2) r(3) [OF False] False x1 by simp_all
      have "lua_access tp env enc cfg rq hr w = (LuaExit code, ?w', snd ?r)" unfolding acc o ..
      then show ?thesis by (rule answered [OF p False _ _ _ c]) simp_all
    qed
  qed
qed

lemma report_in_flight: "gs_in_flight (report_telemetry tp env tr status lat up s) = gs_in_flight s"
  by (simp add: report_telemetry_def Let_def)

lemma lua_log_in_flight:
  "gs_in_flight (lw_gw (lua_log tp env tr status lat x w))
     = gs_in_flight (lw_gw w) - (if ctx_admitted (lr_ctx x) then 1 else 0)"
  by (simp add: lua_log_def release_slot_def report_in_flight)

lemma length_filter_remove:
  "i < length xs \<Longrightarrow> length (filter P xs)
     = length (filter P (take i xs @ drop (Suc i) xs)) + (if P (xs ! i) then 1 else 0)"
  by (subst id_take_nth_drop [of i xs]) auto

text \<open>
  What the hand-over does to the context decides whether the slot of a handed-over request is ever
  released.
\<close>

lemma lua_step_balance:
  assumes "\<And>c. ctx_admitted c \<Longrightarrow> ctx_admitted (exec_ctx c) = keeps"
  shows "in_flight (lua_step tp env enc exec_ctx sv e) - held (lua_step tp env enc exec_ctx sv e)
     = in_flight sv - held sv + (if keeps then 0 else int (admits tp env enc sv e))"
proof (cases e)
  case (Arrive cfg rq hr)
  note slot = process_request_outcome [where tp = tp and env = env and rq = rq and args = "lua_args hr"
      and s = "lw_gw (sv_worker sv)" and outs = "lw_bufs (sv_worker sv)"]
  show ?thesis unfolding Arrive
  proof (cases rule: lua_access_cases [where tp = tp and env = env and enc = enc and cfg = cfg and rq = rq and hr = hr
        and w = "sv_worker sv"])
    case (exec s bufs w' x)
    then show "in_flight (lua_step tp env enc exec_ctx sv (Arrive cfg rq hr)) - held (lua_step tp env enc exec_ctx sv (Arrive cfg rq hr))
     = in_flight sv - held sv + (if keeps then 0 else int (admits tp env enc sv (Arrive cfg rq hr)))"
      using slot assms [of "lr_ctx x"] by (simp add: in_flight_def held_def gateway_statuses_def)
  next
    case (answered code s bufs w' x)
    then show "in_flight (lua_step tp env enc exec_ctx sv (Arrive cfg rq hr)) - held (lua_step tp env enc exec_ctx sv (Arrive cfg rq hr))
     = in_flight sv - held sv + (if keeps then 0 else int (admits tp env enc sv (Arrive cfg rq hr)))"
      using slot by (simp add: in_flight_def held_def)
  next
    case (preflight code w' x)
    then show "in_flight (lua_step tp env enc exec_ctx sv (Arrive cfg rq hr)) - held (lua_step tp env enc exec_ctx sv (Arrive cfg rq hr))
     = in_flight sv - held sv + (if keeps then 0 else int (admits tp env enc sv (Arrive cfg rq hr)))"
      by (simp add: in_flight_def held_def)
  qed
next
  case (Finish i tr status lat)
  then show ?thesis
    using length_filter_remove [of i "sv_pending sv" "\<lambda>(x, _). ctx_admitted (lr_ctx x)"]
    by (auto simp: in_flight_def held_def lua_log_in_flight split: prod.splits)
qed

lemma lua_run_balance:
  assumes "\<And>c. ctx_admitted c \<Longrightarrow> ctx_admitted (exec_ctx c) = keeps"
  shows "in_flight (run (lua_step tp env enc exec_ctx) sv es) - held (run (lua_step tp env enc exec_ctx) sv es)
     = in_flight sv - held sv + (if keeps then 0 else int (admissions tp env enc exec_ctx sv es))"
proof (induction es arbitrary: sv)
  case (Cons e es)
  show ?case
    using Cons.IH [of "lua_step tp env enc exec_ctx sv e"]
      lua_step_balance [where exec_ctx = exec_ctx and keeps = keeps and sv = sv and e = e and tp = tp and env = env and enc = enc] assms
    by simp
qed simp

lemma held_nonneg: "0 \<le> held sv"
  by (simp add: held_def)

lemma lost_nothing_held:
  assumes "\<And>c. \<not> ctx_admitted (exec_ctx c)"
  shows "held (lua_step tp env enc exec_ctx sv e) \<le> held sv"
proof (cases e)
  case (Arrive cfg rq hr)
  have "held (lua_step tp env enc exec_ctx sv (Arrive cfg rq hr)) \<le> held sv"
    by (rule lua_access_cases [where tp = tp and env = env and enc = enc and cfg = cfg and rq = rq and hr = hr
        and w = "sv_worker sv"]) (simp_all add: held_def assms)
  then show ?thesis by (simp add: Arrive)
next
  case (Finish i tr status lat)
  then show ?thesis
    using length_filter_remove [of i "sv_pending sv" "\<lambda>(x, _). ctx_admitted (lr_ctx x)"]
    by (auto simp: held_def split: prod.splits)
qed

lemma bp_limit_le:
  assumes "bp_limit m cb = Some l" and "uint m \<le> L" and "1 \<le> L"
  shows "l \<le> L"
proof -
  have s: "sint (w :: usize) \<le> uint w" for w
    by (simp add: sint_uint signed_take_bit_int_less_eq_self_iff order_trans [OF _ unsigned_greater_eq])
  have "uint m div 10 \<le> L" using assms(2,3) unsigned_greater_eq [of m] by arith
  then have "uint (max (m div 10) 1) \<le> L" using assms(3) by (simp add: max_def uint_div)
  then show ?thesis using assms s [of m] s [of "max (m div 10) 1"] by (auto simp: bp_limit_def split: if_splits)
qed

lemma admits_below_limit:
  assumes "admits tp env enc sv (Arrive cfg rq hr) \<noteq> 0" and "uint (global_max_concurrency (rq_cfg_bp rq)) \<le> L" and "1 \<le> L"
  shows "in_flight sv < L"
proof -
  have "fst (process_request tp env rq (lua_args hr) (lw_gw (sv_worker sv)) (lw_bufs (sv_worker sv))) = 200"
    using assms(1) by (cases rule: lua_access_cases [where tp = tp and env = env and enc = enc and cfg = cfg and rq = rq
        and hr = hr and w = "sv_worker sv"]) simp_all
  then have "fst (gw_acquire tp (rq_cfg_bp rq) (lw_gw (sv_worker sv)))"
    using process_request_refused [of tp rq "lw_gw (sv_worker sv)" env "lua_args hr" "lw_bufs (sv_worker sv)"] by fastforce
  then show ?thesis
    using bp_limit_le [OF _ assms(2,3)]
    by (auto simp: gw_acquire_def bp_acquire_cases in_flight_def split: option.splits if_splits) (meson less_le_trans)
qed

text \<open>(C4)
  Backpressure slots of handed-over requests are lost. NGINX gives a request that was handed over with
  \<open>ngx.exec\<close> an empty \<open>ngx.ctx\<close>, so the log handler of the proxy location never finds the mark
  which the access handler left there, and no slot is ever released: however the requests of a
  worker process finish, from a moment at which none was pending, the gauge grows by one with every
  admission, and a process with a limit of \<open>L\<close> admits at most \<open>L\<close> requests, after which everything
  is refused.
\<close>
theorem admissions_limited_for_life:
  assumes "\<And>c. \<not> ctx_admitted (exec_ctx c)" and "sv_pending sv = []" and "1 \<le> L"
    and "\<And>cfg rq hr. Arrive cfg rq hr \<in> set es \<Longrightarrow> uint (global_max_concurrency (rq_cfg_bp rq)) \<le> L"
  shows "in_flight (run (lua_step tp env enc exec_ctx) sv es) = in_flight sv + int (admissions tp env enc exec_ctx sv es)
    \<and> int (admissions tp env enc exec_ctx sv es) \<le> max 0 (L - in_flight sv)"
proof
  have h: "held sv \<le> 0" using assms(2) by (simp add: held_def)
  have "held (run (lua_step tp env enc exec_ctx) sv es) \<le> 0"
    by (rule run_inv [where I = "\<lambda>sv. held sv \<le> 0", OF _ h])
      (rule order_trans [OF lost_nothing_held], simp_all add: assms(1))
  then show "in_flight (run (lua_step tp env enc exec_ctx) sv es) = in_flight sv + int (admissions tp env enc exec_ctx sv es)"
    using lua_run_balance [where exec_ctx = exec_ctx and keeps = False and tp = tp and env = env and enc = enc and sv = sv and es = es] assms(1) h
      held_nonneg [of sv] held_nonneg [of "run (lua_step tp env enc exec_ctx) sv es"] by simp
  show "int (admissions tp env enc exec_ctx sv es) \<le> max 0 (L - in_flight sv)"
    using h assms(4)
  proof (induction es arbitrary: sv)
    case (Cons e es)
    let ?sv' = "lua_step tp env enc exec_ctx sv e"
    have h': "held ?sv' \<le> 0" using lost_nothing_held [where exec_ctx = exec_ctx and tp = tp and env = env and enc = enc and sv = sv and e = e] assms(1) Cons.prems(1) by simp
    have g: "in_flight ?sv' = in_flight sv + int (admits tp env enc sv e)"
      using lua_step_balance [where exec_ctx = exec_ctx and keeps = False and tp = tp and env = env and enc = enc and sv = sv and e = e] assms(1) h' Cons.prems(1)
        held_nonneg [of sv] held_nonneg [of ?sv'] by simp
    have "int (admissions tp env enc exec_ctx ?sv' es) \<le> max 0 (L - in_flight ?sv')"
      by (rule Cons.IH [OF h']) (rule Cons.prems(2), rule list.set_intros(2))
    moreover have "admits tp env enc sv e \<noteq> 0 \<Longrightarrow> admits tp env enc sv e = 1 \<and> in_flight sv < L"
    proof (cases e)
      case (Arrive cfg rq hr)
      assume "admits tp env enc sv e \<noteq> 0"
      then show ?thesis
        using admits_below_limit [of tp env enc sv cfg rq hr L] Cons.prems(2) [of cfg rq hr] assms(3)
        by (simp add: Arrive split: if_splits)
    qed simp
    ultimately show ?case by (cases "admits tp env enc sv e = 0") (auto simp: g)
  qed simp
qed

text \<open>Had the context survived, the gauge would be balanced: it counts exactly the requests at their upstreams.\<close>

lemma slots_balanced_if_context_kept:
  assumes "\<And>c. ctx_admitted (exec_ctx c) = ctx_admitted c" and "sv_pending sv = []"
  shows "in_flight (run (lua_step tp env enc exec_ctx) sv es)
    = in_flight sv + held (run (lua_step tp env enc exec_ctx) sv es)"
  using lua_run_balance [where exec_ctx = exec_ctx and keeps = True and tp = tp and env = env and enc = enc and sv = sv and es = es] assms by (simp add: held_def)

section \<open>Overload\<close>

text \<open>
  An overload: every request that arrives is refused a slot, and every request that reaches its log
  phase was answered here with 503, or comes back from its upstream with a failure. Any requests may
  be at their upstreams, before, during and after it.
\<close>

fun refuses_or_fails ::
    "('c, 'r, 'w) third_party \<Rightarrow> env \<Rightarrow> (string option \<Rightarrow> string) \<Rightarrow> (lua_ctx \<Rightarrow> lua_ctx) \<Rightarrow> ('c, 'w) lua_server
     \<Rightarrow> 'r lua_event list \<Rightarrow> bool" where
  "refuses_or_fails tp env enc exec_ctx sv [] \<longleftrightarrow> True"
| "refuses_or_fails tp env enc exec_ctx sv (Arrive cfg rq hr # es) \<longleftrightarrow>
     \<not> fst (gw_acquire tp (rq_cfg_bp rq) (lw_gw (sv_worker sv)))
   \<and> refuses_or_fails tp env enc exec_ctx (lua_step tp env enc exec_ctx sv (Arrive cfg rq hr)) es"
| "refuses_or_fails tp env enc exec_ctx sv (Finish i tr status lat # es) \<longleftrightarrow>
     i < length (sv_pending sv)
   \<and> (case snd (sv_pending sv ! i) of Some code \<Rightarrow> code = 503 | None \<Rightarrow> 500 \<le> status)
   \<and> refuses_or_fails tp env enc exec_ctx (lua_step tp env enc exec_ctx sv (Finish i tr status lat)) es"

fun is_finish :: "'r lua_event \<Rightarrow> bool" where
  "is_finish (Arrive cfg rq hr) = False"
| "is_finish (Finish i tr status lat) = True"

definition global_cb :: "('c, 'r, 'w) third_party \<Rightarrow> ('c, 'w) lua_server \<Rightarrow> UpstreamCB" where
  "global_cb tp sv = get_cb (tp_fx tp) (lb_cb (gs_lb (lw_gw (sv_worker sv)))) GLOBAL_NAME"

lemma full_refuses:
  assumes "uint (global_max_concurrency cfg) \<le> gs_in_flight s" and "1 \<le> gs_in_flight s"
  shows "\<not> fst (gw_acquire tp cfg s)"
  using bp_limit_le [OF _ assms]
  by (fastforce simp: gw_acquire_def bp_acquire_cases split: option.splits if_splits)

lemma refused_access:
  assumes "\<not> fst (gw_acquire tp (rq_cfg_bp rq) (lw_gw w))"
  shows "\<exists>code w' x. lua_access tp env enc cfg rq hr w = (LuaExit code, w', x) \<and> lw_gw w' = lw_gw w
    \<and> \<not> ctx_admitted (lr_ctx x) \<and> lr_target_upstream x = [] \<and> (hr_method hr \<noteq> ''OPTIONS'' \<longrightarrow> code = 503)"
  using process_request_refused [OF assms, of env "lua_args hr" "lw_bufs w"]
  by (cases rule: lua_access_cases [where tp = tp and env = env and enc = enc and cfg = cfg and rq = rq and hr = hr and w = w]) auto

text \<open>The log phase adds at least one failure to the global breaker (two when the upstream shares its slot).\<close>

lemma failure_counted:
  assumes "500 \<le> code"
  shows "\<exists>ts. ts \<noteq> [] \<and> get_cb (tp_fx tp) (lb_cb (gs_lb (lw_gw (lua_log tp env tr (Some code) lat x w)))) GLOBAL_NAME
     = run cb_step (get_cb (tp_fx tp) (lb_cb (gs_lb (lw_gw w))) GLOBAL_NAME) (map EvFailure ts)"
proof -
  let ?u = "str_bytes (c_str (c_arg (lr_target_upstream x)))" and ?cb = "lb_cb (gs_lb (lw_gw w))"
  have "lb_cb (gs_lb (lw_gw (lua_log tp env tr (Some code) lat x w))) = gw_breakers tp tr code ?u ?cb"
    by (simp add: lua_log_def unwrap_or_def report_telemetry_def release_slot_def Let_def)
  moreover have "\<exists>ts. ts \<noteq> [] \<and> get_cb (tp_fx tp) (gw_breakers tp tr code ?u ?cb) GLOBAL_NAME
      = run cb_step (get_cb (tp_fx tp) ?cb GLOBAL_NAME) (map EvFailure ts)"
  proof (cases "?u \<noteq> [] \<and> cb_index (tp_fx tp) ?u = cb_index (tp_fx tp) GLOBAL_NAME")
    case True
    then show ?thesis using assms
      by (intro exI [of _ "[tr_now_cb tr, tr_now_global tr]"])
        (simp add: gw_breakers_def record_failure_for_def record_failure_def get_cb_def set_cb_def)
  next
    case False
    then show ?thesis using assms
      by (intro exI [of _ "[tr_now_global tr]"])
        (auto simp: gw_breakers_def record_failure_for_def record_failure_def get_cb_def set_cb_def)
  qed
  ultimately show ?thesis by simp
qed

lemma overload_run:
  assumes "refuses_or_fails tp env enc exec_ctx sv es"
  shows "\<exists>ts. length (filter is_finish es) \<le> length ts
    \<and> global_cb tp (run (lua_step tp env enc exec_ctx) sv es) = run cb_step (global_cb tp sv) (map EvFailure ts)"
  using assms
proof (induction es arbitrary: sv)
  case (Cons e es)
  show ?case
  proof (cases e)
    case (Arrive cfg rq hr)
    then obtain code w' x where "lua_access tp env enc cfg rq hr (sv_worker sv) = (LuaExit code, w', x)"
      "lw_gw w' = lw_gw (sv_worker sv)"
      using Cons.prems refused_access [of tp rq "sv_worker sv" env enc cfg hr] by auto
    then have "global_cb tp (lua_step tp env enc exec_ctx sv e) = global_cb tp sv" by (simp add: Arrive global_cb_def)
    then show ?thesis using Cons.IH [of "lua_step tp env enc exec_ctx sv e"] Cons.prems by (simp add: Arrive)
  next
    case (Finish i tr status lat)
    obtain x code where p: "sv_pending sv ! i = (x, code)" by fastforce
    have "500 \<le> unwrap_or code status" using Cons.prems p by (auto simp: Finish unwrap_or_def split: option.splits)
    from failure_counted [OF this, of tp env tr lat x "sv_worker sv"] obtain us where us: "us \<noteq> []"
      "global_cb tp (lua_step tp env enc exec_ctx sv e) = run cb_step (global_cb tp sv) (map EvFailure us)"
      using Cons.prems p by (auto simp: Finish global_cb_def)
    from Cons.IH [of "lua_step tp env enc exec_ctx sv e"] Cons.prems obtain ts where
      "length (filter is_finish es) \<le> length ts"
      "global_cb tp (run (lua_step tp env enc exec_ctx) (lua_step tp env enc exec_ctx sv e) es)
        = run cb_step (global_cb tp (lua_step tp env enc exec_ctx sv e)) (map EvFailure ts)"
      by (auto simp: Finish)
    then show ?thesis using us by (intro exI [of _ "us @ ts"]) (cases us, auto simp: Finish run_append)
  qed
qed (intro exI [of _ "[]"], simp)

lemma fifty_failures_open:
  assumes "cb_inv cb" and "50 \<le> length ts"
  shows "cb_state (run cb_step cb (map EvFailure ts)) = STATE_OPEN"
proof -
  have op: "run cb_spec_step (SOpen u) (map EvFailure us) = SOpen u" for u us by (induction us) auto
  have cl: "50 \<le> n + length us \<Longrightarrow> us \<noteq> [] \<Longrightarrow> \<exists>u. run cb_spec_step (SClosed n) (map EvFailure us) = SOpen u" for n us
  proof (induction us arbitrary: n)
    case (Cons u us)
    show ?case
    proof (cases "50 \<le> n + 1")
      case True
      then show ?thesis by (simp add: op)
    next
      case False
      then have "us \<noteq> []" using Cons.prems(1) by auto
      then show ?thesis using Cons.IH [of "n + 1"] Cons.prems(1) False by simp
    qed
  qed simp
  have "ts \<noteq> []" using assms(2) by auto
  then have "\<exists>u. run cb_spec_step (cb_abs cb) (map EvFailure ts) = SOpen u"
    using assms cl [of "unat (cb_failures cb)" ts] op
    by (cases ts; cases "cb_mode cb") (auto simp: cb_abs_def)
  then show ?thesis
    using cb_run_refines [OF assms(1), of "map EvFailure ts"]
    by (auto simp: cb_abs_def cb_mode_def split: breaker_mode.splits if_splits)
qed

abbreviation sv_open :: "('c, 'r, 'w) third_party \<Rightarrow> ('c, 'w) lua_server \<Rightarrow> bool" where
  "sv_open tp sv \<equiv> global_open tp (lw_gw (sv_worker sv))"

lemma open_lua_step:
  assumes "sv_open tp sv"
  shows "sv_open tp (lua_step tp env enc exec_ctx sv e)"
proof (cases e)
  case (Arrive cfg rq hr)
  have "sv_open tp (lua_step tp env enc exec_ctx sv (Arrive cfg rq hr))"
    by (rule lua_access_cases [where tp = tp and env = env and enc = enc and cfg = cfg and rq = rq and hr = hr
        and w = "sv_worker sv"]) (use assms in \<open>auto simp: open_refuses [OF assms]\<close>)
  then show ?thesis by (simp add: Arrive)
next
  case (Finish i tr status lat)
  have "global_open tp (lw_gw (lua_log tp env tr st lat x (sv_worker sv)))" for st x
    using open_step [OF assms, of env "GwReport tr (unwrap_or st 0) lat (c_arg (lr_target_upstream x))"]
    by (simp add: lua_log_def release_slot_def Let_def)
  then show ?thesis using assms by (simp add: Finish split: prod.splits)
qed

text \<open>(C6)
  A short overload takes a gateway down for good. While every arriving request is refused a slot,
  the handler answers it with 503, and its log handler reports this status without an upstream, so
  the worker counts the refusal as a failure of the global breaker. Fifty such log phases in a row
  open the breaker: whatever requests are at their upstreams, in whatever order requests arrive and
  reach their log phase, as long as none of them ends with anything but a refusal or a failure of
  its upstream. From then on, whatever happens, no request is ever handed to an upstream again. The
  breaker may be in any state that its own operations can produce.
\<close>
theorem overload_opens_global_breaker:
  assumes "refuses_or_fails tp env enc exec_ctx sv overload" and "50 \<le> length (filter is_finish overload)"
    and "cb_inv (global_cb tp sv)"
  shows "\<not> is_exec (fst (lua_access tp env enc cfg rq hr
    (sv_worker (run (lua_step tp env enc exec_ctx) sv (overload @ es)))))"
proof -
  let ?sv1 = "run (lua_step tp env enc exec_ctx) sv overload"
  obtain ts where ts: "length (filter is_finish overload) \<le> length ts"
    "global_cb tp ?sv1 = run cb_step (global_cb tp sv) (map EvFailure ts)"
    using overload_run [OF assms(1)] by blast
  have "cb_state (global_cb tp ?sv1) = STATE_OPEN"
    unfolding ts(2) by (rule fifty_failures_open [OF assms(3)]) (use assms(2) ts(1) in simp)
  then have c: "sv_open tp ?sv1" by (simp add: global_cb_def global_state_def state_value_def)
  have o: "sv_open tp (run (lua_step tp env enc exec_ctx) ?sv1 es)"
    by (rule run_inv [where I = "sv_open tp"]) (rule open_lua_step, assumption, rule c)
  show ?thesis
    by (rule lua_access_cases [where tp = tp and env = env and enc = enc and cfg = cfg and rq = rq and hr = hr
        and w = "sv_worker (run (lua_step tp env enc exec_ctx) ?sv1 es)"])
      (simp_all add: run_append open_refuses [OF o])
qed

text \<open>
  The ordinary overload: all slots are taken by requests at their upstreams, and requests that
  arrive are refused and logged one after the other.
\<close>

fun refusal :: "nat \<Rightarrow> GatewayConfig \<times> 'r request_reads \<times> http_request \<times> telemetry_reads \<times> int \<times> usize \<Rightarrow> 'r lua_event list" where
  "refusal n (cfg, rq, hr, tr, status, lat) = [Arrive cfg rq hr, Finish n tr status lat]"

fun refusable :: "int \<Rightarrow> GatewayConfig \<times> 'r request_reads \<times> http_request \<times> telemetry_reads \<times> int \<times> usize \<Rightarrow> bool" where
  "refusable n (cfg, rq, hr, tr, status, lat) \<longleftrightarrow>
     uint (global_max_concurrency (rq_cfg_bp rq)) \<le> n \<and> hr_method hr \<noteq> ''OPTIONS''"

lemma full_overload:
  assumes "1 \<le> in_flight sv" and "\<And>c. c \<in> set cs \<Longrightarrow> refusable (in_flight sv) c"
  shows "refuses_or_fails tp env enc exec_ctx sv (concat (map (refusal (length (sv_pending sv))) cs))"
  using assms
proof (induction cs arbitrary: sv)
  case (Cons c cs)
  obtain cfg rq hr tr status lat where c: "c = (cfg, rq, hr, tr, status, lat)" by (cases c) auto
  have full: "\<not> fst (gw_acquire tp (rq_cfg_bp rq) (lw_gw (sv_worker sv)))"
    using Cons.prems(1) Cons.prems(2) [of c] by (intro full_refuses) (simp_all add: c in_flight_def)
  moreover have "hr_method hr \<noteq> ''OPTIONS''" using Cons.prems(2) [of c] by (simp add: c)
  ultimately obtain w' x where a: "lua_access tp env enc cfg rq hr (sv_worker sv) = (LuaExit 503, w', x)"
    "lw_gw w' = lw_gw (sv_worker sv)" "\<not> ctx_admitted (lr_ctx x)"
    using refused_access [of tp rq "sv_worker sv" env enc cfg hr] by auto
  let ?sv' = "sv\<lparr>sv_worker := lua_log tp env tr (Some 503) lat x w'\<rparr>"
  have "in_flight ?sv' = in_flight sv" using a by (simp add: in_flight_def lua_log_in_flight)
  then have "refuses_or_fails tp env enc exec_ctx ?sv' (concat (map (refusal (length (sv_pending ?sv'))) cs))"
    using Cons.prems by (intro Cons.IH) simp_all
  then show ?case using full by (simp add: c a(1) unwrap_or_def)
qed simp

section \<open>Whose request it is\<close>

lemma gw_select_bufs:
  "fst (gw_select tp rq hint idn svc region s outs) \<noteq> 200 \<Longrightarrow> snd (snd (gw_select tp rq hint idn svc region s outs)) = outs"
  by (auto simp: gw_select_def reject_def split: prod.splits option.splits)

lemma gw_limits_bufs:
  "fst (gw_limits tp env rq hint idn svc region s outs) \<noteq> 200 \<Longrightarrow> snd (snd (gw_limits tp env rq hint idn svc region s outs)) = outs"
  using gw_select_bufs by (auto simp: gw_limits_def reject_def split: prod.splits bool.splits)

text \<open>A request that is not admitted leaves the buffers for the identity as they are.\<close>

lemma refused_bufs:
  assumes "fst (process_request tp env rq args s outs) \<noteq> 200"
  shows "ro_user_id (snd (snd (process_request tp env rq args s outs))) = ro_user_id outs
    \<and> ro_home_region (snd (snd (process_request tp env rq args s outs))) = ro_home_region outs"
proof -
  have route: "fst (gw_route tp env rq args idn s' o') \<noteq> 200 \<Longrightarrow>
      ro_user_id (snd (snd (gw_route tp env rq args idn s' o'))) = ro_user_id o'
      \<and> ro_home_region (snd (snd (gw_route tp env rq args idn s' o'))) = ro_home_region o'" for idn s' o'
    by (auto simp: gw_route_def reject_def Let_def gw_limits_bufs split: sum.splits option.splits if_splits)
  show ?thesis
    using assms route
    by (auto simp: process_request_def reject_def Let_def split: prod.splits bool.splits if_splits WafDecision.splits)
qed

text \<open>An admitted one writes them only when it has an identity.\<close>

lemma admitted_bufs:
  assumes "fst (process_request tp env rq args s outs) = 200" and "idn = fst (gw_identity tp env rq args s)"
  shows "ro_user_id (snd (snd (process_request tp env rq args s outs)))
      = (case idn of None \<Rightarrow> ro_user_id outs | Some uid \<Rightarrow> write_c_string (ui_user_id uid) (ro_user_id outs))
    \<and> ro_home_region (snd (snd (process_request tp env rq args s outs)))
      = (case Option.bind idn ui_home_region of None \<Rightarrow> ro_home_region outs | Some h \<Rightarrow> write_c_string h (ro_home_region outs))"
proof -
  obtain s4 o4 where s4: "process_request tp env rq args s outs = gw_route tp env rq args idn s4 o4"
      "o4 = outs\<lparr>ro_req_id := write_c_string (request_id (rq_pid rq) (gs_request_counter s)) (ro_req_id outs)\<rparr>"
    using process_request_stages [OF assms(1)] assms(2) by auto
  have "fst (gw_route tp env rq args idn s4 o4) = 200" using assms(1) s4(1) by simp
  from gw_route_admits [OF this] show ?thesis
    unfolding s4(1) by (auto simp: s4(2) admitted_outs_def Let_def split: option.splits)
qed

lemma admitted_region:
  assumes "fst (process_request tp env rq args s outs) = 200"
  shows "\<exists>r. ro_region (snd (snd (process_request tp env rq args s outs))) = write_c_string r (ro_region outs)"
proof -
  obtain idn s4 o4 where s4: "process_request tp env rq args s outs = gw_route tp env rq args idn s4 o4"
      "ro_region o4 = ro_region outs"
    using process_request_stages [OF assms] by auto
  have "fst (gw_route tp env rq args idn s4 o4) = 200" using assms s4(1) by simp
  then obtain reg a o5 where o: "snd (snd (gw_route tp env rq args idn s4 o4)) = admitted_outs reg a idn o5" "ro_region o5 = ro_region o4"
    using gw_route_admits by fastforce
  have "ro_region (admitted_outs reg a idn o5) = write_c_string reg (ro_region o5)"
    by (auto simp: admitted_outs_def Let_def split: option.split)
  then show ?thesis using s4 o by auto
qed

text \<open>What a hand-over leaves in the buffers and in the variables of the proxied request.\<close>

lemma exec_bufs:
  assumes "lua_access tp env enc cfg rq hr w = (LuaExec loc, w', x)"
  shows "fst (process_request tp env rq (lua_args hr) (lw_gw w) (lw_bufs w)) = 200
    \<and> lw_bufs w' = snd (snd (process_request tp env rq (lua_args hr) (lw_gw w) (lw_bufs w)))
    \<and> lw_gw w' = fst (snd (process_request tp env rq (lua_args hr) (lw_gw w) (lw_bufs w)))"
  using assms
  by (cases rule: lua_access_cases [where tp = tp and env = env and enc = enc and cfg = cfg and rq = rq and hr = hr and w = w])
    auto

lemma admitted_request_vars:
  "lr_user_id (snd (admitted_request bufs x)) = ffi_str (ro_user_id bufs)"
  "lr_home_region (snd (admitted_request bufs x)) = ffi_str (ro_home_region bufs)"
  "lr_target_upstream (snd (admitted_request bufs x)) = ffi_str (ro_upstream bufs)"
  "lr_target_region (snd (admitted_request bufs x)) = ffi_str (ro_region bufs)"
  "lr_target_tier (snd (admitted_request bufs x)) \<in> {''fast'', ''normal'', ''slow''}"
  by (simp_all add: admitted_request_def Let_def)

lemma respond_exec:
  assumes "lua_respond enc hr code bufs x = (LuaExec loc, y)"
  obtains x1 where "y = snd (admitted_request bufs x1)"
proof (cases "code = 200")
  case True
  then have "\<exists>x1. lua_respond enc hr code bufs x = admitted_request bufs x1" unfolding lua_respond_def Let_def by auto
  then show ?thesis using assms that by (metis snd_conv)
next
  case False
  then show ?thesis using assms by (simp add: lua_respond_def Let_def)
qed

lemma exec_vars:
  assumes "lua_access tp env enc cfg rq hr w = (LuaExec loc, w', x)"
  shows "lr_user_id x = ffi_str (ro_user_id (lw_bufs w')) \<and> lr_home_region x = ffi_str (ro_home_region (lw_bufs w'))
    \<and> lr_target_upstream x = ffi_str (ro_upstream (lw_bufs w')) \<and> lr_target_region x = ffi_str (ro_region (lw_bufs w'))
    \<and> lr_target_tier x \<in> {''fast'', ''normal'', ''slow''}"
proof -
  obtain code x1 where r: "lua_respond enc hr code (lw_bufs w') x1 = (LuaExec loc, x)"
    using assms unfolding lua_access_def Let_def by (auto split: prod.splits option.splits)
  then obtain x2 where x: "x = snd (admitted_request (lw_bufs w') x2)" by (rule respond_exec)
  show ?thesis unfolding x by (intro conjI admitted_request_vars)
qed

text \<open>An arrival that is admitted with an identity; none in a run of events.\<close>

fun identifies ::
    "('c, 'r, 'w) third_party \<Rightarrow> env \<Rightarrow> (string option \<Rightarrow> string) \<Rightarrow> ('c, 'w) lua_server \<Rightarrow> 'r lua_event \<Rightarrow> bool" where
  "identifies tp env enc sv (Arrive cfg rq hr) \<longleftrightarrow>
     is_exec (fst (lua_access tp env enc cfg rq hr (sv_worker sv)))
     \<and> fst (gw_identity tp env rq (lua_args hr) (lw_gw (sv_worker sv))) \<noteq> None"
| "identifies tp env enc sv (Finish i tr status latency_us) \<longleftrightarrow> False"

fun none_identifies ::
    "('c, 'r, 'w) third_party \<Rightarrow> env \<Rightarrow> (string option \<Rightarrow> string) \<Rightarrow> (lua_ctx \<Rightarrow> lua_ctx) \<Rightarrow> ('c, 'w) lua_server
     \<Rightarrow> 'r lua_event list \<Rightarrow> bool" where
  "none_identifies tp env enc exec_ctx sv [] \<longleftrightarrow> True"
| "none_identifies tp env enc exec_ctx sv (e # es) \<longleftrightarrow>
     \<not> identifies tp env enc sv e \<and> none_identifies tp env enc exec_ctx (lua_step tp env enc exec_ctx sv e) es"

abbreviation user_buf :: "('c, 'w) lua_worker \<Rightarrow> string option" where
  "user_buf w \<equiv> ro_user_id (lw_bufs w)"

abbreviation home_buf :: "('c, 'w) lua_worker \<Rightarrow> string option" where
  "home_buf w \<equiv> ro_home_region (lw_bufs w)"

lemma anonymous_step_bufs:
  assumes "\<not> identifies tp env enc sv e"
  shows "user_buf (sv_worker (lua_step tp env enc exec_ctx sv e)) = user_buf (sv_worker sv)
    \<and> home_buf (sv_worker (lua_step tp env enc exec_ctx sv e)) = home_buf (sv_worker sv)"
proof (cases e)
  case (Arrive cfg rq hr)
  let ?w = "sv_worker sv"
  have "user_buf (sv_worker (lua_step tp env enc exec_ctx sv (Arrive cfg rq hr))) = user_buf ?w
    \<and> home_buf (sv_worker (lua_step tp env enc exec_ctx sv (Arrive cfg rq hr))) = home_buf ?w"
  proof (rule lua_access_cases [where tp = tp and env = env and enc = enc and cfg = cfg and rq = rq and hr = hr and w = ?w])
    fix s bufs w' x
    assume a: "process_request tp env rq (lua_args hr) (lw_gw ?w) (lw_bufs ?w) = (200, s, bufs)"
      "lua_access tp env enc cfg rq hr ?w = (LuaExec (''@up_'' @ lr_target_tier x), w', x)" "lw_bufs w' = bufs"
    then have "fst (gw_identity tp env rq (lua_args hr) (lw_gw ?w)) = None" using assms by (simp add: Arrive)
    then show ?thesis
      using a admitted_bufs [where tp = tp and env = env and rq = rq and args = "lua_args hr" and s = "lw_gw ?w" and outs = "lw_bufs ?w"]
      by simp
  next
    fix code s bufs w' x
    assume "process_request tp env rq (lua_args hr) (lw_gw ?w) (lw_bufs ?w) = (code, s, bufs)" "code \<noteq> 200"
      "lua_access tp env enc cfg rq hr ?w = (LuaExit code, w', x)" "lw_bufs w' = bufs"
    then show ?thesis
      using refused_bufs [where tp = tp and env = env and rq = rq and args = "lua_args hr" and s = "lw_gw ?w" and outs = "lw_bufs ?w"]
      by simp
  qed simp
  then show ?thesis by (simp add: Arrive)
next
  case (Finish i tr status lat)
  then show ?thesis by (simp add: lua_log_def Let_def split: prod.splits)
qed

lemma anonymous_run_bufs:
  "none_identifies tp env enc exec_ctx sv es \<Longrightarrow>
     user_buf (sv_worker (run (lua_step tp env enc exec_ctx) sv es)) = user_buf (sv_worker sv)
   \<and> home_buf (sv_worker (run (lua_step tp env enc exec_ctx) sv es)) = home_buf (sv_worker sv)"
  by (induction es arbitrary: sv) (simp_all add: anonymous_step_bufs)

text \<open>Reading back what was written for a C caller.\<close>

lemma ffi_str_written:
  assumes "CHR 0x00 \<notin> set s" and "b \<noteq> []"
  shows "ffi_str (write_c_string s (Some b)) = take (length b - 1) s"
proof -
  let ?n = "min (length s) (length b - 1)"
  have "\<forall>c \<in> set (take ?n s). c \<noteq> CHR 0x00" using assms(1) by (auto dest: in_set_takeD)
  then have "takeWhile (\<lambda>c. c \<noteq> CHR 0x00) (take ?n s @ CHR 0x00 # drop (Suc ?n) b) = take (length b - 1) s"
    by (subst takeWhile_append2) (auto simp: min_def)
  then show ?thesis using assms(2) by (simp add: ffi_str_def write_c_string_def Let_def)
qed

lemma identified_bufs:
  assumes "identifies tp env enc sv (Arrive cfg rq hr)"
    and "fst (gw_identity tp env rq (lua_args hr) (lw_gw (sv_worker sv))) = Some uid"
  shows "user_buf (sv_worker (lua_step tp env enc exec_ctx sv (Arrive cfg rq hr)))
    = write_c_string (ui_user_id uid) (user_buf (sv_worker sv))"
proof -
  obtain loc w' x where a: "lua_access tp env enc cfg rq hr (sv_worker sv) = (LuaExec loc, w', x)"
    using assms(1) by (cases "lua_access tp env enc cfg rq hr (sv_worker sv)"; cases "fst (lua_access tp env enc cfg rq hr (sv_worker sv))") auto
  note e = exec_bufs [OF a]
  show ?thesis
    using admitted_bufs [OF conjunct1 [OF e], of "Some uid"] assms(2) e by (simp add: a)
qed

text \<open>(C5)
  An anonymous request reaches the upstream under somebody else's name. The buffers of the module
  are never cleared and the worker writes the user only for a request that has one. So after a
  request of a user was admitted, and however many anonymous or refused requests later, the next
  anonymous request that is admitted is proxied with the field \<open>X-User-Id\<close> of that user.
\<close>
theorem anonymous_request_carries_last_user:
  assumes "identifies tp env enc sv (Arrive cfg rq hr)"
    and "fst (gw_identity tp env rq (lua_args hr) (lw_gw (sv_worker sv))) = Some uid"
    and "CHR 0x00 \<notin> set (ui_user_id uid)" and "user_buf (sv_worker sv) = Some b" and "length b = 128"
    and "none_identifies tp env enc exec_ctx (lua_step tp env enc exec_ctx sv (Arrive cfg rq hr)) es"
    and "lua_access tp env enc cfg' rq' hr'
      (sv_worker (run (lua_step tp env enc exec_ctx) sv (Arrive cfg rq hr # es))) = (LuaExec loc, w', x)"
    and "fst (gw_identity tp env rq' (lua_args hr')
      (lw_gw (sv_worker (run (lua_step tp env enc exec_ctx) sv (Arrive cfg rq hr # es))))) = None"
  shows "proxied_headers x ''X-User-Id'' = non_empty (Some (take 127 (ui_user_id uid)))"
proof -
  let ?w = "sv_worker (run (lua_step tp env enc exec_ctx) sv (Arrive cfg rq hr # es))"
  have b: "b \<noteq> []" using assms(5) by auto
  have "user_buf ?w = write_c_string (ui_user_id uid) (Some b)"
    using anonymous_run_bufs [OF assms(6)] identified_bufs [OF assms(1,2)] assms(4) by simp
  moreover have "user_buf w' = user_buf ?w"
    using admitted_bufs [OF conjunct1 [OF exec_bufs [OF assms(7)]] assms(8) [symmetric]] exec_bufs [OF assms(7)] by simp
  ultimately have "lr_user_id x = take 127 (ui_user_id uid)"
    using exec_vars [OF assms(7)] ffi_str_written [OF assms(3) b] assms(5) by simp
  then show ?thesis by (simp add: proxied_headers_def)
qed

text \<open>A request with an identity is proxied under its own name, whatever headers the client sent.\<close>

lemma identified_request_carries_its_user:
  assumes "lua_access tp env enc cfg rq hr w = (LuaExec loc, w', x)"
    and "fst (gw_identity tp env rq (lua_args hr) (lw_gw w)) = Some uid"
    and "CHR 0x00 \<notin> set (ui_user_id uid)" and "user_buf w = Some b" and "length b = 128"
  shows "proxied_headers x ''X-User-Id'' = non_empty (Some (take 127 (ui_user_id uid)))"
proof -
  have b: "b \<noteq> []" using assms(5) by auto
  have "user_buf w' = write_c_string (ui_user_id uid) (Some b)"
    using admitted_bufs [OF conjunct1 [OF exec_bufs [OF assms(1)]] assms(2) [symmetric]] exec_bufs [OF assms(1)] assms(4) by simp
  then have "lr_user_id x = take 127 (ui_user_id uid)"
    using exec_vars [OF assms(1)] ffi_str_written [OF assms(3) b] assms(5) by simp
  then show ?thesis by (simp add: proxied_headers_def)
qed

text \<open>The home region is worse: a user without one is proxied with that of an earlier user.\<close>

lemma home_region_of_earlier_user:
  assumes "lua_access tp env enc cfg rq hr w = (LuaExec loc, w', x)"
    and "Option.bind (fst (gw_identity tp env rq (lua_args hr) (lw_gw w))) ui_home_region = None"
  shows "proxied_headers x ''X-Home-Region'' = non_empty (Some (ffi_str (home_buf w)))"
proof -
  have "home_buf w' = home_buf w"
    using admitted_bufs [OF conjunct1 [OF exec_bufs [OF assms(1)]] refl] exec_bufs [OF assms(1)] assms(2) by simp
  then show ?thesis using exec_vars [OF assms(1)] by (simp add: proxied_headers_def)
qed

text \<open>An anonymous answer of a request that found no slot repeats the identifier of an earlier request.\<close>

lemma shed_request_repeats_id:
  assumes "\<not> fst (gw_acquire tp (rq_cfg_bp rq) (lw_gw w))" and "hr_origin hr = None"
  shows "lr_headers_out (snd (snd (lua_access tp env enc cfg rq hr w))) ''X-Request-ID''
    = Some (ffi_str (ro_req_id (lw_bufs w)))"
  using process_request_refused [OF assms(1), of env "lua_args hr" "lw_bufs w"] assms(2)
  by (simp add: lua_access_def apply_cors_def lua_respond_def rejected_response_def Let_def)

section \<open>From the packed string to the response\<close>

lemma find_char_cases:
  "case find_char c s of
     None \<Rightarrow> c \<notin> set s
   | Some i \<Rightarrow> c \<notin> set (take i s) \<and> s = take i s @ c # drop (Suc i) s"
  by (induction s) (auto split: option.splits)

text \<open>The cutting loop is the reference splitting, and it undoes the joining.\<close>

lemma lua_split_is_split_on: "lua_split c s = split_on c s"
proof (induction c s rule: lua_split.induct)
  case (1 c s)
  show ?case
  proof (cases "find_char c s")
    case None
    have "split_on c s = [s]" if "c \<notin> set s" for s using that by (induction s) auto
    then show ?thesis using find_char_cases [of c s] None by (subst lua_split.simps) simp
  next
    case (Some i)
    have n: "c \<notin> set (take i s)" and s: "s = take i s @ c # drop (Suc i) s" using find_char_cases [of c s] Some by auto
    have "split_on c s = take i s # split_on c (drop (Suc i) s)" by (subst s) (rule split_on_line [OF n])
    then show ?thesis using "1.IH" [OF Some] Some by (subst lua_split.simps) simp
  qed
qed

lemma split_on_join:
  assumes "ps \<noteq> []" and "\<And>p. p \<in> set ps \<Longrightarrow> c \<notin> set p"
  shows "split_on c (join_with [c] ps) = ps"
  using assms
proof (induction ps rule: induct_list012)
  case (2 p)
  have "split_on c s = [s]" if "c \<notin> set s" for s using that by (induction s) auto
  then show ?case using 2 by simp
next
  case (3 p q ps)
  then have "split_on c (join_with [c] (q # ps)) = q # ps" by simp
  then show ?case using 3(4) [of p] split_on_line [of c p "join_with [c] (q # ps)"] by simp
qed simp

lemma split_on_length: "length (split_on c s) = Suc (length (filter ((=) c) s))"
  by (induction s) (auto split: list.splits)

lemma ffi_bytes_string:
  assumes "b \<noteq> []"
  shows "ffi_bytes (fst (ffi_string s (Some b))) (snd (ffi_string s (Some b))) = take (length b - 1) s"
  using assms by (simp add: ffi_string_def ffi_bytes_def write_c_string_def Let_def min_def)

definition cors_spec :: "bool \<Rightarrow> CorsConfig \<Rightarrow> string \<Rightarrow> header_table \<Rightarrow> header_table" where
  "cors_spec preflight cfg ao h =
     (let h1 = h(''Access-Control-Allow-Origin'' := Some ao, ''Vary'' := Some ''Origin'');
          h2 = (if effective_credentials cfg ao then h1(''Access-Control-Allow-Credentials'' := Some ''true'') else h1) in
      if preflight
      then h2(''Access-Control-Allow-Methods'' := Some (allowed_methods cfg),
              ''Access-Control-Allow-Headers'' := Some (allowed_headers cfg),
              ''Access-Control-Max-Age'' := Some (dec_string (unat (max_age cfg))), ''Content-Length'' := Some ''0'')
      else h2)"

lemma cors_response_spec:
  "cors_response preflight [ao, allowed_methods cfg, allowed_headers cfg, dec_string (unat (max_age cfg)),
     if effective_credentials cfg ao then ''true'' else ''false''] h = cors_spec preflight cfg ao h"
  by (rule ext) (simp add: cors_response_def cors_spec_def part_def Let_def)

lemma dec_string_no_sep: "CHR 0x1F \<notin> set (dec_string n)"
  using dec_string_digits [of n] by (auto simp: list_all_iff is_digit_def)

text \<open>(C30)
  The CORS answer is exact. For an allowed origin the response carries exactly the headers the policy
  decides: the origin, the credentials only with a named origin, and for a preflight also methods,
  headers and age, and then the request is answered 204 here. The policy crosses to the handler packed
  in one string, which loses nothing as long as no field contains the separator and all of it fits
  into the 511 bytes of the buffer.
\<close>
theorem cors_headers_exact:
  assumes "cors g = Some cfg" and "hr_origin hr = Some origin" and "origin \<noteq> []"
    and "str_bytes (c_str (c_arg origin)) = origin" and "allow_origin cfg origin = Some ao"
    and "list_all (\<lambda>p. CHR 0x1F \<notin> set p) [ao, allowed_methods cfg, allowed_headers cfg]"
    and "length (packed_headers g origin) \<le> 511" and "lw_cors_buf w = Some b" and "length b = 512"
  shows "fst (apply_cors g hr w x) = (if hr_method hr = ''OPTIONS'' then Some 204 else None)
    \<and> lr_headers_out (snd (snd (apply_cors g hr w x))) = cors_spec (hr_method hr = ''OPTIONS'') cfg ao (lr_headers_out x)"
proof -
  let ?ps = "[ao, allowed_methods cfg, allowed_headers cfg, dec_string (unat (max_age cfg)),
    if effective_credentials cfg ao then ''true'' else ''false'']"
  have b: "b \<noteq> []" using assms(9) by auto
  have p: "packed_headers g origin = join_with [CHR 0x1F] ?ps" using assms(1,5) by (simp add: packed_headers_def SEP_STR_def)
  have s: "lua_split (CHR 0x1F) (packed_headers g origin) = ?ps"
    unfolding p lua_split_is_split_on using assms(6) dec_string_no_sep by (intro split_on_join) (auto split: if_splits)
  have n: "packed_headers g origin \<noteq> []" unfolding p by simp
  have f: "ffi_bytes (fst (ffi_string (packed_headers g origin) (Some b))) (snd (ffi_string (packed_headers g origin) (Some b)))
      = packed_headers g origin"
    using ffi_bytes_string [OF b] assms(7,9) by simp
  show ?thesis
    using assms(2,3,4,8) f n
    by (simp add: apply_cors_def get_cors_headers_def case_prod_unfold Let_def s cors_response_spec)
qed

text \<open>A policy that does not fit loses its credentials flag: the end of the packed string is cut.\<close>

lemma cors_cut_loses_credentials:
  assumes "cors g = Some cfg" and "allow_origin cfg origin = Some ao"
    and "list_all (\<lambda>p. CHR 0x1F \<notin> set p) [ao, allowed_methods cfg, allowed_headers cfg]"
    and "n < length (packed_headers g origin)"
  shows "part 5 (lua_split (CHR 0x1F) (take n (packed_headers g origin))) \<noteq> Some ''true''"
proof -
  let ?c = "if effective_credentials cfg ao then ''true'' else ''false''"
  let ?four = "[ao, allowed_methods cfg, allowed_headers cfg, dec_string (unat (max_age cfg))]"
  have p: "packed_headers g origin = join_with [CHR 0x1F] ?four @ CHR 0x1F # ?c"
    using assms(1,2) by (simp add: packed_headers_def SEP_STR_def)
  have no: "q \<in> set ?four \<Longrightarrow> CHR 0x1F \<notin> set q" for q using assms(3) dec_string_no_sep by auto
  show ?thesis
  proof (cases "n \<le> length (join_with [CHR 0x1F] ?four)")
    case True
    have "length (split_on (CHR 0x1F) (join_with [CHR 0x1F] ?four)) = 4" using no by (subst split_on_join) auto
    then have "length (filter ((=) (CHR 0x1F)) (join_with [CHR 0x1F] ?four)) = 3" by (simp add: split_on_length)
    moreover have "length (filter ((=) (CHR 0x1F)) (take n (join_with [CHR 0x1F] ?four)))
        \<le> length (filter ((=) (CHR 0x1F)) (join_with [CHR 0x1F] ?four))"
      by (subst (2) append_take_drop_id [of n, symmetric]) (simp only: filter_append length_append le_add1)
    ultimately have "length (split_on (CHR 0x1F) (take n (packed_headers g origin))) < 5"
      using True by (simp add: p split_on_length del: join_with.simps)
    then show ?thesis by (simp add: lua_split_is_split_on part_def)
  next
    case False
    let ?k = "n - Suc (length (join_with [CHR 0x1F] ?four))"
    have "join_with [CHR 0x1F] (?four @ [t]) = join_with [CHR 0x1F] ?four @ CHR 0x1F # t" for t by simp
    then have k: "take n (packed_headers g origin) = join_with [CHR 0x1F] (?four @ [take ?k ?c])"
      using False by (simp add: p take_Cons' del: join_with.simps append.simps)
    have "CHR 0x1F \<notin> set (take ?k ?c)" by (auto dest!: in_set_takeD split: if_splits)
    then have "lua_split (CHR 0x1F) (take n (packed_headers g origin)) = ?four @ [take ?k ?c]"
      unfolding k lua_split_is_split_on using no by (intro split_on_join) auto
    moreover have "?k < length ?c" using False assms(4) by (simp add: p del: join_with.simps)
    then have "take ?k ?c \<noteq> ''true''"
    proof (cases "effective_credentials cfg ao")
      case True
      with \<open>?k < length ?c\<close> have "length (take ?k ?c) < 4" by simp
      moreover have "length ''true'' = 4" by simp
      ultimately show ?thesis by (metis less_irrefl)
    qed (cases ?k, simp_all)
    ultimately show ?thesis by (simp add: part_def)
  qed
qed

text \<open>The metrics page degrades to a liveness line exactly when a registered address is broken.\<close>

lemma metrics_page_fallback:
  "snd (snd (lua_metrics (fst (get_metrics_string fx env sec now_ms p))))
     = (if \<exists>a \<in> set (hs_registry (pr_health p)). CHR 0x00 \<in> set a then ''gateway_up 1'' @ [CHR 0x0A]
        else fst (prometheus_text fx env sec now_ms p))"
  by (simp add: lua_metrics_def metrics_unavailable_iff_nul_address)

section \<open>A worker at work\<close>

text \<open>The worker of theory \<open>Gateway_Pipeline\<close> behind the handlers: a request of a user, then one without a
  token.
\<close>

definition demo_http :: "string option \<Rightarrow> http_request" where
  "demo_http auth = \<lparr>hr_method = ''GET'', hr_request_uri = Some ''/x?q'', hr_uri = None, hr_authorization = auth,
     hr_user_agent = None, hr_remote_addr = None, hr_x_canary = None, hr_cookie_canary = None, hr_content_type = None,
     hr_origin = None, hr_traceparent = None, hr_body_data = None, hr_body_file = None, hr_headers = Map.empty\<rparr>"

definition demo_server :: "(string \<Rightarrow> CachedToken option, unit) lua_server" where
  "demo_server = \<lparr>sv_worker = lua_load demo_state, sv_pending = []\<rparr>"

definition empty_ctx :: "lua_ctx \<Rightarrow> lua_ctx" where
  "empty_ctx c = \<lparr>ctx_request_id = None, ctx_admitted = False\<rparr>"

lemma process_request_same_strings:
  assumes "c_str (ra_auth_header a) = c_str (ra_auth_header a')" "c_str (ra_path a) = c_str (ra_path a')"
    "c_str (ra_user_agent a) = c_str (ra_user_agent a')" "body_str (ra_body a) = body_str (ra_body a')"
    "c_str (ra_client_ip a) = c_str (ra_client_ip a')" "c_str (ra_canary_hint a) = c_str (ra_canary_hint a')"
    "c_str (ra_content_type a) = c_str (ra_content_type a')"
    "ra_auth_header a = None \<longleftrightarrow> ra_auth_header a' = None" "ra_path a = None \<longleftrightarrow> ra_path a' = None"
  shows "process_request tp env rq a s outs = process_request tp env rq a' s outs"
    and "gw_identity tp env rq a s = gw_identity tp env rq a' s"
proof -
  have w: "gw_waf tp env rq a = gw_waf tp env rq a'" by (rule ext) (simp add: gw_waf_def assms)
  have i: "gw_identity tp env rq a = gw_identity tp env rq a'" by (rule ext) (simp add: gw_identity_def assms)
  have r: "gw_route tp env rq a = gw_route tp env rq a'" by (intro ext) (simp only: gw_route_def assms(1-7))
  show "process_request tp env rq a s outs = process_request tp env rq a' s outs"
    by (simp only: process_request_def w i r assms(8,9))
  show "gw_identity tp env rq a s = gw_identity tp env rq a' s" by (simp add: i)
qed

lemma demo_http_args:
  assumes "CHR 0x00 \<notin> set hdr"
  shows "process_request tp env rq (lua_args (demo_http (Some hdr))) s outs = process_request tp env rq (demo_args hdr) s outs"
    and "gw_identity tp env rq (lua_args (demo_http (Some hdr))) s = gw_identity tp env rq (demo_args hdr) s"
proof -
  have h: "takeWhile (\<lambda>c. c \<noteq> CHR 0x00) hdr = hdr" unfolding takeWhile_eq_all_conv using assms by auto
  have p: "takeWhile (\<lambda>c. c \<noteq> CHR 0x00) ''/x?q'' = ''/x?q''" by simp
  have l: "from_utf8_lossy [] = []" by (subst from_utf8_lossy.simps) simp
  let ?a = "lua_args (demo_http (Some hdr))"
  have f: "ra_auth_header ?a = Some hdr" "ra_path ?a = Some ''/x?q''" "ra_user_agent ?a = Some []" "ra_body ?a = Some []"
      "ra_client_ip ?a = Some []" "ra_canary_hint ?a = Some []" "ra_content_type ?a = Some []"
    by (simp_all add: lua_args_def demo_http_def c_arg_def unwrap_or_def lua_body_def h p)
  note same = process_request_same_strings [of ?a "demo_args hdr"]
  show "process_request tp env rq ?a s outs = process_request tp env rq (demo_args hdr) s outs"
    by (rule same(1)) (simp_all add: f demo_args_def demo_c_str body_str_def l)
  show "gw_identity tp env rq ?a s = gw_identity tp env rq (demo_args hdr) s"
    by (rule same(2)) (simp_all add: f demo_args_def demo_c_str body_str_def l)
qed

lemma demo_select_state:
  assumes "fst (usable fx now ''a:1'' st)"
  shows "select_upstream fx now emas (Some (demo_service q)) ''US'' uid hint st = (Some ''a:1'', snd (usable fx now ''a:1'' st))"
proof -
  obtain st' where u: "usable fx now ''a:1'' st = (True, st')" using assms by (cases "usable fx now ''a:1'' st") auto
  have r: "build_weight_ring_positions (map (\<lambda>u. max (up_weight u) 1) [demo_upstream]) = [0]"
    by (simp add: build_weight_ring_positions_def demo_upstream_def)
  have a: "up_address demo_upstream = ''a:1''" by (simp add: demo_upstream_def)
  have s: "snd (select_upstream fx now emas (Some (demo_service q)) ''US'' uid hint st) = st'"
    using r u by (auto simp: select_upstream_def demo_service_def select_from_def collect_healthy_distinct_def a Let_def split: option.splits)
  have "fst (select_upstream fx now emas (Some (demo_service q)) ''US'' uid hint st) = Some ''a:1''"
    using select_upstream_spec [where fx = fx and now = now and emas = emas and service = "Some (demo_service q)"
        and region = "''US''" and uid = uid and hint = hint and st = st] u
    by (auto simp: usable_addresses_def region_pool_def demo_service_def a split: option.splits)
  then show ?thesis using s u by (metis prod.collapse snd_conv)
qed

lemma demo_process:
  assumes "\<And>s'. gw_waf demo_tp Map.empty (demo_request_reads None) args s' = (Allow, s')"
    and "\<And>s'. gs_lru s' = gs_lru s \<Longrightarrow> gw_identity demo_tp Map.empty (demo_request_reads None) args s' = (idn, s'\<lparr>gs_lru := c\<rparr>)"
    and "Option.bind (map_option ui_home_region idn) id = None"
    and "lb_cb (gs_lb s) = cb_init_shm" and "fst (usable (tp_fx demo_tp) 100 ''a:1'' (gs_lb s))"
    and "gs_in_flight s < 10000" and "ro_region outs \<noteq> None" and "ra_auth_header args \<noteq> None" and "ra_path args \<noteq> None"
  shows "fst (process_request demo_tp Map.empty (demo_request_reads None) args s outs) = 200
    \<and> gs_lb (fst (snd (process_request demo_tp Map.empty (demo_request_reads None) args s outs)))
      = snd (usable (tp_fx demo_tp) 100 ''a:1'' (gs_lb s))"
proof -
  let ?rq = "demo_request_reads None"
  let ?s2 = "s\<lparr>gs_in_flight := gs_in_flight s + 1, gs_request_counter := gs_request_counter s + 1\<rparr>"
  have a: "gw_acquire demo_tp (rq_cfg_bp ?rq) s = (True, s\<lparr>gs_in_flight := gs_in_flight s + 1\<rparr>)"
    using assms(4,6) by (simp add: gw_acquire_def bp_acquire_cases bp_limit_def demo_request_reads_def demo_config_def
        GatewayConfig_default_def global_state_def state_value_def get_cb_def cb_init_shm_def fresh_cb_def)
  have i: "gw_identity demo_tp Map.empty ?rq args ?s2 = (idn, ?s2\<lparr>gs_lru := c\<rparr>)" by (rule assms(2)) simp
  obtain o' where p: "process_request demo_tp Map.empty ?rq args s outs
      = gw_route demo_tp Map.empty ?rq args idn (?s2\<lparr>gs_lru := c\<rparr>) o'"
    using assms(7-9) i by (auto simp: process_request_def a assms(1) Let_def)
  note r = demo_route_of [OF assms(3), of None args]
  obtain hint o'' where l: "gw_route demo_tp Map.empty ?rq args idn (?s2\<lparr>gs_lru := c\<rparr>) o'
      = gw_limits demo_tp Map.empty ?rq hint idn (demo_service None) ''US'' (?s2\<lparr>gs_lru := c\<rparr>) o''"
    using r by (auto simp: gw_route_def route_of_def validation_status_def demo_request_reads_def calm_posture_def shed_anonymous_def)
  have d: "require_auth (demo_service None) = False" "rate_limit_max (demo_service None) = 0" "quota (demo_service None) = None"
    by (simp_all add: demo_service_def)
  obtain rl where "check_rate_limit (tp_fx demo_tp) Map.empty (rq_rl_cas ?rq) (rq_rl_now ?rq) 0 (map_option ui_user_id idn) (gs_rl s) = (True, rl)"
    by (cases idn) (auto simp: check_rate_limit_def)
  then have g: "gw_limits demo_tp Map.empty ?rq hint idn (demo_service None) ''US'' (?s2\<lparr>gs_lru := c\<rparr>) o''
      = gw_select demo_tp ?rq hint idn (demo_service None) ''US'' (?s2\<lparr>gs_lru := c, gs_rl := rl\<rparr>) o''"
    by (simp add: gw_limits_def gw_quota_def d split: option.split)
  have n: "rq_lb_now ?rq = 100" by (simp add: demo_request_reads_def)
  show ?thesis unfolding p l g using demo_select_state [OF assms(5)] by (simp add: gw_select_def n)
qed

lemma is_exec_iff:
  assumes "hr_method hr \<noteq> ''OPTIONS''"
  shows "is_exec (fst (lua_access tp env enc cfg rq hr w))
    \<longleftrightarrow> fst (process_request tp env rq (lua_args hr) (lw_gw w) (lw_bufs w)) = 200"
  by (rule lua_access_cases [where tp = tp and env = env and enc = enc and cfg = cfg and rq = rq and hr = hr and w = w])
    (use assms in auto)

lemma is_exec_E:
  assumes "is_exec (fst a)"
  obtains loc w x where "a = (LuaExec loc, w, x)"
  using assms by (cases a; cases "fst a") auto

lemma demo_get: "hr_method (demo_http auth) \<noteq> ''OPTIONS''"
  by (simp add: demo_http_def)

definition demo_arrival :: "string \<Rightarrow> unit lua_event" where
  "demo_arrival hdr = Arrive GatewayConfig_default (demo_request_reads None) (demo_http (Some hdr))"

abbreviation demo_step :: "(string \<Rightarrow> CachedToken option, unit) lua_server \<Rightarrow> unit lua_event \<Rightarrow> (string \<Rightarrow> CachedToken option, unit) lua_server" where
  "demo_step \<equiv> lua_step demo_tp Map.empty (\<lambda>_. []) empty_ctx"

lemma demo_gw: "lw_gw (sv_worker demo_server) = demo_state" "lw_bufs (sv_worker demo_server) = module_buffers"
    "sv_pending demo_server = []"
  by (simp_all add: demo_server_def lua_load_def)

lemma demo_bearer_identity:
  "\<exists>c. \<forall>s. gs_lru s = Map.empty \<longrightarrow>
     gw_identity demo_tp Map.empty (demo_request_reads None) (demo_args ''Bearer h.p.s'') s = (Some demo_user, s\<lparr>gs_lru := c\<rparr>)"
proof -
  obtain c where "validate_token demo_lib map_cache Map.empty GatewayConfig_default (demo_reads 100) ''Bearer h.p.s'' Map.empty
      = (Some demo_user, c)"
    using demo_accepts by (metis demo_user_def prod.collapse)
  then show ?thesis
    by (intro exI [of _ c]) (simp add: gw_identity_def demo_args_def demo_bearer(2) demo_tp_def demo_request_reads_def)
qed

lemma demo_bearer_admitted:
  "fst (process_request demo_tp Map.empty (demo_request_reads None) (demo_args ''Bearer h.p.s'') demo_state module_buffers) = 200
   \<and> gs_lb (fst (snd (process_request demo_tp Map.empty (demo_request_reads None) (demo_args ''Bearer h.p.s'') demo_state module_buffers)))
     = snd (usable (tp_fx demo_tp) 100 ''a:1'' (gs_lb demo_state))"
proof -
  obtain c where c: "\<And>s. gs_lru s = Map.empty \<Longrightarrow>
      gw_identity demo_tp Map.empty (demo_request_reads None) (demo_args ''Bearer h.p.s'') s = (Some demo_user, s\<lparr>gs_lru := c\<rparr>)"
    using demo_bearer_identity by auto
  show ?thesis
  proof (rule demo_process [where idn = "Some demo_user" and c = c])
    show "gw_waf demo_tp Map.empty (demo_request_reads None) (demo_args ''Bearer h.p.s'') s' = (Allow, s')" for s'
      by (simp add: gw_waf_def inspect_def demo_args_def demo_c_str demo_bearer(1) body_str_def demo_tp_def str_len_def utf8_char_def)
    have "gs_lru demo_state = Map.empty" by (simp add: demo_state_def)
    then show "gw_identity demo_tp Map.empty (demo_request_reads None) (demo_args ''Bearer h.p.s'') s'
        = (Some demo_user, s'\<lparr>gs_lru := c\<rparr>)" if "gs_lru s' = gs_lru demo_state" for s'
      using that by (intro c) simp
  qed (simp_all add: demo_user_def demo_state_def fresh_usable module_buffers_def scratch_def demo_args_def)
qed

lemma demo_usable_after:
  "lb_cb (snd (usable (tp_fx demo_tp) 100 ''a:1'' (gs_lb demo_state))) = cb_init_shm"
  "fst (usable (tp_fx demo_tp) 100 ''a:1'' (snd (usable (tp_fx demo_tp) 100 ''a:1'' (gs_lb demo_state))))"
proof -
  have "set_cb fx n fresh_cb cb_init_shm = cb_init_shm" for fx n by (simp add: set_cb_def cb_init_shm_def fun_eq_iff)
  then show "lb_cb (snd (usable (tp_fx demo_tp) 100 ''a:1'' (gs_lb demo_state))) = cb_init_shm"
    using usable_snd [of "tp_fx demo_tp" 100 "''a:1''" "gs_lb demo_state"]
    by (simp add: demo_state_def is_upstream_open_def get_cb_def cb_init_shm_def cb_is_open_def is_open_env_def fresh_cb_def)
  show "fst (usable (tp_fx demo_tp) 100 ''a:1'' (snd (usable (tp_fx demo_tp) 100 ''a:1'' (gs_lb demo_state))))"
    using lbq.stable [of "tp_fx demo_tp" 100 "''a:1''" "''a:1''" "gs_lb demo_state"] by (simp add: demo_state_def fresh_usable)
qed

lemma demo_identifies: "identifies demo_tp Map.empty (\<lambda>_. []) demo_server (demo_arrival ''Bearer h.p.s'')"
  using demo_bearer_admitted demo_bearer_identity
  by (auto simp: demo_arrival_def is_exec_iff [OF demo_get] demo_gw demo_http_args demo_state_def)

lemma demo_second:
  "fst (process_request demo_tp Map.empty (demo_request_reads None) (demo_args [])
     (lw_gw (sv_worker (demo_step demo_server (demo_arrival ''Bearer h.p.s''))))
     (lw_bufs (sv_worker (demo_step demo_server (demo_arrival ''Bearer h.p.s''))))) = 200"
proof -
  let ?rq = "demo_request_reads None" and ?hr = "demo_http (Some ''Bearer h.p.s'')"
  obtain loc w x where a: "lua_access demo_tp Map.empty (\<lambda>_. []) GatewayConfig_default ?rq ?hr (sv_worker demo_server) = (LuaExec loc, w, x)"
    using demo_identifies by (auto simp: demo_arrival_def elim: is_exec_E)
  have p: "process_request demo_tp Map.empty ?rq (lua_args ?hr) demo_state module_buffers
      = process_request demo_tp Map.empty ?rq (demo_args ''Bearer h.p.s'') demo_state module_buffers" for s o'
    by (rule demo_http_args(1)) simp
  note e = exec_bufs [OF a, unfolded demo_gw p]
  have w: "sv_worker (demo_step demo_server (demo_arrival ''Bearer h.p.s'')) = w" by (simp add: demo_arrival_def a)
  have lb: "gs_lb (lw_gw w) = snd (usable (tp_fx demo_tp) 100 ''a:1'' (gs_lb demo_state))" using e demo_bearer_admitted by simp
  have f: "gs_in_flight (lw_gw w) = 1"
    using process_request_outcome [where tp = demo_tp and env = Map.empty and rq = ?rq and args = "demo_args ''Bearer h.p.s''"
        and s = demo_state and outs = module_buffers] e
    by (auto simp: gateway_statuses_def demo_state_def split: prod.splits)
  have o: "ro_region (lw_bufs w) \<noteq> None"
    using admitted_region [OF conjunct1 [OF e]] e by (auto simp: module_buffers_def scratch_def write_c_string_def Let_def)
  show ?thesis unfolding w
  proof (rule conjunct1 [OF demo_process [where idn = None and c = "gs_lru (lw_gw w)"]])
    show "gw_waf demo_tp Map.empty ?rq (demo_args []) s' = (Allow, s')" for s' by (simp add: demo_waf)
    show "gw_identity demo_tp Map.empty ?rq (demo_args []) s' = (None, s'\<lparr>gs_lru := gs_lru (lw_gw w)\<rparr>)"
      if "gs_lru s' = gs_lru (lw_gw w)" for s'
      unfolding that [symmetric] by (simp add: demo_identity)
  qed (simp_all add: lb demo_usable_after f o demo_args_def)
qed

definition demo_telemetry :: telemetry_reads where
  "demo_telemetry = \<lparr>tr_now_ns = 0, tr_now_ms = 0, tr_now_cb = 100, tr_now_global = 100\<rparr>"

text \<open>The request of the user finished, and its slot is still taken.\<close>

theorem admissions_limited_for_life_witness:
  "in_flight (run demo_step demo_server [demo_arrival ''Bearer h.p.s'', Finish 0 demo_telemetry 200 5]) = 1
   \<and> sv_pending (run demo_step demo_server [demo_arrival ''Bearer h.p.s'', Finish 0 demo_telemetry 200 5]) = []"
proof -
  let ?es = "[demo_arrival ''Bearer h.p.s'', Finish 0 demo_telemetry 200 5]"
  have l: "uint (global_max_concurrency (rq_cfg_bp rq)) \<le> 10000" if "Arrive cfg rq hr \<in> set ?es" for cfg rq hr
    using that by (auto simp: demo_arrival_def demo_request_reads_def demo_config_def GatewayConfig_default_def)
  have i: "in_flight demo_server = 0" by (simp add: in_flight_def demo_gw demo_state_def)
  have a: "admissions demo_tp Map.empty (\<lambda>_. []) empty_ctx demo_server ?es = 1"
    using demo_identifies by (simp add: demo_arrival_def)
  have "in_flight (run demo_step demo_server ?es) = in_flight demo_server + int (admissions demo_tp Map.empty (\<lambda>_. []) empty_ctx demo_server ?es)"
    using admissions_limited_for_life [where exec_ctx = empty_ctx and sv = demo_server and L = 10000 and es = ?es
        and tp = demo_tp and env = Map.empty and enc = "\<lambda>_. []"] l
    by (simp add: empty_ctx_def demo_gw)
  then have "in_flight (run demo_step demo_server ?es) = 1" unfolding a i by simp
  moreover have "sv_pending (run demo_step demo_server ?es) = []"
    using demo_identifies by (auto simp: demo_arrival_def demo_gw elim!: is_exec_E)
  ultimately show ?thesis by blast
qed

text \<open>The anonymous request that follows is proxied as the user \<open>al\<close>.\<close>

theorem anonymous_request_carries_last_user_witness:
  "\<exists>loc w' x. lua_access demo_tp Map.empty (\<lambda>_. []) GatewayConfig_default (demo_request_reads None) (demo_http (Some []))
      (sv_worker (run demo_step demo_server [demo_arrival ''Bearer h.p.s''])) = (LuaExec loc, w', x)
    \<and> proxied_headers x ''X-User-Id'' = Some ''al''"
proof -
  let ?rq = "demo_request_reads None"
  let ?w = "sv_worker (run demo_step demo_server [demo_arrival ''Bearer h.p.s''])"
  have args: "process_request demo_tp Map.empty ?rq (lua_args (demo_http (Some []))) s o'
      = process_request demo_tp Map.empty ?rq (demo_args []) s o'"
    "gw_identity demo_tp Map.empty ?rq (lua_args (demo_http (Some []))) s = (None, s)" for s o'
    by (simp_all add: demo_http_args demo_identity)
  have "is_exec (fst (lua_access demo_tp Map.empty (\<lambda>_. []) GatewayConfig_default ?rq (demo_http (Some [])) ?w))"
    using demo_second by (simp add: is_exec_iff [OF demo_get] args)
  then obtain loc w' x where a: "lua_access demo_tp Map.empty (\<lambda>_. []) GatewayConfig_default ?rq (demo_http (Some [])) ?w
      = (LuaExec loc, w', x)" by (rule is_exec_E)
  have u: "fst (gw_identity demo_tp Map.empty ?rq (lua_args (demo_http (Some ''Bearer h.p.s''))) (lw_gw (sv_worker demo_server)))
      = Some demo_user"
  proof -
    have "gs_lru demo_state = Map.empty" by (simp add: demo_state_def)
    then show ?thesis using demo_bearer_identity by (auto simp: demo_http_args demo_gw)
  qed
  have "proxied_headers x ''X-User-Id'' = non_empty (Some (take 127 (ui_user_id demo_user)))"
  proof (rule anonymous_request_carries_last_user [OF _ u])
    show "identifies demo_tp Map.empty (\<lambda>_. []) demo_server (Arrive GatewayConfig_default ?rq (demo_http (Some ''Bearer h.p.s'')))"
      using demo_identifies by (simp only: demo_arrival_def)
    show "user_buf (sv_worker demo_server) = Some (replicate 128 (CHR 0x00))" by (simp add: demo_gw module_buffers_def scratch_def)
    show "none_identifies demo_tp Map.empty (\<lambda>_. []) empty_ctx
        (demo_step demo_server (Arrive GatewayConfig_default ?rq (demo_http (Some ''Bearer h.p.s'')))) []" by simp
    show "lua_access demo_tp Map.empty (\<lambda>_. []) GatewayConfig_default ?rq (demo_http (Some []))
        (sv_worker (run demo_step demo_server [Arrive GatewayConfig_default ?rq (demo_http (Some ''Bearer h.p.s''))]))
        = (LuaExec loc, w', x)" using a by (simp only: demo_arrival_def)
  qed (simp_all add: demo_user_def args)
  then show ?thesis using a by (auto simp: demo_user_def non_empty_def)
qed

text \<open>Fifty refused requests while ten thousand slots are taken and a request is at its upstream.\<close>

definition demo_full :: "(string \<Rightarrow> CachedToken option, unit) lua_server" where
  "demo_full = \<lparr>sv_worker = lua_load (demo_state\<lparr>gs_in_flight := 10000\<rparr>),
     sv_pending = [((lua_start (demo_http None))\<lparr>lr_target_upstream := ''10.0.0.1:80''\<rparr>, None)]\<rparr>"

definition demo_refusal :: "unit lua_event list" where
  "demo_refusal = refusal 1 (GatewayConfig_default, demo_request_reads None, demo_http None, demo_telemetry, 503, 5)"

theorem overload_opens_global_breaker_witness:
  "\<not> is_exec (fst (lua_access demo_tp Map.empty (\<lambda>_. []) GatewayConfig_default (demo_request_reads None) (demo_http None)
     (sv_worker (run demo_step demo_full (concat (replicate 50 demo_refusal) @ [])))))"
proof (rule overload_opens_global_breaker)
  let ?c = "(GatewayConfig_default, demo_request_reads None, demo_http None, demo_telemetry, 503, 5)"
  show "cb_inv (global_cb demo_tp demo_full)"
    using cb_inv_fresh by (simp add: global_cb_def demo_full_def lua_load_def demo_state_def get_cb_def cb_init_shm_def)
  have "refuses_or_fails demo_tp Map.empty (\<lambda>_. []) empty_ctx demo_full
      (concat (map (refusal (length (sv_pending demo_full))) (replicate 50 ?c)))"
    by (rule full_overload) (auto simp: demo_full_def in_flight_def lua_load_def demo_request_reads_def demo_config_def
        GatewayConfig_default_def demo_http_def)
  then show "refuses_or_fails demo_tp Map.empty (\<lambda>_. []) empty_ctx demo_full (concat (replicate 50 demo_refusal))"
    by (simp only: demo_refusal_def map_replicate) (simp add: demo_full_def)
  have "filter is_finish demo_refusal = [Finish 1 demo_telemetry 503 5]" by (simp add: demo_refusal_def)
  then show "50 \<le> length (filter is_finish (concat (replicate 50 demo_refusal)))"
    by (simp add: filter_concat length_concat sum_list_replicate)
qed

definition demo_policy :: CorsConfig where
  "demo_policy = \<lparr>allowed_origins = [''https://a''], allow_credentials = True,
     allowed_methods = ''GET'', allowed_headers = ''Accept'', max_age = 600\<rparr>"

theorem cors_headers_exact_witness:
  "fst (apply_cors (GatewayConfig_default\<lparr>cors := Some demo_policy\<rparr>) ((demo_http None)\<lparr>hr_origin := Some ''https://a''\<rparr>)
      (sv_worker demo_server) (lua_start (demo_http None))) = None
   \<and> lr_headers_out (snd (snd (apply_cors (GatewayConfig_default\<lparr>cors := Some demo_policy\<rparr>)
        ((demo_http None)\<lparr>hr_origin := Some ''https://a''\<rparr>) (sv_worker demo_server) (lua_start (demo_http None)))))
      ''Access-Control-Allow-Credentials'' = Some ''true''"
proof -
  let ?g = "GatewayConfig_default\<lparr>cors := Some demo_policy\<rparr>" and ?hr = "(demo_http None)\<lparr>hr_origin := Some ''https://a''\<rparr>"
  have ao: "allow_origin demo_policy ''https://a'' = Some ''https://a''"
    by (simp add: allow_origin_def demo_policy_def trim_printable printable_def)
  have c: "str_bytes (c_str (c_arg ''https://a'')) = ''https://a''" by (simp add: c_arg_def c_str_ascii(2))
  have p: "length (packed_headers ?g ''https://a'') \<le> 511"
    using ao by (simp add: packed_headers_def demo_policy_def SEP_STR_def dec_string.simps)
  have "fst (apply_cors ?g ?hr (sv_worker demo_server) (lua_start (demo_http None)))
      = (if hr_method ?hr = ''OPTIONS'' then Some 204 else None)
    \<and> lr_headers_out (snd (snd (apply_cors ?g ?hr (sv_worker demo_server) (lua_start (demo_http None)))))
      = cors_spec (hr_method ?hr = ''OPTIONS'') demo_policy ''https://a'' (lr_headers_out (lua_start (demo_http None)))"
  proof (rule cors_headers_exact [OF _ _ _ c ao _ p])
    show "lw_cors_buf (sv_worker demo_server) = Some (replicate 512 (CHR 0x00))"
      by (simp add: demo_server_def lua_load_def scratch_def)
  qed (simp_all add: demo_policy_def)
  then show ?thesis by (simp add: demo_http_def cors_spec_def effective_credentials_def demo_policy_def)
qed

end
