(* ===== verification/Shared_Memory.thy ===== *)
theory Shared_Memory
  imports Gateway_Pipeline
begin

text \<open>
  The shared memory under the tables of the other theories: \<open>init_shm\<close> of the six modules that keep
  state across workers (\<open>load_balancing/circuit_breaker.rs\<close>, \<open>debt.rs\<close>, \<open>health.rs\<close>, \<open>telemetry.rs\<close>,
  \<open>waf.rs\<close>, \<open>rate_limit.rs\<close>), the layout of their \<open>repr(C)\<close> structures and the pointer arithmetic of
  their accessors.

  A mapping is shared, so what it holds is what the file holds: a list of bytes. Integers are stored
  least significant byte first (the targets are x86-64 and arm64); an atomic has the layout of its
  integer. The answers of the operating system to a call of \<open>init_shm\<close> are its argument \<open>os\<close>; a
  refused call is a panic, which aborts the worker.
\<close>

section \<open>Opening, sizing, mapping\<close>

type_synonym bytes = "u8 list"
type_synonym disk = "string \<Rightarrow> bytes option"

record os_answers =
  os_opened :: bool
  os_sized :: bool
  os_mapped :: bool

datatype shm_panic = OpenRefused | SizeRefused | MapRefused

text \<open>\<open>File::set_len\<close> cuts a longer file and extends a shorter one with zeros.\<close>

definition set_len :: "nat \<Rightarrow> bytes \<Rightarrow> bytes" where
  "set_len n bs = take n bs @ replicate (n - length bs) 0"

text \<open>Opened for reading and writing and created when missing, but never truncated.\<close>

definition init_map :: "string \<Rightarrow> nat \<Rightarrow> os_answers \<Rightarrow> disk \<Rightarrow> shm_panic option \<times> disk" where
  "init_map path sz os d =
     (if \<not> os_opened os then (Some OpenRefused, d)
      else
        (let contents = (case d path of Some bs \<Rightarrow> bs | None \<Rightarrow> []); d1 = d(path := Some contents) in
         if \<not> os_sized os then (Some SizeRefused, d1)
         else
           (let d2 = d1(path := Some (set_len sz contents)) in
            if \<not> os_mapped os then (Some MapRefused, d2) else (None, d2))))"

section \<open>Layouts\<close>

fun le_bytes :: "nat \<Rightarrow> nat \<Rightarrow> bytes" where
  "le_bytes 0 x = []"
| "le_bytes (Suc n) x = of_nat x # le_bytes n (x div 256)"

fun of_le :: "bytes \<Rightarrow> nat" where
  "of_le [] = 0"
| "of_le (b # bs) = unat b + 256 * of_le bs"

lemma length_le_bytes [simp]: "length (le_bytes n x) = n"
  by (induction n arbitrary: x) simp_all

lemma of_le_bytes: "of_le (le_bytes n x) = x mod 256 ^ n"
proof (induction n arbitrary: x)
  case (Suc n)
  have "unat (of_nat x :: u8) = x mod 256" by (simp add: unsigned_of_nat take_bit_eq_mod)
  then show ?case by (simp add: Suc.IH mod_mult2_eq)
qed simp

lemma of_le_zero: "of_le (replicate n 0) = 0"
  by (induction n) simp_all

definition enc64 :: "u64 \<Rightarrow> bytes" where
  "enc64 w = le_bytes 8 (unat w)"

definition dec64 :: "bytes \<Rightarrow> u64" where
  "dec64 bs = of_nat (of_le (take 8 bs))"

definition enc32 :: "u32 \<Rightarrow> bytes" where
  "enc32 w = le_bytes 4 (unat w)"

definition dec32 :: "bytes \<Rightarrow> u32" where
  "dec32 bs = of_nat (of_le (take 4 bs))"

lemma enc_length [simp]: "length (enc64 w) = 8" "length (enc32 v) = 4"
  by (simp_all add: enc64_def enc32_def)

lemma dec_enc [simp]: "dec64 (enc64 w @ bs) = w" "dec32 (enc32 v @ bs) = v" "dec64 (enc64 w) = w"
proof -
  have "unat w < 2 ^ LENGTH(64)" "unat v < 2 ^ LENGTH(32)" by (rule unsigned_less)+
  then have "unat w mod 256 ^ 8 = unat w" "unat v mod 256 ^ 4 = unat v" by simp_all
  then show "dec64 (enc64 w @ bs) = w" "dec32 (enc32 v @ bs) = v" "dec64 (enc64 w) = w"
    by (simp_all add: dec64_def dec32_def enc64_def enc32_def of_le_bytes)
qed

lemma dec_zero: "8 \<le> n \<Longrightarrow> dec64 (replicate n 0) = 0" "4 \<le> n \<Longrightarrow> dec32 (replicate n 0) = 0"
  by (simp_all add: dec64_def dec32_def take_replicate of_le_zero min_def)

text \<open>The structures, field by field; \<open>UpstreamHealth\<close> has four bytes of padding before its \<open>u64\<close>,
  which nobody writes.
\<close>

definition enc_cb :: "UpstreamCB \<Rightarrow> bytes" where
  "enc_cb r = enc64 (cb_state r) @ enc64 (cb_failures r) @ enc64 (cb_last_failure_time r)"

definition dec_cb :: "bytes \<Rightarrow> UpstreamCB" where
  "dec_cb bs = \<lparr>cb_state = dec64 bs, cb_failures = dec64 (drop 8 bs), cb_last_failure_time = dec64 (drop 16 bs)\<rparr>"

definition enc_debt :: "UpstreamDebt \<Rightarrow> bytes" where
  "enc_debt r = enc64 (debt_us r) @ enc64 (debt_last_update_ms r)"

definition dec_debt :: "bytes \<Rightarrow> UpstreamDebt" where
  "dec_debt bs = \<lparr>debt_us = dec64 bs, debt_last_update_ms = dec64 (drop 8 bs)\<rparr>"

definition enc_health :: "UpstreamHealth \<Rightarrow> bytes" where
  "enc_health r = enc32 (word_of_int (uh_healthy r)) @ enc32 (uh_consec_fails r) @ enc32 (uh_consec_oks r)
     @ replicate 4 0 @ enc64 (uh_last_check_ms r)"

definition dec_health :: "bytes \<Rightarrow> UpstreamHealth" where
  "dec_health bs = \<lparr>uh_healthy = sint (dec32 bs), uh_consec_fails = dec32 (drop 4 bs), uh_consec_oks = dec32 (drop 8 bs),
     uh_last_check_ms = dec64 (drop 16 bs)\<rparr>"

definition enc_metrics :: "Metrics \<Rightarrow> bytes" where
  "enc_metrics m = enc64 (requests_total m) @ enc64 (requests_401 m) @ enc64 (requests_429 m) @ enc64 (requests_5xx m)
     @ enc64 (latency_us_sum m) @ enc64 (latency_us_count m) @ concat (map enc64 (latency_buckets m))"

definition dec_metrics :: "bytes \<Rightarrow> Metrics" where
  "dec_metrics bs = \<lparr>requests_total = dec64 bs, requests_401 = dec64 (drop 8 bs), requests_429 = dec64 (drop 16 bs),
     requests_5xx = dec64 (drop 24 bs), latency_us_sum = dec64 (drop 32 bs), latency_us_count = dec64 (drop 40 bs),
     latency_buckets = map (\<lambda>i. dec64 (drop (48 + 8 * i) bs)) [0..<NUM_BUCKETS]\<rparr>"

section \<open>Slots\<close>

text \<open>\<open>&*ptr.add(i)\<close>: the record at \<open>i\<close> times its size. As a table, the mapping has an entry for every
  slot it has room for.
\<close>

definition load_slot :: "nat \<Rightarrow> (bytes \<Rightarrow> 'a) \<Rightarrow> nat \<Rightarrow> bytes \<Rightarrow> 'a" where
  "load_slot sz dec i mem = dec (take sz (drop (i * sz) mem))"

definition store_slot :: "nat \<Rightarrow> ('a \<Rightarrow> bytes) \<Rightarrow> nat \<Rightarrow> 'a \<Rightarrow> bytes \<Rightarrow> bytes" where
  "store_slot sz enc i r mem = take (i * sz) mem @ enc r @ drop (Suc i * sz) mem"

definition update_slot :: "nat \<Rightarrow> ('a \<Rightarrow> bytes) \<Rightarrow> (bytes \<Rightarrow> 'a) \<Rightarrow> bytes \<Rightarrow> nat \<times> ('a \<Rightarrow> 'a) \<Rightarrow> bytes" where
  "update_slot sz enc dec mem op =
     store_slot sz enc (fst op) ((snd op) (load_slot sz dec (fst op) mem)) mem"

definition table_of :: "nat \<Rightarrow> (bytes \<Rightarrow> 'a) \<Rightarrow> nat \<Rightarrow> 'a \<Rightarrow> bytes \<Rightarrow> nat \<Rightarrow> 'a" where
  "table_of sz dec slots dflt mem i = (if i < slots then load_slot sz dec i mem else dflt)"

definition update_table :: "(nat \<Rightarrow> 'a) \<Rightarrow> nat \<times> ('a \<Rightarrow> 'a) \<Rightarrow> nat \<Rightarrow> 'a" where
  "update_table t op = t(fst op := (snd op) (t (fst op)))"

text \<open>
  What the tables need from a layout: fixed size, and decoding undoes encoding for the values that
  occur. From this alone, updating slots in the bytes is updating a table.
\<close>

locale record_layout =
  fixes sz :: nat and enc :: "'a \<Rightarrow> bytes" and dec :: "bytes \<Rightarrow> 'a" and ok :: "'a \<Rightarrow> bool"
  assumes enc_size: "ok r \<Longrightarrow> length (enc r) = sz"
    and dec_enc: "ok r \<Longrightarrow> dec (enc r) = r"
begin

lemma slot_fits: "i < slots \<Longrightarrow> slots * sz \<le> length mem \<Longrightarrow> Suc i * sz \<le> length (mem :: bytes)"
  by (meson Suc_leI le_trans mult_le_mono1)

lemma length_store: "ok r \<Longrightarrow> Suc i * sz \<le> length mem \<Longrightarrow> length (store_slot sz enc i r mem) = length mem"
  by (simp add: store_slot_def enc_size)

lemma load_store:
  assumes "ok r" and "Suc i * sz \<le> length mem"
  shows "load_slot sz dec i (store_slot sz enc i r mem) = r"
  using assms by (simp add: load_slot_def store_slot_def enc_size dec_enc)

lemma load_store_other:
  assumes "ok r" and "Suc i * sz \<le> length mem" and "i \<noteq> j"
  shows "load_slot sz dec j (store_slot sz enc i r mem) = load_slot sz dec j mem"
proof (cases "j < i")
  case True
  then have "Suc j * sz \<le> i * sz" by (intro mult_le_mono1) simp
  then have "take sz (drop (j * sz) (take (i * sz) mem @ rest)) = take sz (drop (j * sz) mem)" for rest
    using assms(2) by (simp add: take_drop min_def) linarith
  then show ?thesis by (simp only: load_slot_def store_slot_def)
next
  case False
  then have "Suc i * sz \<le> j * sz" using assms(3) by (intro mult_le_mono1) simp
  moreover have "i * sz \<le> j * sz" using False by (intro mult_le_mono1) simp
  ultimately show ?thesis using assms(1,2) by (simp add: load_slot_def store_slot_def enc_size)
qed

lemma table_store:
  assumes "ok r" and "i < slots" and "slots * sz \<le> length mem"
  shows "table_of sz dec slots dflt (store_slot sz enc i r mem) = (table_of sz dec slots dflt mem)(i := r)"
  using assms load_store load_store_other slot_fits [OF assms(2,3)] by (auto simp: table_of_def fun_eq_iff)

lemma table_update:
  assumes "ok (f (table_of sz dec slots dflt mem i))" and "i < slots" and "slots * sz \<le> length mem"
  shows "table_of sz dec slots dflt (update_slot sz enc dec mem (i, f))
    = (table_of sz dec slots dflt mem)(i := f (table_of sz dec slots dflt mem i))"
  using table_store [OF _ assms(2,3)] assms(1,2) by (simp add: update_slot_def table_of_def)

text \<open>A run of updates on the bytes is the run of updates on the table.\<close>

lemma updates_refine:
  assumes "\<And>i f r. (i, f) \<in> set ops \<Longrightarrow> i < slots \<and> (ok r \<longrightarrow> ok (f r))"
    and "slots * sz \<le> length mem" and "\<And>i. i < slots \<Longrightarrow> ok (load_slot sz dec i mem)"
  shows "table_of sz dec slots dflt (run (update_slot sz enc dec) mem ops)
     = run update_table (table_of sz dec slots dflt mem) ops"
  using assms
proof (induction ops arbitrary: mem)
  case (Cons op ops)
  obtain i f where op: "op = (i, f)" by (cases op)
  let ?r = "f (load_slot sz dec i mem)"
  have i: "i < slots" "ok ?r" using Cons.prems(1) [of i f] Cons.prems(3) by (auto simp: op)
  have s: "update_slot sz enc dec mem op = store_slot sz enc i ?r mem" by (simp add: op update_slot_def)
  note fit = slot_fits [OF i(1) Cons.prems(2)]
  have "table_of sz dec slots dflt (run (update_slot sz enc dec) (store_slot sz enc i ?r mem) ops)
      = run update_table (table_of sz dec slots dflt (store_slot sz enc i ?r mem)) ops"
  proof (rule Cons.IH)
    show "slots * sz \<le> length (store_slot sz enc i ?r mem)" using length_store [OF i(2) fit] Cons.prems(2) by simp
    show "ok (load_slot sz dec j (store_slot sz enc i ?r mem))" if "j < slots" for j
      using load_store [OF i(2) fit] load_store_other [OF i(2) fit, of j] i(2) Cons.prems(3) [OF that] by (cases "i = j") auto
  qed (use Cons.prems(1) in auto)
  moreover have "table_of sz dec slots dflt (store_slot sz enc i ?r mem) = update_table (table_of sz dec slots dflt mem) op"
    using table_store [OF i(2,1) Cons.prems(2)] i(1) by (simp add: op update_table_def table_of_def)
  ultimately show ?case by (simp add: s)
qed simp

end

section \<open>The six files\<close>

definition CB_SIZE :: nat where "CB_SIZE = 24"
definition DEBT_SIZE :: nat where "DEBT_SIZE = 16"
definition HEALTH_SIZE :: nat where "HEALTH_SIZE = 24"
definition METRICS_SIZE :: nat where "METRICS_SIZE = 104"
definition WORD_SIZE :: nat where "WORD_SIZE = 8"

lemmas layout_sizes = CB_SIZE_def DEBT_SIZE_def HEALTH_SIZE_def METRICS_SIZE_def WORD_SIZE_def

definition WAF_SHM_SIZE :: nat where "WAF_SHM_SIZE = (IP_RATE_LIMIT_SLOTS + 1) * 8"
definition RL_SHM_SIZE :: nat where "RL_SHM_SIZE = SHM_SLOTS * 8"

text \<open>\<open>temp_dir().join(name)\<close>, where \<open>tmp\<close> is the directory without a final slash.\<close>

definition shm_path :: "string \<Rightarrow> string \<Rightarrow> string" where
  "shm_path tmp name = tmp @ ''/'' @ name"

definition cb_shm_init :: "string \<Rightarrow> os_answers \<Rightarrow> disk \<Rightarrow> shm_panic option \<times> disk" where
  "cb_shm_init tmp = init_map (shm_path tmp ''gateway_circuit_breaker.shm'') (unat CB_SHM_SLOTS * CB_SIZE)"

definition debt_shm_init :: "string \<Rightarrow> os_answers \<Rightarrow> disk \<Rightarrow> shm_panic option \<times> disk" where
  "debt_shm_init tmp = init_map (shm_path tmp ''gateway_latency_debt.shm'') (DEBT_SLOTS * DEBT_SIZE)"

definition health_shm_init :: "string \<Rightarrow> os_answers \<Rightarrow> disk \<Rightarrow> shm_panic option \<times> disk" where
  "health_shm_init tmp = init_map (shm_path tmp ''gateway_active_health.shm'') (HEALTH_SLOTS * HEALTH_SIZE)"

definition metrics_shm_init :: "string \<Rightarrow> os_answers \<Rightarrow> disk \<Rightarrow> shm_panic option \<times> disk" where
  "metrics_shm_init tmp = init_map (shm_path tmp ''gateway_telemetry.shm'') METRICS_SIZE"

definition waf_shm_init :: "string \<Rightarrow> os_answers \<Rightarrow> disk \<Rightarrow> shm_panic option \<times> disk" where
  "waf_shm_init tmp = init_map (shm_path tmp ''gateway_waf.shm'') WAF_SHM_SIZE"

definition rl_shm_init :: "string \<Rightarrow> os_answers \<Rightarrow> disk \<Rightarrow> shm_panic option \<times> disk" where
  "rl_shm_init tmp = init_map (shm_path tmp ''gateway_rate_limit.shm'') RL_SHM_SIZE"

lemmas shm_inits = cb_shm_init_def debt_shm_init_def health_shm_init_def metrics_shm_init_def waf_shm_init_def rl_shm_init_def

text \<open>The mappings as the tables of the other theories.\<close>

definition cb_table :: "bytes \<Rightarrow> cb_shm" where
  "cb_table = table_of CB_SIZE dec_cb (unat CB_SHM_SLOTS) fresh_cb"

definition debt_table :: "bytes \<Rightarrow> debt_shm" where
  "debt_table = table_of DEBT_SIZE dec_debt DEBT_SLOTS \<lparr>debt_us = 0, debt_last_update_ms = 0\<rparr>"

definition health_table :: "bytes \<Rightarrow> health_shm" where
  "health_table = table_of HEALTH_SIZE dec_health HEALTH_SLOTS fresh_health"

definition waf_table :: "bytes \<Rightarrow> waf_shm" where
  "waf_table = table_of WORD_SIZE dec64 (IP_RATE_LIMIT_SLOTS + 1) 0"

definition rl_words :: "bytes \<Rightarrow> nat \<Rightarrow> u64" where
  "rl_words = table_of WORD_SIZE dec64 SHM_SLOTS 0"

lemmas shm_tables = cb_table_def debt_table_def health_table_def waf_table_def rl_words_def

text \<open>The layouts of the code.\<close>

lemma length_concat_enc: "length (concat (map enc64 ws)) = 8 * length ws"
  by (induction ws) simp_all

lemma dec_concat_enc: "i < length ws \<Longrightarrow> dec64 (drop (8 * i) (concat (map enc64 ws))) = ws ! i"
  by (induction ws arbitrary: i) (auto simp: nth_Cons' dest: gr0_implies_Suc split: nat.splits)

interpretation cbl: record_layout CB_SIZE enc_cb dec_cb "\<lambda>_. True"
  by unfold_locales (simp_all add: CB_SIZE_def enc_cb_def dec_cb_def)

interpretation debtl: record_layout DEBT_SIZE enc_debt dec_debt "\<lambda>_. True"
  by unfold_locales (simp_all add: DEBT_SIZE_def enc_debt_def dec_debt_def)

interpretation wordl: record_layout WORD_SIZE enc64 dec64 "\<lambda>_. True"
  by unfold_locales (simp_all add: WORD_SIZE_def)

definition health_ok :: "UpstreamHealth \<Rightarrow> bool" where
  "health_ok r \<longleftrightarrow> - (2 ^ 31) \<le> uh_healthy r \<and> uh_healthy r < 2 ^ 31"

interpretation healthl: record_layout HEALTH_SIZE enc_health dec_health health_ok
proof
  fix r assume "health_ok r"
  then have "sint (word_of_int (uh_healthy r) :: u32) = uh_healthy r"
    by (simp add: health_ok_def signed_of_int signed_take_bit_int_eq_self)
  then show "dec_health (enc_health r) = r" by (simp add: enc_health_def dec_health_def)
qed (simp add: enc_health_def HEALTH_SIZE_def)

definition metrics_ok :: "Metrics \<Rightarrow> bool" where
  "metrics_ok m \<longleftrightarrow> length (latency_buckets m) = NUM_BUCKETS"

interpretation metricsl: record_layout METRICS_SIZE enc_metrics dec_metrics metrics_ok
proof
  fix m assume ok: "metrics_ok m"
  have h: "drop (48 + n) (enc_metrics m) = drop n (concat (map enc64 (latency_buckets m)))" for n
    by (simp add: enc_metrics_def)
  have "map (\<lambda>i. dec64 (drop (48 + 8 * i) (enc_metrics m))) [0..<NUM_BUCKETS] = latency_buckets m"
    using ok by (intro nth_equalityI) (simp_all add: h dec_concat_enc metrics_ok_def del: NUM_BUCKETS_def)
  then show "dec_metrics (enc_metrics m) = m" unfolding dec_metrics_def by (simp add: enc_metrics_def)
qed (simp add: enc_metrics_def length_concat_enc metrics_ok_def METRICS_SIZE_def)

section \<open>What a mapping holds\<close>

lemma set_len_length [simp]: "length (set_len n bs) = n"
  by (simp add: set_len_def)

lemma word_sizes: "WAF_SHM_SIZE = (IP_RATE_LIMIT_SLOTS + 1) * WORD_SIZE" "RL_SHM_SIZE = SHM_SLOTS * WORD_SIZE"
  by (simp_all only: WAF_SHM_SIZE_def RL_SHM_SIZE_def WORD_SIZE_def)

lemma set_len_same: "length bs = n \<Longrightarrow> set_len n bs = bs"
  by (simp add: set_len_def)

lemma set_len_new: "set_len n [] = replicate n 0"
  by (simp add: set_len_def)

lemma init_map_ok:
  assumes "init_map path n os d = (None, d')"
  shows "d' = d(path := Some (set_len n (unwrap_or (d path) [])))"
  using assms by (auto simp: init_map_def Let_def unwrap_or_def fun_eq_iff split: if_splits option.splits)

lemma table_zero:
  assumes "dec (replicate sz 0) = dflt"
  shows "table_of sz dec slots dflt (replicate (slots * sz) 0) = (\<lambda>_. dflt)"
proof
  fix i
  show "table_of sz dec slots dflt (replicate (slots * sz) 0) i = dflt"
  proof (cases "i < slots")
    case True
    then have "Suc i * sz \<le> slots * sz" by (intro mult_le_mono1) simp
    then have "take sz (drop (i * sz) (replicate (slots * sz) 0)) = (replicate sz 0 :: bytes)" by (simp add: min_def)
    then show ?thesis using assms by (simp only: table_of_def load_slot_def if_True True)
  qed (simp add: table_of_def)
qed

lemma dec_fresh:
  "dec_cb (replicate CB_SIZE 0) = fresh_cb"
  "dec_debt (replicate DEBT_SIZE 0) = \<lparr>debt_us = 0, debt_last_update_ms = 0\<rparr>"
  "dec_health (replicate HEALTH_SIZE 0) = fresh_health"
  "dec_metrics (replicate METRICS_SIZE 0) = metrics_zero"
  "dec64 (replicate WORD_SIZE 0) = 0"
proof -
  have "map (\<lambda>i. dec64 (drop (48 + 8 * i) (replicate 104 0))) [0..<NUM_BUCKETS] = replicate NUM_BUCKETS 0"
    by (rule nth_equalityI) (simp_all add: dec_zero del: NUM_BUCKETS_def, simp add: dec_zero)
  then show "dec_metrics (replicate METRICS_SIZE 0) = metrics_zero"
    by (simp add: dec_metrics_def metrics_zero_def METRICS_SIZE_def dec_zero del: NUM_BUCKETS_def)
qed (simp_all add: dec_cb_def dec_debt_def dec_health_def layout_sizes fresh_cb_def fresh_health_def dec_zero)

text \<open>The first worker on a host finds the zeroed tables the other theories start from.\<close>

lemma first_start:
  assumes "init_map path n os d = (None, d')" and "d path = None"
  shows "d' path = Some (replicate n 0)"
    and "cb_table (replicate (unat CB_SHM_SLOTS * CB_SIZE) 0) = cb_init_shm"
    and "debt_table (replicate (DEBT_SLOTS * DEBT_SIZE) 0) = (\<lambda>_. \<lparr>debt_us = 0, debt_last_update_ms = 0\<rparr>)"
    and "health_table (replicate (HEALTH_SLOTS * HEALTH_SIZE) 0) = (\<lambda>_. fresh_health)"
    and "waf_table (replicate WAF_SHM_SIZE 0) = (\<lambda>_. 0)"
    and "rl_words (replicate RL_SHM_SIZE 0) = (\<lambda>_. 0)"
    and "dec_metrics (replicate METRICS_SIZE 0) = metrics_zero"
proof -
  show "d' path = Some (replicate n 0)" using init_map_ok [OF assms(1)] assms(2) by (simp add: unwrap_or_def set_len_new)
  show "cb_table (replicate (unat CB_SHM_SLOTS * CB_SIZE) 0) = cb_init_shm"
    unfolding cb_table_def cb_init_shm_def by (rule table_zero) (rule dec_fresh(1))
  show "debt_table (replicate (DEBT_SLOTS * DEBT_SIZE) 0) = (\<lambda>_. \<lparr>debt_us = 0, debt_last_update_ms = 0\<rparr>)"
    unfolding debt_table_def by (rule table_zero) (rule dec_fresh(2))
  show "health_table (replicate (HEALTH_SLOTS * HEALTH_SIZE) 0) = (\<lambda>_. fresh_health)"
    unfolding health_table_def by (rule table_zero) (rule dec_fresh(3))
  show "waf_table (replicate WAF_SHM_SIZE 0) = (\<lambda>_. 0)" "rl_words (replicate RL_SHM_SIZE 0) = (\<lambda>_. 0)"
    unfolding waf_table_def rl_words_def word_sizes by (rule table_zero, rule dec_fresh(5))+
  show "dec_metrics (replicate METRICS_SIZE 0) = metrics_zero" by (rule dec_fresh(4))
qed

section \<open>Accesses\<close>

lemma mod_slots_less: "0 < n \<Longrightarrow> n < 2 ^ 64 \<Longrightarrow> unat ((h :: u64) mod of_nat n) < n"
  by (simp add: unat_mod unat_of_nat_small)

lemma slot_indices:
  "cb_index fx name < unat CB_SHM_SLOTS" "debt_index fx name < DEBT_SLOTS" "health_index fx name < HEALTH_SLOTS"
  "ip_slot gx ip < IP_RATE_LIMIT_SLOTS + 1" "bucket_slot fx user < SHM_SLOTS"
  using mod_slots_less [of 4096 "fx name"] mod_slots_less [of 1000000 "gx ip"] mod_slots_less [of 1000000 "fx user"] cb_index_less [of fx name]
  by (simp_all add: debt_index_def health_index_def ip_slot_def bucket_slot_def)

text \<open>The bytes of a record at an offset of a file lie inside the file.\<close>

definition inside :: "disk \<Rightarrow> string \<Rightarrow> nat \<Rightarrow> bytes \<Rightarrow> bool" where
  "inside d path off record_bytes \<longleftrightarrow> (case d path of Some mem \<Rightarrow> off + length record_bytes \<le> length mem | None \<Rightarrow> False)"

lemma init_inside:
  assumes "init_map path n os d = (None, d')" and "off + length record_bytes \<le> n"
  shows "inside d' path off record_bytes"
  using init_map_ok [OF assms(1)] assms(2) by (simp add: inside_def)

lemma slot_inside:
  assumes "init_map path (slots * sz) os d = (None, d')" and "i < slots" and "length record_bytes = sz"
  shows "inside d' path (i * sz) record_bytes"
proof -
  have "Suc i * sz \<le> slots * sz" using assms(2) by (intro mult_le_mono1) simp
  then show ?thesis using assms(3) by (intro init_inside [OF assms(1)]) simp
qed

lemma record_lengths:
  "length (enc_cb cb) = CB_SIZE" "length (enc_debt debt) = DEBT_SIZE" "length (enc_health health) = HEALTH_SIZE"
  "metrics_ok m \<Longrightarrow> length (enc_metrics m) = METRICS_SIZE" "length (enc64 w) = WORD_SIZE"
  by (simp_all add: enc_cb_def enc_debt_def enc_health_def enc_metrics_def length_concat_enc metrics_ok_def layout_sizes)

text \<open>(C40)
  No access leaves its mapping. Whenever the set-up of one of the six modules returns, from whatever
  was on the disk before, its file is long enough for every record that its accessor reads or
  writes, for every key and every hash function: the encoded record, at the offset which the
  accessor computes from its index and the size of the structure, ends inside the file (the metrics
  record being one with the seven buckets of its array). A set-up that does not return is a panic,
  after which there is no access.
\<close>
theorem accesses_inside_mapping:
  "(cb_shm_init tmp os d = (None, d') \<longrightarrow>
      inside d' (shm_path tmp ''gateway_circuit_breaker.shm'') (cb_index fx name * CB_SIZE) (enc_cb cb))
   \<and> (debt_shm_init tmp os d = (None, d') \<longrightarrow>
      inside d' (shm_path tmp ''gateway_latency_debt.shm'') (debt_index fx name * DEBT_SIZE) (enc_debt debt))
   \<and> (health_shm_init tmp os d = (None, d') \<longrightarrow>
      inside d' (shm_path tmp ''gateway_active_health.shm'') (health_index fx name * HEALTH_SIZE) (enc_health health))
   \<and> (metrics_shm_init tmp os d = (None, d') \<and> length (latency_buckets m) = NUM_BUCKETS \<longrightarrow>
      inside d' (shm_path tmp ''gateway_telemetry.shm'') 0 (enc_metrics m))
   \<and> (waf_shm_init tmp os d = (None, d') \<longrightarrow>
      inside d' (shm_path tmp ''gateway_waf.shm'') 0 (enc64 w)
    \<and> inside d' (shm_path tmp ''gateway_waf.shm'') (ip_slot gx ip * WORD_SIZE) (enc64 w))
   \<and> (rl_shm_init tmp os d = (None, d') \<longrightarrow>
      inside d' (shm_path tmp ''gateway_rate_limit.shm'') (bucket_slot fx user * WORD_SIZE) (enc64 w))"
proof (intro conjI impI)
  assume i: "waf_shm_init tmp os d = (None, d')"
  have z: "0 < IP_RATE_LIMIT_SLOTS + 1" by simp
  show "inside d' (shm_path tmp ''gateway_waf.shm'') 0 (enc64 w)"
    using slot_inside [OF i [unfolded waf_shm_init_def word_sizes] z record_lengths(5)] by (simp only: mult_0)
  show "inside d' (shm_path tmp ''gateway_waf.shm'') (ip_slot gx ip * WORD_SIZE) (enc64 w)"
    by (rule slot_inside [OF i [unfolded waf_shm_init_def word_sizes] slot_indices(4) record_lengths(5)])
next
  assume "cb_shm_init tmp os d = (None, d')"
  then show "inside d' (shm_path tmp ''gateway_circuit_breaker.shm'') (cb_index fx name * CB_SIZE) (enc_cb cb)"
    unfolding cb_shm_init_def by (rule slot_inside) (rule slot_indices, rule record_lengths)
next
  assume "debt_shm_init tmp os d = (None, d')"
  then show "inside d' (shm_path tmp ''gateway_latency_debt.shm'') (debt_index fx name * DEBT_SIZE) (enc_debt debt)"
    unfolding debt_shm_init_def by (rule slot_inside) (rule slot_indices, rule record_lengths)
next
  assume "health_shm_init tmp os d = (None, d')"
  then show "inside d' (shm_path tmp ''gateway_active_health.shm'') (health_index fx name * HEALTH_SIZE) (enc_health health)"
    unfolding health_shm_init_def by (rule slot_inside) (rule slot_indices, rule record_lengths)
next
  assume a: "metrics_shm_init tmp os d = (None, d') \<and> length (latency_buckets m) = NUM_BUCKETS"
  then have "length (enc_metrics m) = METRICS_SIZE" by (intro record_lengths(4)) (simp add: metrics_ok_def)
  then show "inside d' (shm_path tmp ''gateway_telemetry.shm'') 0 (enc_metrics m)"
    by (intro init_inside [OF conjunct1 [OF a, unfolded metrics_shm_init_def]]) simp
next
  assume "rl_shm_init tmp os d = (None, d')"
  then show "inside d' (shm_path tmp ''gateway_rate_limit.shm'') (bucket_slot fx user * WORD_SIZE) (enc64 w)"
    unfolding rl_shm_init_def word_sizes by (rule slot_inside) (rule slot_indices, rule record_lengths)
qed

text \<open>The debt file and the metrics file on an empty disk.\<close>

theorem accesses_inside_mapping_witness:
  "inside (snd (debt_shm_init ''/tmp'' \<lparr>os_opened = True, os_sized = True, os_mapped = True\<rparr> Map.empty))
     (shm_path ''/tmp'' ''gateway_latency_debt.shm'') (debt_index (\<lambda>_. 4095) ''a:1'' * DEBT_SIZE)
     (enc_debt \<lparr>debt_us = 1, debt_last_update_ms = 2\<rparr>)
   \<and> inside (snd (metrics_shm_init ''/tmp'' \<lparr>os_opened = True, os_sized = True, os_mapped = True\<rparr> Map.empty))
     (shm_path ''/tmp'' ''gateway_telemetry.shm'') 0 (enc_metrics metrics_zero)"
proof -
  let ?os = "\<lparr>os_opened = True, os_sized = True, os_mapped = True\<rparr>"
  have d: "debt_shm_init ''/tmp'' ?os Map.empty = (None, snd (debt_shm_init ''/tmp'' ?os Map.empty))"
    and m: "metrics_shm_init ''/tmp'' ?os Map.empty = (None, snd (metrics_shm_init ''/tmp'' ?os Map.empty))"
    by (simp_all add: debt_shm_init_def metrics_shm_init_def init_map_def Let_def)
  have "length (latency_buckets metrics_zero) = NUM_BUCKETS" by (simp add: metrics_zero_def)
  with m have m': "metrics_shm_init ''/tmp'' ?os Map.empty = (None, snd (metrics_shm_init ''/tmp'' ?os Map.empty))
      \<and> length (latency_buckets metrics_zero) = NUM_BUCKETS" by (rule conjI)
  show ?thesis
    by (intro conjI accesses_inside_mapping [THEN conjunct2, THEN conjunct1, rule_format, OF d]
        accesses_inside_mapping [THEN conjunct2, THEN conjunct2, THEN conjunct2, THEN conjunct1, rule_format, OF m'])
qed

text \<open>The operations of the breaker module, on the bytes.\<close>

definition cb_bytes_step :: "(string \<Rightarrow> u64) \<Rightarrow> bytes \<Rightarrow> string \<times> cb_event \<Rightarrow> bytes" where
  "cb_bytes_step fx mem op =
     update_slot CB_SIZE enc_cb dec_cb mem (cb_index fx (fst op), \<lambda>cb. cb_step cb (snd op))"

definition cb_table_step :: "(string \<Rightarrow> u64) \<Rightarrow> cb_shm \<Rightarrow> string \<times> cb_event \<Rightarrow> cb_shm" where
  "cb_table_step fx shm op = set_cb fx (fst op) (cb_step (get_cb fx shm (fst op)) (snd op)) shm"

lemma run_map: "run f s (map g xs) = run (\<lambda>s x. f s (g x)) s xs"
  by (induction xs arbitrary: s) simp_all

text \<open>(C12)
  The breaker table is what its bytes say. Reading and writing records at the addresses the code
  computes, for any sequence of operations of any workers on any upstreams, gives the bytes of the
  table that the theories of the breaker and of the pipeline work on, starting from a file of any
  contents; no operation disturbs the record of another slot.
\<close>
theorem breaker_bytes_refine_table:
  assumes "length mem = unat CB_SHM_SLOTS * CB_SIZE"
  shows "cb_table (run (cb_bytes_step fx) mem ops) = run (cb_table_step fx) (cb_table mem) ops"
proof -
  let ?op = "\<lambda>op. (cb_index fx (fst op), \<lambda>cb. cb_step cb (snd op))"
  have "cb_table (run (update_slot CB_SIZE enc_cb dec_cb) mem (map ?op ops)) = run update_table (cb_table mem) (map ?op ops)"
    unfolding cb_table_def using assms slot_indices(1) by (intro cbl.updates_refine) auto
  moreover have "(\<lambda>mem op. update_slot CB_SIZE enc_cb dec_cb mem (?op op)) = cb_bytes_step fx"
    by (simp add: cb_bytes_step_def fun_eq_iff)
  moreover have "(\<lambda>t op. update_table t (?op op)) = cb_table_step fx"
    by (simp add: cb_table_step_def update_table_def set_cb_def get_cb_def fun_eq_iff)
  ultimately show ?thesis unfolding run_map by simp
qed

theorem breaker_bytes_refine_table_witness:
  "cb_table (run (cb_bytes_step (\<lambda>s. of_nat (length s))) (replicate (unat CB_SHM_SLOTS * CB_SIZE) 0)
      [(''a:1'', EvFailure 100), (''b'', EvSuccess), (''a:1'', EvFailure 101)]) 3
     = \<lparr>cb_state = STATE_CLOSED, cb_failures = 2, cb_last_failure_time = 0\<rparr>"
proof -
  let ?fx = "\<lambda>s. of_nat (length s) :: u64"
  have "cb_table (replicate (unat CB_SHM_SLOTS * CB_SIZE) 0) = cb_init_shm"
    unfolding cb_table_def cb_init_shm_def by (rule table_zero) (rule dec_fresh(1))
  then have r: "cb_table (run (cb_bytes_step ?fx) (replicate (unat CB_SHM_SLOTS * CB_SIZE) 0)
        [(''a:1'', EvFailure 100), (''b'', EvSuccess), (''a:1'', EvFailure 101)])
      = run (cb_table_step ?fx) cb_init_shm [(''a:1'', EvFailure 100), (''b'', EvSuccess), (''a:1'', EvFailure 101)]"
    by (simp only: breaker_bytes_refine_table [OF length_replicate])
  show ?thesis
    unfolding r by (simp add: cb_table_step_def set_cb_def get_cb_def cb_index_def cb_cases cb_init_shm_def fresh_cb_def word_le_nat_alt)
qed

text \<open>The same for an operation on each of the other files: the debt of an upstream, a touched health
  slot, the firewall's counter, a window word, and the counters of a request.
\<close>

lemma debt_bytes_refine:
  assumes "length mem = DEBT_SLOTS * DEBT_SIZE"
  shows "debt_table (update_slot DEBT_SIZE enc_debt dec_debt mem
      (debt_index fx upstream, observe_debt powf now actual_us budget_us))
    = record_observation powf fx now upstream actual_us budget_us (debt_table mem)"
  unfolding debt_table_def record_observation_def
  using debtl.table_update [where i = "debt_index fx upstream" and slots = DEBT_SLOTS] slot_indices(2) assms
  by (simp add: Let_def)

lemma health_bytes_refine:
  assumes "length mem = HEALTH_SLOTS * HEALTH_SIZE" and "health_ok (health_table mem (health_index fx address))"
  shows "health_table (update_slot HEALTH_SIZE enc_health dec_health mem (health_index fx address, seed))
    = snd (slot_touch fx address (health_table mem))"
proof -
  have "health_ok (seed r)" if "health_ok r" for r using that by (auto simp: health_ok_def seed_def)
  then show ?thesis
    using healthl.table_update [OF _ slot_indices(3), where mem = mem and f = seed and dflt = fresh_health] assms
    by (simp add: health_table_def slot_touch_def Let_def)
qed

lemma waf_bytes_refine:
  assumes "length mem = WAF_SHM_SIZE"
  shows "waf_table (update_slot WORD_SIZE enc64 dec64 mem (0, \<lambda>n. n + 1)) = increment_waf_blocks (waf_table mem)"
proof -
  have "(IP_RATE_LIMIT_SLOTS + 1) * WORD_SIZE \<le> length mem"
    using assms by (simp only: word_sizes order_refl)
  then show ?thesis
    unfolding waf_table_def increment_waf_blocks_def by (intro wordl.table_update) simp_all
qed

lemma rl_bytes_refine:
  assumes "length mem = RL_SHM_SIZE"
  shows "rl_words (update_slot WORD_SIZE enc64 dec64 mem (bucket_slot fx user, \<lambda>_. w))
    = (rl_words mem)(bucket_slot fx user := w)"
  unfolding rl_words_def
  using assms by (intro wordl.table_update slot_indices(5)) (simp_all only: RL_SHM_SIZE_def WORD_SIZE_def order_refl)

lemma metrics_bytes_refine:
  assumes "length mem = METRICS_SIZE" and "metrics_ok (dec_metrics mem)"
  shows "dec_metrics (update_slot METRICS_SIZE enc_metrics dec_metrics mem (0, record_request status latency_us))
    = record_request status latency_us (dec_metrics mem)"
proof -
  have "metrics_ok (record_request status latency_us m)" if "metrics_ok m" for m
    using that by (auto simp: metrics_ok_def record_request_def count_status_def count_buckets_def HIST_BUCKETS_US_def Let_def)
  then show ?thesis
    using metricsl.dec_enc [of "record_request status latency_us (dec_metrics mem)"] assms
    by (simp add: update_slot_def store_slot_def load_slot_def)
qed

section \<open>Restarts\<close>

text \<open>A later set-up, by another worker or after a restart, finds what is there.\<close>

lemma init_map_again:
  assumes "d path = Some mem" and "length mem = n" and "init_map path n os d = (r, d')"
  shows "d' path = Some mem"
  using assms by (auto simp: init_map_def Let_def set_len_same split: if_splits option.splits)

text \<open>(C23)
  Restarting does not help. The files are opened without truncation, so a gateway that is started
  again on the same host continues with the breakers it left: if the global breaker was open,
  every request to the new process is answered 503 from the start.
\<close>
theorem open_breaker_survives_restart:
  assumes "d (shm_path tmp ''gateway_circuit_breaker.shm'') = Some mem" and "length mem = unat CB_SHM_SLOTS * CB_SIZE"
    and "global_state (tp_fx tp) (cb_table mem) = STATE_OPEN"
    and "cb_shm_init tmp os d = (None, d')" and "d' (shm_path tmp ''gateway_circuit_breaker.shm'') = Some mem'"
    and "lb_cb (gs_lb s) = cb_table mem'"
  shows "process_request tp env rq args s outs = (503, s, outs)"
proof -
  have "mem' = mem" using init_map_again [where path = "shm_path tmp ''gateway_circuit_breaker.shm''", OF assms(1,2) assms(4) [unfolded cb_shm_init_def]] assms(5) by simp
  then show ?thesis using assms(3,6) by (intro open_refuses) simp
qed

text \<open>A host whose breaker file records an open global breaker.\<close>

definition demo_open_cb :: UpstreamCB where
  "demo_open_cb = \<lparr>cb_state = STATE_OPEN, cb_failures = FAILURE_THRESHOLD, cb_last_failure_time = 100\<rparr>"

definition demo_shm :: bytes where
  "demo_shm = store_slot CB_SIZE enc_cb (cb_index (tp_fx demo_tp) GLOBAL_NAME) demo_open_cb
     (replicate (unat CB_SHM_SLOTS * CB_SIZE) 0)"

lemma demo_shm_table: "cb_table demo_shm (cb_index (tp_fx demo_tp) GLOBAL_NAME) = demo_open_cb"
  unfolding demo_shm_def cb_table_def
  by (subst cbl.table_store) (simp_all only: slot_indices(1) length_replicate fun_upd_same order_refl)

lemma demo_shm_length: "length demo_shm = unat CB_SHM_SLOTS * CB_SIZE"
proof -
  have "Suc (cb_index (tp_fx demo_tp) GLOBAL_NAME) * CB_SIZE \<le> length (replicate (unat CB_SHM_SLOTS * CB_SIZE) (0 :: u8))"
    by (rule cbl.slot_fits [OF slot_indices(1)]) (simp only: length_replicate order_refl)
  then show ?thesis by (simp only: demo_shm_def cbl.length_store length_replicate)
qed

theorem open_breaker_survives_restart_witness:
  "fst (process_request demo_tp Map.empty (demo_request_reads None) (demo_args [])
     (demo_state\<lparr>gs_lb := (gs_lb demo_state)\<lparr>lb_cb := cb_table demo_shm\<rparr>\<rparr>) demo_outs) = 503"
proof -
  let ?p = "shm_path ''/tmp'' ''gateway_circuit_breaker.shm''"
  let ?os = "\<lparr>os_opened = True, os_sized = True, os_mapped = True\<rparr>"
  let ?s = "demo_state\<lparr>gs_lb := (gs_lb demo_state)\<lparr>lb_cb := cb_table demo_shm\<rparr>\<rparr>"
  have i: "cb_shm_init ''/tmp'' ?os [?p \<mapsto> demo_shm] = (None, [?p \<mapsto> demo_shm])"
    using set_len_same [OF demo_shm_length] by (simp only: cb_shm_init_def init_map_def) simp
  have "process_request demo_tp Map.empty (demo_request_reads None) (demo_args []) ?s demo_outs = (503, ?s, demo_outs)"
    by (rule open_breaker_survives_restart [OF _ demo_shm_length _ i])
      (simp_all add: global_state_def state_value_def get_cb_def demo_shm_table demo_open_cb_def)
  then show ?thesis by simp
qed

text \<open>The firewall's total is not one of the process: it continues from the last run.\<close>

lemma waf_total_survives_restart:
  assumes "d (shm_path tmp ''gateway_waf.shm'') = Some mem" and "length mem = WAF_SHM_SIZE"
    and "waf_shm_init tmp os d = (r, d')"
  shows "\<exists>mem'. d' (shm_path tmp ''gateway_waf.shm'') = Some mem'
    \<and> waf_blocks_total (waf_table mem') = waf_blocks_total (waf_table mem)"
  using init_map_again [where path = "shm_path tmp ''gateway_waf.shm''", OF assms(1,2) assms(3) [unfolded waf_shm_init_def]] by auto

end
