(* ===== verification/Lifecycle.thy ===== *)
theory Lifecycle
  imports Gateway Sentinel
begin

text \<open>
  Around the operations of the components: the clocks the sources read (every \<open>now_secs\<close>, \<open>now_ms\<close>,
  \<open>now_ns\<close> of \<open>rust-ext/src\<close>), the start of a worker with its background threads (\<open>init_extension\<close> of
  \<open>lib.rs\<close> and the \<open>start\<close> functions it calls), and the receive loop of the thread that synchronises
  rate limits (\<open>rate_limit.rs\<close>).
\<close>

section \<open>Clocks\<close>

text \<open>
  \<open>SystemTime::now()\<close> as nanoseconds after the epoch, negative before it: then \<open>duration_since\<close> fails
  and the default, zero, is taken. The narrowing casts wrap.
\<close>

definition since_epoch :: "int \<Rightarrow> nat" where
  "since_epoch t = nat t"

definition clock_secs :: "int \<Rightarrow> u64" where
  "clock_secs t = of_nat (since_epoch t div 1000000000)"

definition clock_ms :: "int \<Rightarrow> u64" where
  "clock_ms t = of_nat (since_epoch t div 1000000)"

definition clock_ns :: "int \<Rightarrow> u128" where
  "clock_ns t = of_nat (since_epoch t)"

definition clock_secs_u32 :: "int \<Rightarrow> u32" where
  "clock_secs_u32 t = ucast (clock_secs t)"

lemma clock_secs_exact: "t < 2 ^ 93 \<Longrightarrow> unat (clock_secs t) = nat t div 1000000000"
  unfolding clock_secs_def since_epoch_def by (rule unat_of_nat_small) (simp add: div_less_iff_less_mult nat_less_iff)

lemma clock_secs_mono:
  assumes "t \<le> t'" and "t' < 2 ^ 93"
  shows "clock_secs t \<le> clock_secs t'"
  using assms clock_secs_exact [of t] clock_secs_exact [of t'] by (simp add: word_le_nat_alt div_le_mono nat_mono)

text \<open>
  The windows of the limiters count seconds in 32 bits: the count starts again at zero every
  \<open>2 ^ 32\<close> seconds, the first time in February 2106.
\<close>

lemma u32_clock_wraps: "clock_secs_u32 (t + 2 ^ 32 * 1000000000) = clock_secs_u32 t" if "0 \<le> t"
proof -
  have u: "(ucast (of_nat m :: u64) :: u32) = of_nat m" for m by transfer simp
  have "nat (t + 2 ^ 32 * 1000000000) = nat t + 2 ^ 32 * 1000000000" using that by (simp add: nat_add_distrib)
  then have "since_epoch (t + 2 ^ 32 * 1000000000) div 1000000000 = since_epoch t div 1000000000 + 2 ^ 32"
    unfolding since_epoch_def by simp
  moreover have "(of_nat (n + 2 ^ 32) :: u32) = of_nat n" for n by (simp add: word_of_nat_eq_iff take_bit_eq_mod)
  ultimately show ?thesis by (simp only: clock_secs_u32_def clock_secs_def u)
qed

section \<open>The receive loop\<close>

text \<open>
  \<open>recv_timeout\<close>: a message with what its processing meets (clocks, duration, exchange), nothing for
  200 ms, or a channel whose sender is gone, which ends the thread.
\<close>

datatype 'm received = Received 'm | TimedOut | Disconnected

fun sync_loop :: "('m \<Rightarrow> 's \<Rightarrow> 's) \<Rightarrow> 'm received list \<Rightarrow> 's \<times> bool \<Rightarrow> 's \<times> bool" where
  "sync_loop f [] s = s"
| "sync_loop f (Received m # rs) (s, alive) = sync_loop f rs (f m s, alive)"
| "sync_loop f (TimedOut # rs) s = sync_loop f rs s"
| "sync_loop f (Disconnected # rs) (s, alive) = (s, False)"

record sync_reads =
  sr_ms :: "nat \<Rightarrow> u64"
  sr_ms' :: "nat \<Rightarrow> u64"
  sr_sec :: "nat \<Rightarrow> u32"
  sr_lat :: u64
  sr_event :: "u64 cas_event"

definition rl_sync_loop ::
    "(string \<Rightarrow> u64) \<Rightarrow> 'w redis_api \<Rightarrow> u32 \<Rightarrow> (sync_reads \<times> SyncMsg) received list
     \<Rightarrow> (CircuitBreaker \<times> 'w sync_world \<times> (nat \<Rightarrow> u64) \<times> rl_counters) \<times> bool
     \<Rightarrow> (CircuitBreaker \<times> 'w sync_world \<times> (nat \<Rightarrow> u64) \<times> rl_counters) \<times> bool" where
  "rl_sync_loop fx api pid =
     sync_loop (\<lambda>(rd, m). rl_sync_msg fx api pid (sr_ms rd) (sr_ms' rd) (sr_sec rd) (sr_lat rd) (sr_event rd) m)"

fun before_disconnect :: "'m received list \<Rightarrow> 'm list" where
  "before_disconnect [] = []"
| "before_disconnect (Received m # rs) = m # before_disconnect rs"
| "before_disconnect (TimedOut # rs) = before_disconnect rs"
| "before_disconnect (Disconnected # rs) = []"

text \<open>The thread works off the messages in order until the sender is gone, and only then stops.\<close>

lemma sync_loop_spec:
  "sync_loop f rs (s, True) = (fold f (before_disconnect rs) s, Disconnected \<notin> set rs)"
  by (induction rs arbitrary: s rule: before_disconnect.induct) simp_all

lemma rl_thread_alive: "snd (rl_sync_loop fx api pid rs (s, True)) \<longleftrightarrow> Disconnected \<notin> set rs"
  by (simp add: rl_sync_loop_def sync_loop_spec)

section \<open>Starting a worker\<close>

text \<open>
  The process-wide flags and cells that guard the threads, and the threads started so far. Creating
  a thread succeeds; the exporter needs its two variables.
\<close>

record worker_process =
  wp_warned :: bool
  wp_rl :: "bool \<times> SyncMsg list option"
  wp_health_started :: bool
  wp_sentinel_started :: bool
  wp_trace_tx :: bool
  wp_threads :: "string list"

definition fresh_process :: worker_process where
  "fresh_process = \<lparr>wp_warned = False, wp_rl = (False, None), wp_health_started = False, wp_sentinel_started = False,
     wp_trace_tx = False, wp_threads = []\<rparr>"

abbreviation spawn :: "string \<Rightarrow> worker_process \<Rightarrow> worker_process" where
  "spawn t p \<equiv> p\<lparr>wp_threads := wp_threads p @ [t]\<rparr>"

definition start_config_sync :: "worker_process \<Rightarrow> worker_process" where
  "start_config_sync p = spawn ''config'' p"

definition start_telemetry_sync :: "worker_process \<Rightarrow> worker_process" where
  "start_telemetry_sync p = p"

definition start_rate_limit :: "env \<Rightarrow> worker_process \<Rightarrow> worker_process" where
  "start_rate_limit env p =
     (let rl = start_rl_redis_sync env (wp_rl p); p1 = p\<lparr>wp_rl := rl\<rparr> in
      if fst rl \<and> \<not> fst (wp_rl p) then spawn ''rate-limit-sync'' p1 else p1)"

definition start_sync :: "worker_process \<Rightarrow> worker_process" where
  "start_sync p = spawn ''auth-snapshot-sync'' p"

definition start_active_checks :: "worker_process \<Rightarrow> worker_process" where
  "start_active_checks p =
     (if wp_health_started p then p else spawn ''active-health'' (p\<lparr>wp_health_started := True\<rparr>))"

text \<open>The result of \<open>STARTED.set\<close> is dropped, so it guards nothing.\<close>

definition start_sentinel :: "worker_process \<Rightarrow> worker_process" where
  "start_sentinel p = spawn ''sentinel'' (p\<lparr>wp_sentinel_started := True\<rparr>)"

definition start_otlp :: "env \<Rightarrow> worker_process \<Rightarrow> worker_process option" where
  "start_otlp env p =
     (case endpoint env of
        None \<Rightarrow> Some p
      | Some base \<Rightarrow>
          (case auth_header env of
             None \<Rightarrow> Some p
           | Some None \<Rightarrow> None
           | Some (Some auth) \<Rightarrow> Some (spawn ''otlp-export'' (p\<lparr>wp_trace_tx := True\<rparr>))))"

text \<open>The warning is given once; \<open>None\<close> is a process that aborts.\<close>

definition init_extension :: "env \<Rightarrow> worker_process \<Rightarrow> worker_process option" where
  "init_extension env p =
     (if \<not> wp_warned p \<and> warn_insecure_secrets env = SecretsAbort then None
      else start_otlp env (start_sentinel (start_active_checks (start_sync (start_rate_limit env
             (start_telemetry_sync (start_config_sync (p\<lparr>wp_warned := True\<rparr>))))))))"

lemma start_rl_running: "fst (wp_rl p) \<Longrightarrow> start_rate_limit env p = p"
  by (auto simp: start_rate_limit_def start_rl_redis_sync_def Let_def split: prod.splits)

lemma start_rl_off: "\<not> rl_redis_enabled env \<Longrightarrow> start_rate_limit env p = p"
  by (auto simp: start_rate_limit_def start_rl_redis_sync_def Let_def split: prod.splits)

text \<open>What a worker runs after its start.\<close>

lemma fresh_start_threads:
  assumes "init_extension env fresh_process = Some p"
  shows "wp_threads p = [''config''] @ (if rl_redis_enabled env then [''rate-limit-sync''] else [])
      @ [''auth-snapshot-sync'', ''active-health'', ''sentinel''] @ (if wp_trace_tx p then [''otlp-export''] else [])
    \<and> (wp_trace_tx p \<longleftrightarrow> endpoint env \<noteq> None \<and> (\<exists>auth. auth_header env = Some (Some auth)))
    \<and> warn_insecure_secrets env \<noteq> SecretsAbort"
  using assms
  by (auto simp: init_extension_def fresh_process_def start_config_sync_def start_telemetry_sync_def start_rate_limit_def
      start_rl_redis_sync_def start_sync_def start_active_checks_def start_sentinel_def start_otlp_def Let_def
      split: if_splits option.splits)

text \<open>
  Which starts are idempotent. A second call in the same process starts the configuration watcher,
  the revocation thread, the sentinel and the exporter again, but neither the prober nor the rate
  limit thread.
\<close>

lemma second_start_threads:
  assumes "init_extension env fresh_process = Some p" and "init_extension env p = Some p'"
  shows "wp_threads p' = wp_threads p @ [''config'', ''auth-snapshot-sync'', ''sentinel''] @ (if wp_trace_tx p then [''otlp-export''] else [])"
proof -
  have rl: "fst (wp_rl p) \<or> \<not> rl_redis_enabled env" and h: "wp_health_started p"
    using assms(1)
    by (auto simp: init_extension_def fresh_process_def start_config_sync_def start_telemetry_sync_def start_rate_limit_def
        start_rl_redis_sync_def start_sync_def start_active_checks_def start_sentinel_def start_otlp_def Let_def
        split: if_splits option.splits)
  have r: "start_rate_limit env q = q" if "wp_rl q = wp_rl p" for q
    using rl that start_rl_running [of q env] start_rl_off [of env q] by auto
  show ?thesis
    using assms(2) h fresh_start_threads [OF assms(1)]
    by (auto simp: init_extension_def start_config_sync_def start_telemetry_sync_def r start_sync_def
        start_active_checks_def start_sentinel_def start_otlp_def split: if_splits option.splits)
qed

end
