(* ===== verification/Sidecar.thy ===== *)
theory Sidecar
  imports Prom_Text Validate Gateway_Prelude
begin

text \<open>
  The configuration sidecar, \<open>config-sidecar/src/main.rs\<close> and \<open>metrics.rs\<close>: its settings from the
  environment, one iteration of the poll loop, the replacement of the configuration file, and its
  own metrics endpoint.

  Files are a map from paths to contents. Writing a file is not atomic: its states are the
  prefixes of the data, so a reader that runs beside the sidecar, or a crash, may find any of
  them; a rename is one step. \<open>write_config_atomically\<close> and \<open>sidecar_poll\<close> return the list of these
  states besides their results. The control plane's answer and the outcomes of the system calls are
  given per iteration by a \<open>poll_event\<close>; the serializer of \<open>serde_json\<close> is the parameter \<open>render\<close>.
\<close>

section \<open>Paths\<close>

text \<open>On reversed paths: trailing separators and current-directory components are not part of a name.\<close>

fun strip_rev :: "string \<Rightarrow> string" where
  "strip_rev [] = []"
| "strip_rev [c] = (if c = CHR ''/'' then [] else [c])"
| "strip_rev (c # d # r) =
     (if c = CHR ''/'' then strip_rev (d # r)
      else if c = CHR ''.'' \<and> d = CHR ''/'' then strip_rev (d # r) else c # d # r)"

definition file_name :: "string \<Rightarrow> string option" where
  "file_name p =
     (let n = rev (takeWhile (\<lambda>c. c \<noteq> CHR ''/'') (strip_rev (rev p))) in
      if n \<in> {[], ''.'', ''..''} then None else Some n)"

definition file_stem :: "string \<Rightarrow> string" where
  "file_stem n =
     (case dropWhile (\<lambda>c. c \<noteq> CHR ''.'') (rev n) of
        _ # before \<Rightarrow> if before = [] then n else rev before
      | [] \<Rightarrow> n)"

definition with_extension :: "string \<Rightarrow> string \<Rightarrow> string" where
  "with_extension p ext =
     (case file_name p of
        None \<Rightarrow> p
      | Some n \<Rightarrow> rev (dropWhile (\<lambda>c. c \<noteq> CHR ''/'') (strip_rev (rev p))) @ file_stem n @ ''.'' @ ext)"

definition path_join :: "string \<Rightarrow> string \<Rightarrow> string" where
  "path_join d f = (if d = [] \<or> last d = CHR ''/'' then d @ f else d @ ''/'' @ f)"

section \<open>Settings\<close>

record sidecar_config =
  sd_url :: string
  sd_target :: string
  sd_temp :: string
  sd_poll_secs :: u64
  sd_metrics :: "(string \<times> u16) option"
  sd_token :: "string option"

definition sidecar_target :: "env \<Rightarrow> string" where
  "sidecar_target env =
     (case non_empty (env ''GATEWAY_CONFIG_PATH'') of
        Some p \<Rightarrow> p
      | None \<Rightarrow> path_join (unwrap_or (env ''TMPDIR'') ''/tmp'') ''gateway_config.json'')"

definition sidecar_settings :: "env \<Rightarrow> sidecar_config" where
  "sidecar_settings env =
     (let metrics_port = env_parse parse_uint env ''METRICS_PORT'' 9092 in
      \<lparr>sd_url = unwrap_or (env ''CONTROL_PLANE_URL'') ''http://control-plane:8081'' @ ''/config'',
       sd_target = sidecar_target env,
       sd_temp = with_extension (sidecar_target env) ''json.tmp'',
       sd_poll_secs = env_parse parse_uint env ''CONFIG_POLL_SECS'' 5,
       sd_metrics = (if 0 < metrics_port then Some (unwrap_or (env ''METRICS_BIND'') ''0.0.0.0'', metrics_port) else None),
       sd_token = non_empty (env ''CONFIG_READ_TOKEN'')\<rparr>)"

section \<open>Replacing the file\<close>

type_synonym files = "string \<rightharpoonup> string"

text \<open>A failed write left nothing behind, or the first bytes of the data.\<close>

datatype write_outcome = Wrote | NotOpened | Interrupted nat

datatype sidecar_error = WriteFailed | RenameFailed

definition write_states :: "string \<Rightarrow> string \<Rightarrow> nat \<Rightarrow> files \<Rightarrow> files list" where
  "write_states path data n fs = map (\<lambda>i. fs(path \<mapsto> take i data)) [0..<Suc n]"

definition rename_file :: "string \<Rightarrow> string \<Rightarrow> files \<Rightarrow> files" where
  "rename_file old new fs = (if old = new then fs else fs(new := fs old, old := None))"

definition write_config_atomically ::
    "string \<Rightarrow> string \<Rightarrow> string \<Rightarrow> write_outcome \<Rightarrow> bool \<Rightarrow> files \<Rightarrow> (sidecar_error + unit) \<times> files list" where
  "write_config_atomically temp_path target_path data w renamed fs =
     (case w of
        NotOpened \<Rightarrow> (Inl WriteFailed, [fs])
      | Interrupted n \<Rightarrow> (Inl WriteFailed, write_states temp_path data n fs)
      | Wrote \<Rightarrow>
          (let states = write_states temp_path data (length data) fs in
           if renamed then (Inr (), states @ [rename_file temp_path target_path (last states)])
           else (Inl RenameFailed, states)))"

section \<open>The poll loop\<close>

definition should_update_config :: "string \<Rightarrow> string \<Rightarrow> bool" where
  "should_update_config current_version new_version = (new_version \<noteq> [] \<and> new_version \<noteq> current_version)"

text \<open>The field of the document that \<open>json_val["version"].as_str().unwrap_or("")\<close> reads.\<close>

definition doc_version :: "json \<Rightarrow> string" where
  "doc_version j =
     (case j of
        JObject kvs \<Rightarrow> (case map_of kvs ''version'' of Some (JString v) \<Rightarrow> v | _ \<Rightarrow> [])
      | _ \<Rightarrow> [])"

datatype poll_reply = Unreachable | Unparsable | Document json

record poll_event =
  pe_fetch :: "string \<Rightarrow> string option \<Rightarrow> poll_reply"
  pe_write :: write_outcome
  pe_renamed :: bool

record sidecar_state =
  sc_version :: string
  sc_files :: files
  POLLS :: u64
  UPDATES :: u64
  ERRORS :: u64

definition inc_polls :: "sidecar_state \<Rightarrow> sidecar_state" where
  "inc_polls s = s\<lparr>POLLS := POLLS s + 1\<rparr>"

definition inc_updates :: "sidecar_state \<Rightarrow> sidecar_state" where
  "inc_updates s = s\<lparr>UPDATES := UPDATES s + 1\<rparr>"

definition inc_errors :: "sidecar_state \<Rightarrow> sidecar_state" where
  "inc_errors s = s\<lparr>ERRORS := ERRORS s + 1\<rparr>"

definition sidecar_poll ::
    "(json \<Rightarrow> string) \<Rightarrow> sidecar_config \<Rightarrow> poll_event \<Rightarrow> sidecar_state \<Rightarrow> sidecar_state \<times> files list" where
  "sidecar_poll render cfg ev s0 =
     (let s = inc_polls s0 in
      case pe_fetch ev (sd_url cfg) (sd_token cfg) of
        Unreachable \<Rightarrow> (inc_errors s, [])
      | Unparsable \<Rightarrow> (s, [])
      | Document j \<Rightarrow>
          (let new_version = doc_version j in
           if should_update_config (sc_version s) new_version then
             (case write_config_atomically (sd_temp cfg) (sd_target cfg) (render j) (pe_write ev) (pe_renamed ev) (sc_files s) of
                (Inr _, fss) \<Rightarrow> (inc_updates (s\<lparr>sc_files := last fss, sc_version := new_version\<rparr>), fss)
              | (Inl _, fss) \<Rightarrow> (inc_errors (s\<lparr>sc_files := last fss\<rparr>), fss))
           else (s, [])))"

text \<open>The loop never ends; a run is any finite number of its iterations, with the states it passes through.\<close>

fun sidecar_run ::
    "(json \<Rightarrow> string) \<Rightarrow> sidecar_config \<Rightarrow> poll_event list \<Rightarrow> sidecar_state \<Rightarrow> sidecar_state \<times> files list" where
  "sidecar_run render cfg [] s = (s, [])"
| "sidecar_run render cfg (ev # evs) s =
     (case sidecar_poll render cfg ev s of (s1, fs1) \<Rightarrow>
        (case sidecar_run render cfg evs s1 of (s2, fs2) \<Rightarrow> (s2, fs1 @ fs2)))"

definition sidecar_start :: "files \<Rightarrow> sidecar_state" where
  "sidecar_start fs = \<lparr>sc_version = [], sc_files = fs, POLLS = 0, UPDATES = 0, ERRORS = 0\<rparr>"

section \<open>The metrics endpoint\<close>

definition sidecar_families :: "sidecar_state \<Rightarrow> sample_family list" where
  "sidecar_families s =
     [(''config_sidecar_up'', ''Sidecar process is up'', ''gauge'', ''1''),
      (''config_sidecar_polls_total'', ''Config poll attempts toward control plane'', ''counter'', uint_string (POLLS s)),
      (''config_sidecar_updates_total'', ''Successful config file writes'', ''counter'', uint_string (UPDATES s)),
      (''config_sidecar_errors_total'', ''Poll or write failures'', ''counter'', uint_string (ERRORS s))]"

definition metrics_body :: "sidecar_state \<Rightarrow> string" where
  "metrics_body s = families_text (sidecar_families s)"

definition crlf :: string where "crlf = [CHR 0x0D, CHR 0x0A]"

text \<open>The answer to every connection, whatever it sent.\<close>

definition handle_connection :: "sidecar_state \<Rightarrow> string" where
  "handle_connection s =
     (let body = metrics_body s in
      ''HTTP/1.1 200 OK'' @ crlf @ ''Content-Type: text/plain; version=0.0.4; charset=utf-8'' @ crlf
      @ ''Content-Length: '' @ dec_string (length body) @ crlf @ ''Connection: close'' @ crlf @ crlf @ body)"

section \<open>The temporary file is another file\<close>

lemma strip_rev_drops: "\<exists>t. p = t @ strip_rev p \<and> (t = [] \<or> hd t \<in> {CHR ''/'', CHR ''.''})"
proof (induction p rule: strip_rev.induct)
  case (3 c d r)
  show ?case
  proof (cases "c = CHR ''/'' \<or> c = CHR ''.'' \<and> d = CHR ''/''")
    case True
    then have "strip_rev (c # d # r) = strip_rev (d # r)" by auto
    moreover obtain t where "d # r = t @ strip_rev (d # r)" using 3 True by blast
    ultimately have "c # d # r = (c # t) @ strip_rev (c # d # r)" by simp
    then show ?thesis using True by (intro exI [of _ "c # t"]) auto
  qed auto
qed simp_all

lemma stem_json_tmp: "n = m @ ''.json.tmp'' \<Longrightarrow> file_stem n = m @ ''.json''"
  by (simp add: file_stem_def)

text \<open>The sibling that is written never is the file the gateway reads.\<close>

lemma temp_is_sibling:
  assumes "file_name p = Some n"
  shows "with_extension p ''json.tmp'' \<noteq> p"
proof
  assume e: "with_extension p ''json.tmp'' = p"
  let ?r = "strip_rev (rev p)" and ?q = "\<lambda>c. c \<noteq> CHR ''/''"
  obtain t where t: "rev p = t @ ?r" "t = [] \<or> hd t \<in> {CHR ''/'', CHR ''.''}" using strip_rev_drops by blast
  have n: "rev n = takeWhile ?q ?r" using assms by (auto simp: file_name_def Let_def split: if_splits)
  have p: "rev p = ''pmt.nosj.'' @ rev (file_stem n) @ dropWhile ?q ?r"
    using arg_cong [OF e, of rev] assms by (simp add: with_extension_def)
  then have "hd (rev p) = CHR ''p''" by (metis append_Cons list.sel(1))
  moreover have "t \<noteq> [] \<longrightarrow> hd (rev p) = hd t" by (subst t(1)) simp
  ultimately have "t = []" using t(2) by auto
  then have "rev p = rev n @ dropWhile ?q ?r" using t(1) n takeWhile_dropWhile_id [of ?q ?r] by simp
  then have "rev n @ dropWhile ?q ?r = (''pmt.nosj.'' @ rev (file_stem n)) @ dropWhile ?q ?r"
    by (metis p append.assoc)
  then have "rev n = rev (file_stem n @ ''.json.tmp'')" unfolding append_same_eq by simp
  then have "n = file_stem n @ ''.json.tmp''" unfolding rev_is_rev_conv .
  with stem_json_tmp [OF this] show False by simp
qed

section \<open>Only whole documents reach the target\<close>

text \<open>The documents with a version that the control plane sent during a run.\<close>

definition polled_docs :: "sidecar_config \<Rightarrow> poll_event list \<Rightarrow> json set" where
  "polled_docs cfg evs =
     {j. doc_version j \<noteq> [] \<and> (\<exists>ev \<in> set evs. pe_fetch ev (sd_url cfg) (sd_token cfg) = Document j)}"

lemma write_states_simps [simp]:
  "write_states path data n fs \<noteq> []" "last (write_states path data n fs) = fs(path \<mapsto> take n data)"
  by (simp_all add: write_states_def)

lemma write_states_other: "fs' \<in> set (write_states path data n fs) \<Longrightarrow> p \<noteq> path \<Longrightarrow> fs' p = fs p"
  by (auto simp: write_states_def)

lemma write_atomic:
  assumes "write_config_atomically temp target data w renamed fs = (r, fss)" and "temp \<noteq> target"
  shows "fss \<noteq> []" and "fs' \<in> set fss \<Longrightarrow> fs' target = fs target \<or> fs' target = Some data"
    and "last fss target = (if r = Inr () then Some data else fs target)"
proof -
  show "fss \<noteq> []"
    using assms(1) by (auto simp: write_config_atomically_def Let_def split: write_outcome.splits if_splits)
  show "fs' target = fs target \<or> fs' target = Some data" if "fs' \<in> set fss"
    using assms that write_states_other [of fs' temp data _ fs target]
    by (auto simp: write_config_atomically_def Let_def rename_file_def split: write_outcome.splits if_splits)
  show "last fss target = (if r = Inr () then Some data else fs target)"
    using assms
    by (auto simp: write_config_atomically_def Let_def rename_file_def split: write_outcome.splits if_splits)
qed

lemma poll_cases:
  assumes "sd_temp cfg \<noteq> sd_target cfg" and "sidecar_poll render cfg ev s = (s', fss)"
  shows "(sc_version s' = sc_version s \<and> sc_files s' (sd_target cfg) = sc_files s (sd_target cfg)
      \<or> (\<exists>j \<in> polled_docs cfg [ev]. sc_version s' = doc_version j \<and> sc_files s' (sd_target cfg) = Some (render j)))
    \<and> (\<forall>fs' \<in> set fss. fs' (sd_target cfg) = sc_files s (sd_target cfg)
        \<or> (\<exists>j \<in> polled_docs cfg [ev]. fs' (sd_target cfg) = Some (render j)))"
proof (cases "\<exists>j. pe_fetch ev (sd_url cfg) (sd_token cfg) = Document j \<and> should_update_config (sc_version s) (doc_version j)")
  case True
  then obtain j where j: "pe_fetch ev (sd_url cfg) (sd_token cfg) = Document j"
    "should_update_config (sc_version s) (doc_version j)" by blast
  then have d: "j \<in> polled_docs cfg [ev]" by (auto simp: polled_docs_def should_update_config_def)
  obtain r gss where w: "write_config_atomically (sd_temp cfg) (sd_target cfg) (render j) (pe_write ev) (pe_renamed ev) (sc_files s) = (r, gss)"
    by (cases "write_config_atomically (sd_temp cfg) (sd_target cfg) (render j) (pe_write ev) (pe_renamed ev) (sc_files s)")
  note a = write_atomic [OF w assms(1)]
  have s': "s' = (if r = Inr () then inc_updates ((inc_polls s)\<lparr>sc_files := last gss, sc_version := doc_version j\<rparr>)
      else inc_errors ((inc_polls s)\<lparr>sc_files := last gss\<rparr>))" "fss = gss"
    using assms(2) j w by (auto simp: sidecar_poll_def inc_polls_def Let_def split: sum.splits)
  have "sc_version s' = (if r = Inr () then doc_version j else sc_version s)" "sc_files s' = last gss"
    by (simp_all add: s'(1) inc_updates_def inc_errors_def inc_polls_def)
  then show ?thesis using d a(2,3) s'(2) by auto
next
  case False
  then have "fss = []" "sc_version s' = sc_version s" "sc_files s' = sc_files s"
    using assms(2)
    by (auto simp: sidecar_poll_def Let_def inc_polls_def inc_errors_def split: poll_reply.splits)
  then show ?thesis by simp
qed

lemma polled_docs_mono: "polled_docs cfg [ev] \<subseteq> polled_docs cfg (ev # evs)" "polled_docs cfg evs \<subseteq> polled_docs cfg (ev # evs)"
  by (auto simp: polled_docs_def)

lemma run_whole_documents:
  assumes "sd_temp cfg \<noteq> sd_target cfg"
  shows "\<forall>fs' \<in> set (snd (sidecar_run render cfg evs s)).
    fs' (sd_target cfg) = sc_files s (sd_target cfg) \<or> (\<exists>j \<in> polled_docs cfg evs. fs' (sd_target cfg) = Some (render j))"
proof (induction evs arbitrary: s)
  case (Cons ev evs)
  obtain s1 fs1 where p: "sidecar_poll render cfg ev s = (s1, fs1)" by (cases "sidecar_poll render cfg ev s")
  have c: "sc_files s1 (sd_target cfg) = sc_files s (sd_target cfg)
      \<or> (\<exists>j \<in> polled_docs cfg (ev # evs). sc_files s1 (sd_target cfg) = Some (render j))"
    "\<forall>fs' \<in> set fs1. fs' (sd_target cfg) = sc_files s (sd_target cfg)
        \<or> (\<exists>j \<in> polled_docs cfg (ev # evs). fs' (sd_target cfg) = Some (render j))"
    using poll_cases [OF assms p] polled_docs_mono(1) by blast+
  have "\<forall>fs' \<in> set (snd (sidecar_run render cfg evs s1)). fs' (sd_target cfg) = sc_files s1 (sd_target cfg)
        \<or> (\<exists>j \<in> polled_docs cfg (ev # evs). fs' (sd_target cfg) = Some (render j))"
    using Cons [of s1] polled_docs_mono(2) by blast
  with c have "\<forall>fs' \<in> set fs1 \<union> set (snd (sidecar_run render cfg evs s1)).
      fs' (sd_target cfg) = sc_files s (sd_target cfg)
      \<or> (\<exists>j \<in> polled_docs cfg (ev # evs). fs' (sd_target cfg) = Some (render j))"
    by (metis UnE)
  then show ?case by (simp add: p case_prod_beta)
qed simp

text \<open>The file holds the version the sidecar believes it wrote.\<close>

definition version_truthful :: "(json \<Rightarrow> string) \<Rightarrow> sidecar_config \<Rightarrow> poll_event list \<Rightarrow> sidecar_state \<Rightarrow> bool" where
  "version_truthful render cfg evs s \<longleftrightarrow>
     (\<exists>j \<in> polled_docs cfg evs. sc_version s = doc_version j \<and> sc_files s (sd_target cfg) = Some (render j))"

lemma run_version_truthful:
  assumes "sd_temp cfg \<noteq> sd_target cfg"
  shows "version_truthful render cfg evs (fst (sidecar_run render cfg evs s))
    \<or> sc_version (fst (sidecar_run render cfg evs s)) = sc_version s
      \<and> sc_files (fst (sidecar_run render cfg evs s)) (sd_target cfg) = sc_files s (sd_target cfg)"
proof (induction evs arbitrary: s)
  case (Cons ev evs)
  obtain s1 fs1 where p: "sidecar_poll render cfg ev s = (s1, fs1)" by (cases "sidecar_poll render cfg ev s")
  have r: "fst (sidecar_run render cfg (ev # evs) s) = fst (sidecar_run render cfg evs s1)"
    by (simp add: p case_prod_beta)
  have "version_truthful render cfg (ev # evs) s1
      \<or> sc_version s1 = sc_version s \<and> sc_files s1 (sd_target cfg) = sc_files s (sd_target cfg)"
    using poll_cases [OF assms p] polled_docs_mono(1) unfolding version_truthful_def by blast
  moreover have "version_truthful render cfg (ev # evs) (fst (sidecar_run render cfg evs s1))
      \<or> sc_version (fst (sidecar_run render cfg evs s1)) = sc_version s1
        \<and> sc_files (fst (sidecar_run render cfg evs s1)) (sd_target cfg) = sc_files s1 (sd_target cfg)"
    using Cons [of s1] polled_docs_mono(2) unfolding version_truthful_def by blast
  ultimately show ?case unfolding r version_truthful_def by auto
qed simp

lemma sidecar_paths: "file_name (sidecar_target env) \<noteq> None \<Longrightarrow> sd_temp (sidecar_settings env) \<noteq> sd_target (sidecar_settings env)"
  using temp_is_sibling by (auto simp: sidecar_settings_def Let_def)

text \<open>A poll that is answered and whose file operations succeed leaves the file at the version it was sent.\<close>

lemma poll_updates:
  assumes "sd_temp cfg \<noteq> sd_target cfg" and "pe_fetch ev (sd_url cfg) (sd_token cfg) = Document j"
    and "doc_version j \<noteq> []" and "pe_write ev = Wrote" and "pe_renamed ev"
  shows "sc_version (fst (sidecar_poll render cfg ev s)) = doc_version j"
  using assms
  by (auto simp: sidecar_poll_def should_update_config_def write_config_atomically_def Let_def
      inc_polls_def inc_updates_def)

lemma sidecar_run_snoc:
  "fst (sidecar_run render cfg (evs @ [ev]) s) = fst (sidecar_poll render cfg ev (fst (sidecar_run render cfg evs s)))"
  by (induction evs arbitrary: s) (simp_all add: case_prod_beta)

text \<open>The sidecar knows what is on disk: starting from any files, after any replies of the control
  plane and any failures of the file operations, either nothing was written yet, its version is
  still empty and the target as it was, or the target is the whole text of a document the control
  plane sent with exactly the version the sidecar remembers. A poll that brings a versioned
  document and whose write and rename succeed ends at that version, whatever happened before.
\<close>
lemma sidecar_version_matches_file:
  assumes "file_name (sidecar_target env) \<noteq> None"
  shows "(version_truthful render (sidecar_settings env) evs
        (fst (sidecar_run render (sidecar_settings env) evs (sidecar_start fs)))
      \<or> sc_version (fst (sidecar_run render (sidecar_settings env) evs (sidecar_start fs))) = []
        \<and> sc_files (fst (sidecar_run render (sidecar_settings env) evs (sidecar_start fs))) (sidecar_target env)
          = fs (sidecar_target env))
    \<and> (pe_fetch ev (sd_url (sidecar_settings env)) (sd_token (sidecar_settings env)) = Document j
       \<and> doc_version j \<noteq> [] \<and> pe_write ev = Wrote \<and> pe_renamed ev \<longrightarrow>
       sc_version (fst (sidecar_run render (sidecar_settings env) (evs @ [ev]) (sidecar_start fs))) = doc_version j)"
proof -
  note p = sidecar_paths [OF assms]
  have t: "sd_target (sidecar_settings env) = sidecar_target env" by (simp add: sidecar_settings_def Let_def)
  show ?thesis
    using run_version_truthful [OF p, of render evs "sidecar_start fs"] poll_updates [OF p]
    by (auto simp: sidecar_start_def t sidecar_run_snoc)
qed

text \<open>Two polls in an empty environment: a lost connection, then a document.\<close>

definition demo_doc :: json where
  "demo_doc = JObject [(''version'', JString ''v7'')]"

definition demo_polls :: "poll_event list" where
  "demo_polls = [\<lparr>pe_fetch = (\<lambda>_ _. Unreachable), pe_write = Wrote, pe_renamed = True\<rparr>,
     \<lparr>pe_fetch = (\<lambda>_ _. Document demo_doc), pe_write = Interrupted 3, pe_renamed = True\<rparr>]"

lemma demo_target: "sidecar_target Map.empty = ''/tmp/gateway_config.json''"
  "file_name ''/tmp/gateway_config.json'' = Some ''gateway_config.json''"
  "with_extension ''/tmp/gateway_config.json'' ''json.tmp'' = ''/tmp/gateway_config.json.tmp''"
  by (simp_all add: sidecar_target_def non_empty_def unwrap_or_def path_join_def file_name_def
      with_extension_def file_stem_def)

lemma sidecar_version_matches_file_witness:
  "sc_version (fst (sidecar_run (\<lambda>_. ''{}'') (sidecar_settings Map.empty)
     (demo_polls @ [\<lparr>pe_fetch = (\<lambda>_ _. Document demo_doc), pe_write = Wrote, pe_renamed = True\<rparr>])
     (sidecar_start Map.empty))) = ''v7''"
proof -
  have "file_name (sidecar_target Map.empty) \<noteq> None" by (simp add: demo_target)
  from sidecar_version_matches_file [OF this, of "\<lambda>_. ''{}''" demo_polls Map.empty
      "\<lparr>pe_fetch = (\<lambda>_ _. Document demo_doc), pe_write = Wrote, pe_renamed = True\<rparr>" demo_doc]
  show ?thesis by (simp add: demo_doc_def doc_version_def)
qed

section \<open>The metrics of the sidecar\<close>

text \<open>Every poll is counted, and at most one of the other two counters moves with it.\<close>

lemma poll_counters:
  "POLLS (fst (sidecar_poll render cfg ev s)) = POLLS s + 1
   \<and> (UPDATES (fst (sidecar_poll render cfg ev s)), ERRORS (fst (sidecar_poll render cfg ev s)))
     \<in> {(UPDATES s, ERRORS s), (UPDATES s + 1, ERRORS s), (UPDATES s, ERRORS s + 1)}"
  by (auto simp: sidecar_poll_def Let_def inc_polls_def inc_updates_def inc_errors_def
      split: poll_reply.splits sum.splits prod.splits)

text \<open>A reply that is no JSON changes nothing but the number of polls.\<close>

lemma unparsable_not_counted:
  "pe_fetch ev (sd_url cfg) (sd_token cfg) = Unparsable \<Longrightarrow> sidecar_poll render cfg ev s = (inc_polls s, [])"
  by (simp add: sidecar_poll_def Let_def)

text \<open>The body of the answer, found by its length, reads back as the counters.\<close>

lemma sidecar_metrics_read:
  "read_uint (metrics_body s) ''config_sidecar_polls_total'' = Some (POLLS s)"
  "read_uint (metrics_body s) ''config_sidecar_updates_total'' = Some (UPDATES s)"
  "read_uint (metrics_body s) ''config_sidecar_errors_total'' = Some (ERRORS s)"
proof -
  have p: "list_all plain_family (sidecar_families s)"
    by (simp add: sidecar_families_def plain_name_def newline_def plain_value_def [of "[_]"])
  have "scrape (metrics_body s) = map (\<lambda>(n, h, k, v). (n, v)) (sidecar_families s)"
    using scrape_families [OF p, of "[]"] by (simp add: metrics_body_def)
  then show "read_uint (metrics_body s) ''config_sidecar_polls_total'' = Some (POLLS s)"
    "read_uint (metrics_body s) ''config_sidecar_updates_total'' = Some (UPDATES s)"
    "read_uint (metrics_body s) ''config_sidecar_errors_total'' = Some (ERRORS s)"
    by (simp_all add: read_uint_def sidecar_families_def)
qed

end
