(* ===== verification/Single_Flight.thy ===== *)
theory Single_Flight
  imports Gateway_Prelude
begin

text \<open>
  Request collapsing, \<open>rust-ext/src/single_flight.rs\<close>. The in-flight table maps keys to result slots;
  a slot is an address, so that followers which cloned the slot see the publication after its
  entry is gone. A call of \<open>try_flight\<close> is its part under the lock, \<open>enter_flight\<close>, and for followers
  the polling loop. The hash of method and path is the parameter \<open>fx2\<close>.
\<close>

record flight_state =
  sf_in_flight :: "u64 \<rightharpoonup> nat"
  sf_result :: "nat \<Rightarrow> int option"
  sf_next :: nat
  COLLAPSED_TOTAL :: u64
  LEADER_TOTAL :: u64

definition flight_init :: flight_state where
  "flight_init = \<lparr>sf_in_flight = Map.empty, sf_result = (\<lambda>_. None), sf_next = 0, COLLAPSED_TOTAL = 0, LEADER_TOTAL = 0\<rparr>"

definition flight_key :: "(string \<Rightarrow> string \<Rightarrow> u64) \<Rightarrow> string \<Rightarrow> string \<Rightarrow> u64 option" where
  "flight_key fx2 method path_with_query =
     (if method = ''GET'' \<or> method = ''HEAD'' then Some (fx2 method path_with_query) else None)"

datatype FlightResult = Leader | Follower int

text \<open>The part of \<open>try_flight\<close> under the lock: the slot to follow, or nothing for the leader.\<close>

definition enter_flight :: "u64 \<Rightarrow> flight_state \<Rightarrow> nat option \<times> flight_state" where
  "enter_flight key s =
     (case sf_in_flight s key of
        Some slot \<Rightarrow> (Some slot, s\<lparr>COLLAPSED_TOTAL := COLLAPSED_TOTAL s + 1\<rparr>)
      | None \<Rightarrow>
          (None, s\<lparr>sf_in_flight := (sf_in_flight s)(key \<mapsto> sf_next s),
                   sf_result := (sf_result s)(sf_next s := None), sf_next := sf_next s + 1,
                   LEADER_TOTAL := LEADER_TOTAL s + 1\<rparr>))"

definition MAX_FOLLOWER_WAIT_MS :: nat where [simp]: "MAX_FOLLOWER_WAIT_MS = 2000"

text \<open>
  The polling loop. Every iteration sees the slot and, when that is empty, the clock (in
  microseconds); \<open>delay\<close> is the next sleep. \<open>None\<close>: the observations end before the loop does.
\<close>

fun follow_loop :: "nat \<Rightarrow> nat \<Rightarrow> (int option \<times> nat) list \<Rightarrow> FlightResult option" where
  "follow_loop deadline delay [] = None"
| "follow_loop deadline delay ((val, now) # obs) =
     (case val of
        Some status \<Rightarrow> Some (Follower status)
      | None \<Rightarrow> if deadline < now then Some Leader else follow_loop deadline (min (delay * 2) 500) obs)"

definition try_flight :: "u64 \<Rightarrow> nat \<Rightarrow> (nat \<Rightarrow> (int option \<times> nat) list) \<Rightarrow> flight_state \<Rightarrow> FlightResult option \<times> flight_state" where
  "try_flight key now obs s =
     (case enter_flight key s of
        (Some slot, s') \<Rightarrow> (follow_loop (now + MAX_FOLLOWER_WAIT_MS * 1000) 1 (obs slot), s')
      | (None, s') \<Rightarrow> (Some Leader, s'))"

definition complete_flight :: "u64 \<Rightarrow> int \<Rightarrow> flight_state \<Rightarrow> flight_state" where
  "complete_flight key status s =
     (case sf_in_flight s key of
        Some slot \<Rightarrow> s\<lparr>sf_in_flight := (sf_in_flight s)(key := None), sf_result := (sf_result s)(slot := Some status)\<rparr>
      | None \<Rightarrow> s)"

section \<open>A follower's wait ends\<close>

text \<open>The clock readings when every sleep takes at least its delay.\<close>

fun slept :: "nat \<Rightarrow> (int option \<times> nat) list \<Rightarrow> bool" where
  "slept delay ((v, t) # (w, u) # obs) = (t + delay \<le> u \<and> slept (min (delay * 2) 500) ((w, u) # obs))"
| "slept delay obs = True"

fun total_sleep :: "nat \<Rightarrow> nat \<Rightarrow> nat" where
  "total_sleep delay 0 = 0"
| "total_sleep delay (Suc n) = delay + total_sleep (min (delay * 2) 500) n"

lemma follow_loop_stuck:
  assumes "follow_loop deadline delay ((v, t) # obs) = None" and "slept delay ((v, t) # obs)"
  shows "t + total_sleep delay (length obs) \<le> deadline"
  using assms
proof (induction obs arbitrary: v t delay)
  case (Cons o' obs)
  obtain w u where o: "o' = (w, u)" by (cases o')
  have "follow_loop deadline (min (delay * 2) 500) ((w, u) # obs) = None"
    using Cons.prems(1) by (cases v; cases "deadline < t") (simp_all add: o)
  moreover have "t + delay \<le> u" "slept (min (delay * 2) 500) ((w, u) # obs)"
    using Cons.prems(2) by (simp_all add: o)
  ultimately show ?case using Cons.IH [of "min (delay * 2) 500" w u] by simp
qed (simp split: option.splits if_splits)

lemma total_sleep_500: "total_sleep 500 n = 500 * n"
  by (induction n) simp_all

lemma total_sleep_1: "total_sleep 1 (n + 9) = 511 + 500 * n"
proof -
  have "n + 9 = Suc (Suc (Suc (Suc (Suc (Suc (Suc (Suc (Suc n))))))))" by simp
  then show ?thesis by (simp only: total_sleep.simps) (simp add: total_sleep_500)
qed

text \<open>(C31)
  A follower is never stuck: when sleeps take at least as long as asked, its wait of two seconds
  with the doubling delays ends after at most 4009 polls, with the leader's status or with the
  role of the leader.
\<close>
theorem follower_returns:
  assumes "4009 \<le> length (obs slot)" and "slept 1 (obs slot)" and "now \<le> snd (hd (obs slot))"
    and "sf_in_flight s key = Some slot"
  shows "\<exists>r. fst (try_flight key now obs s) = Some r"
proof (rule ccontr)
  assume n: "\<nexists>r. fst (try_flight key now obs s) = Some r"
  obtain v t rest where o: "obs slot = (v, t) # rest" using assms(1) by (cases "obs slot") auto
  have "follow_loop (now + 2000000) 1 ((v, t) # rest) = None"
    using n assms(4) by (simp add: try_flight_def enter_flight_def o del: follow_loop.simps)
  then have "t + total_sleep 1 (length rest) \<le> now + 2000000"
    using follow_loop_stuck assms(2) o by metis
  moreover have "length rest = (length rest - 9) + 9" "3999 \<le> length rest - 9" using assms(1) o by simp_all
  ultimately show False using total_sleep_1 [of "length rest - 9"] assms(3) o by simp
qed

theorem follower_returns_witness:
  "\<exists>r. fst (try_flight 7 0 (\<lambda>_. map (\<lambda>i. (None, i * 500)) [0..<4009])
      (snd (enter_flight 7 flight_init))) = Some r"
proof -
  let ?obs = "\<lambda>i j. map (\<lambda>i. (None :: int option, i * 500)) [i..<j]"
  have "slept d (?obs i j)" if "d \<le> 500" for d i j
    using that
  proof (induction "j - i" arbitrary: i d)
    case (Suc n)
    then have "i < j" by linarith
    show ?case
    proof (cases "Suc i < j")
      case True
      then have "?obs i j = (None, i * 500) # (None, Suc i * 500) # ?obs (Suc (Suc i)) j"
        and "?obs (Suc i) j = (None, Suc i * 500) # ?obs (Suc (Suc i)) j"
        using \<open>i < j\<close> by (simp_all add: upt_conv_Cons)
      moreover have "slept (min (d * 2) 500) (?obs (Suc i) j)" using Suc by (intro Suc.hyps(1)) auto
      ultimately show ?thesis using Suc.prems by (simp del: upt.simps)
    next
      case False
      then have "?obs i j = [(None, i * 500)]" using \<open>i < j\<close> by (simp add: upt_conv_Cons)
      then show ?thesis by simp
    qed
  qed simp
  then have "slept 1 (?obs 0 n)" for n by (metis one_le_numeral)
  then have "\<exists>r. fst (try_flight 7 0 (\<lambda>_. ?obs 0 n) (snd (enter_flight 7 flight_init))) = Some r" if "4009 \<le> n" for n
    using that
    by (intro follower_returns [of "\<lambda>_. ?obs 0 n" 0]) (simp_all add: enter_flight_def flight_init_def)
  from this [OF order_refl] show ?thesis .
qed

section \<open>Concurrent requests\<close>

text \<open>The role of each request, and the steps requests take in any order.\<close>

datatype role = Idle | Waiting u64 nat | Leading u64 | Led u64 int | Followed u64 int

inductive fstep :: "flight_state \<times> (nat \<Rightarrow> role) \<Rightarrow> flight_state \<times> (nat \<Rightarrow> role) \<Rightarrow> bool" where
  lead: "rs r = Idle \<Longrightarrow> enter_flight k s = (None, s') \<Longrightarrow> fstep (s, rs) (s', rs(r := Leading k))"
| follow: "rs r = Idle \<Longrightarrow> enter_flight k s = (Some i, s') \<Longrightarrow> fstep (s, rs) (s', rs(r := Waiting k i))"
| poll: "rs r = Waiting k i \<Longrightarrow> sf_result s i = Some st \<Longrightarrow> fstep (s, rs) (s, rs(r := Followed k st))"
| publish: "rs r = Leading k \<Longrightarrow> fstep (s, rs) (complete_flight k st s, rs(r := Led k st))"
| takeover: "rs r = Waiting k i \<Longrightarrow> sf_result s i = None \<Longrightarrow> fstep (s, rs) (s, rs(r := Leading k))"

inductive freach :: "flight_state \<times> (nat \<Rightarrow> role) \<Rightarrow> bool" where
  start: "freach (flight_init, \<lambda>_. Idle)"
| step: "freach c \<Longrightarrow> fstep c c' \<Longrightarrow> freach c'"

text \<open>Registered slots are allocated, unpublished and belong to one key.\<close>

definition slots_ok :: "flight_state \<Rightarrow> bool" where
  "slots_ok s \<longleftrightarrow> (\<forall>k i. sf_in_flight s k = Some i \<longrightarrow> i < sf_next s \<and> sf_result s i = None)
     \<and> (\<forall>k k' i. sf_in_flight s k = Some i \<longrightarrow> sf_in_flight s k' = Some i \<longrightarrow> k' = k)"

text \<open>
  A follower waits on its key's slot or on one that was published with the status of a leader of
  that key, and every answer is such a status.
\<close>

definition led :: "(nat \<Rightarrow> role) \<Rightarrow> u64 \<Rightarrow> int \<Rightarrow> bool" where
  "led rs k st \<longleftrightarrow> (\<exists>r. rs r = Led k st)"

fun role_ok :: "flight_state \<Rightarrow> (u64 \<Rightarrow> int \<Rightarrow> bool) \<Rightarrow> role \<Rightarrow> bool" where
  "role_ok s L (Waiting k i) =
     (i < sf_next s \<and> (case sf_result s i of None \<Rightarrow> sf_in_flight s k = Some i | Some st \<Rightarrow> L k st))"
| "role_ok s L (Followed k st) = L k st"
| "role_ok s L _ = True"

definition flight_inv :: "flight_state \<times> (nat \<Rightarrow> role) \<Rightarrow> bool" where
  "flight_inv c \<longleftrightarrow> slots_ok (fst c) \<and> (\<forall>r. role_ok (fst c) (led (snd c)) (snd c r))"

lemma led_upd: "led rs k st \<Longrightarrow> \<forall>k st. rs r \<noteq> Led k st \<Longrightarrow> led (rs(r := x)) k st"
  unfolding led_def by (metis fun_upd_other)

lemma role_ok_mono: "role_ok s L x \<Longrightarrow> (\<And>k st. L k st \<Longrightarrow> L' k st) \<Longrightarrow> role_ok s L' x"
  by (cases x) (auto split: option.splits)

text \<open>One request changes its role, the state may change: what is left to show.\<close>

lemma flight_inv_upd:
  assumes "flight_inv (s, rs)" and "\<forall>k st. rs r \<noteq> Led k st" and "slots_ok s'"
    and "\<And>x. role_ok s (led rs) x \<Longrightarrow> role_ok s' (led (rs(r := y))) x" and "role_ok s' (led (rs(r := y))) y"
  shows "flight_inv (s', rs(r := y))"
  using assms by (simp add: flight_inv_def)

lemma role_ok_led_upd:
  "\<forall>k st. rs r \<noteq> Led k st \<Longrightarrow> role_ok s (led rs) x \<Longrightarrow> role_ok s (led (rs(r := y))) x"
  by (erule role_ok_mono) (rule led_upd)

lemma enter_lead:
  assumes "enter_flight k s = (None, s')" and "slots_ok s"
  shows "slots_ok s'" and "role_ok s L x \<Longrightarrow> role_ok s' L x"
proof -
  have k: "sf_in_flight s k = None"
    and s': "sf_in_flight s' = (sf_in_flight s)(k \<mapsto> sf_next s)" "sf_result s' = (sf_result s)(sf_next s := None)"
      "sf_next s' = Suc (sf_next s)"
    using assms(1) by (auto simp: enter_flight_def split: option.splits)
  show "slots_ok s'" using assms(2) s' by (fastforce simp: slots_ok_def)
  show "role_ok s L x \<Longrightarrow> role_ok s' L x"
    using k s' by (cases x) (auto split: option.splits)
qed

lemma enter_follow:
  assumes "enter_flight k s = (Some i, s')" and "slots_ok s"
  shows "slots_ok s'" and "role_ok s L x \<Longrightarrow> role_ok s' L x" and "role_ok s' L (Waiting k i)"
proof -
  have s': "sf_in_flight s k = Some i" "sf_in_flight s' = sf_in_flight s" "sf_result s' = sf_result s" "sf_next s' = sf_next s"
    using assms(1) by (auto simp: enter_flight_def split: option.splits)
  show "slots_ok s'" using assms(2) s' by (simp add: slots_ok_def)
  show "role_ok s L x \<Longrightarrow> role_ok s' L x" using s' by (cases x) (auto split: option.splits)
  show "role_ok s' L (Waiting k i)" using assms(2) s' by (simp add: slots_ok_def)
qed

lemma complete_ok:
  assumes "slots_ok s"
  shows "slots_ok (complete_flight k st s)" and "L k st \<Longrightarrow> role_ok s L x \<Longrightarrow> role_ok (complete_flight k st s) L x"
proof -
  show "slots_ok (complete_flight k st s)"
    using assms by (auto simp: slots_ok_def complete_flight_def split: option.splits)
  show "role_ok (complete_flight k st s) L x" if "L k st" "role_ok s L x"
  proof (cases "sf_in_flight s k")
    case (Some j)
    then have j: "sf_result s j = None" "\<forall>k'. sf_in_flight s k' = Some j \<longrightarrow> k' = k"
      using assms unfolding slots_ok_def by blast+
    have c: "complete_flight k st s
        = s\<lparr>sf_in_flight := (sf_in_flight s)(k := None), sf_result := (sf_result s)(j := Some st)\<rparr>"
      using Some by (simp add: complete_flight_def)
    show ?thesis
    proof (cases x)
      case (Waiting k' i)
      show ?thesis
      proof (cases "i = j")
        case True
        then have "sf_in_flight s k' = Some j" using that(2) j(1) Waiting by simp
        then have "k' = k" using j(2) by blast
        then show ?thesis using that Waiting True by (simp add: c)
      next
        case False
        then have "sf_in_flight s k' = Some i \<longrightarrow> k' \<noteq> k" using Some by auto
        then show ?thesis using that(2) Waiting False by (auto simp: c split: option.splits)
      qed
    qed (use that in simp_all)
  qed (use that in \<open>simp add: complete_flight_def\<close>)
qed

lemma fstep_inv: "fstep c c' \<Longrightarrow> flight_inv c \<Longrightarrow> flight_inv c'"
proof (induction rule: fstep.induct)
  case (lead rs r k s s')
  then have "slots_ok s" by (simp add: flight_inv_def)
  with lead show ?case
    using enter_lead [OF lead(2)] by (intro flight_inv_upd [of s]) (auto intro: role_ok_led_upd)
next
  case (follow rs r k s i s')
  then have "slots_ok s" by (simp add: flight_inv_def)
  with follow show ?case
    using enter_follow [OF follow(2)] by (intro flight_inv_upd [of s]) (auto intro: role_ok_led_upd)
next
  case (poll rs r k i s st)
  then have "role_ok s (led rs) (Waiting k i)" unfolding flight_inv_def by (metis fst_conv snd_conv)
  then have "led rs k st" using poll by simp
  with poll show ?case
    by (intro flight_inv_upd [of s]) (auto simp: flight_inv_def intro: role_ok_led_upd led_upd)
next
  case (publish rs r k s st)
  then have "slots_ok s" by (simp add: flight_inv_def)
  moreover have "led (rs(r := Led k st)) k st" unfolding led_def by (intro exI [of _ r]) simp
  ultimately show ?case using publish
    by (intro flight_inv_upd [of s]) (auto intro!: complete_ok intro: role_ok_led_upd)
next
  case (takeover rs r k i s)
  then show ?case
    by (intro flight_inv_upd [of s]) (auto simp: flight_inv_def intro: role_ok_led_upd)
qed

lemma freach_inv: "freach c \<Longrightarrow> flight_inv c"
  by (induction rule: freach.induct)
    (simp add: flight_inv_def slots_ok_def flight_init_def, rule fstep_inv)

text \<open>Collapsed requests get a real answer: in every reachable state of concurrent requests, with any
  interleaving of arrivals, polls, publications and take-overs, a follower that was answered
  carries a status that a leader of the same key published.
\<close>
lemma follower_answer_is_leaders:
  assumes "freach (s, rs)" and "rs r = Followed k st"
  shows "\<exists>r'. rs r' = Led k st"
proof -
  have "role_ok s (led rs) (rs r)" using freach_inv [OF assms(1)] by (simp add: flight_inv_def)
  then show ?thesis using assms(2) by (simp add: led_def)
qed

text \<open>One leader and one follower, answered.\<close>

definition flight_demo :: "flight_state \<times> (nat \<Rightarrow> role)" where
  "flight_demo = (complete_flight 7 200 (snd (enter_flight 7 (snd (enter_flight 7 flight_init)))),
     (\<lambda>_. Idle)(0 := Led 7 200, 1 := Followed 7 200))"

lemma flight_demo_reachable: "freach flight_demo"
proof -
  let ?s1 = "snd (enter_flight 7 flight_init)"
  let ?s2 = "snd (enter_flight 7 ?s1)"
  let ?r1 = "(\<lambda>_ :: nat. Idle)(0 := Leading 7)"
  let ?r2 = "?r1(1 := Waiting 7 0)"
  have 1: "fstep (flight_init, \<lambda>_. Idle) (?s1, ?r1)" by (rule lead) (simp_all add: enter_flight_def flight_init_def)
  have 2: "fstep (?s1, ?r1) (?s2, ?r2)" by (rule follow) (simp_all add: enter_flight_def flight_init_def)
  have 3: "fstep (?s2, ?r2) (complete_flight 7 200 ?s2, ?r2(0 := Led 7 200))" by (rule publish) simp
  have 4: "fstep (complete_flight 7 200 ?s2, ?r2(0 := Led 7 200))
      (complete_flight 7 200 ?s2, ?r2(0 := Led 7 200, 1 := Followed 7 200))"
    by (rule poll) (simp_all add: enter_flight_def flight_init_def complete_flight_def)
  have "freach (complete_flight 7 200 ?s2, ?r2(0 := Led 7 200, 1 := Followed 7 200))"
    by (rule freach.step [OF freach.step [OF freach.step [OF freach.step [OF freach.start 1] 2] 3] 4])
  moreover have "?r2(0 := Led 7 200, 1 := Followed 7 200) = (\<lambda>_. Idle)(0 := Led 7 200, 1 := Followed 7 200)"
    by (rule ext) simp
  ultimately show ?thesis by (simp only: flight_demo_def)
qed

lemma follower_answer_is_leaders_witness: "\<exists>r'. snd flight_demo r' = Led 7 200"
proof -
  have "freach (fst flight_demo, snd flight_demo)" using flight_demo_reachable by simp
  moreover have "snd flight_demo 1 = Followed 7 200" by (simp add: flight_demo_def)
  ultimately show ?thesis by (rule follower_answer_is_leaders)
qed

section \<open>One leader at a time\<close>

text \<open>
  Without take-overs the leaders are exactly the registered keys: the count of leaders of a key
  is one while its entry is there and none otherwise.
\<close>

inductive reach_no_takeover :: "flight_state \<times> (nat \<Rightarrow> role) \<Rightarrow> bool" where
  start': "reach_no_takeover (flight_init, \<lambda>_. Idle)"
| step': "reach_no_takeover (s, rs) \<Longrightarrow> fstep (s, rs) (s', rs') \<Longrightarrow>
    (\<forall>r k i. rs r = Waiting k i \<longrightarrow> rs' r \<noteq> Leading k) \<Longrightarrow> reach_no_takeover (s', rs')"

definition one_leader :: "flight_state \<Rightarrow> (nat \<Rightarrow> role) \<Rightarrow> bool" where
  "one_leader s rs \<longleftrightarrow> (\<forall>r k. rs r = Leading k \<longrightarrow> sf_in_flight s k \<noteq> None)
     \<and> (\<forall>r r' k. rs r = Leading k \<longrightarrow> rs r' = Leading k \<longrightarrow> r' = r)"

lemma one_leader_step:
  assumes "fstep (s, rs) (s', rs')" and "\<forall>r k i. rs r = Waiting k i \<longrightarrow> rs' r \<noteq> Leading k" and "one_leader s rs"
  shows "one_leader s' rs'"
  using assms(1)
proof (cases rule: fstep.cases)
  case (lead r k)
  then have "sf_in_flight s k = None" "sf_in_flight s' = (sf_in_flight s)(k \<mapsto> sf_next s)"
    by (auto simp: enter_flight_def split: option.splits)
  moreover from this(1) have "rs q \<noteq> Leading k" for q using assms(3) unfolding one_leader_def by blast
  ultimately show ?thesis using assms(3) lead by (auto simp: one_leader_def)
next
  case (follow r k i)
  then have "sf_in_flight s' = sf_in_flight s" by (auto simp: enter_flight_def split: option.splits)
  then show ?thesis using assms(3) follow by (auto simp: one_leader_def)
next
  case (publish r k st)
  then have "sf_in_flight s' = (sf_in_flight s)(k := None)"
    by (auto simp: complete_flight_def split: option.splits)
  then show ?thesis using assms(3) publish by (auto simp: one_leader_def)
next
  case (takeover r k i)
  then have "rs' r = Leading k" by simp
  then show ?thesis using assms(2) takeover(3) by blast
qed (use assms(3) in \<open>auto simp: one_leader_def\<close>)

text \<open>(C32)
  Collapsing works: as long as no follower times out, at most one request per key is on its way
  to the backend at any time, in every interleaving.
\<close>
theorem single_leader:
  assumes "reach_no_takeover (s, rs)" and "rs r = Leading k" and "rs r' = Leading k"
  shows "r' = r"
proof -
  have "one_leader s rs" using assms(1)
    by (induction "(s, rs)" arbitrary: s rs rule: reach_no_takeover.induct)
      (simp add: one_leader_def, rule one_leader_step)
  then show ?thesis using assms(2,3) by (auto simp: one_leader_def)
qed

theorem single_leader_witness:
  "\<exists>s rs. reach_no_takeover (s, rs) \<and> rs 0 = Leading 7 \<and> (rs 1 = Leading 7 \<longrightarrow> (1 :: nat) = 0)"
proof -
  let ?s1 = "snd (enter_flight 7 flight_init)" and ?r1 = "(\<lambda>_ :: nat. Idle)(0 := Leading 7)"
  have "fstep (flight_init, \<lambda>_. Idle) (?s1, ?r1)" by (rule lead) (simp_all add: enter_flight_def flight_init_def)
  then have r: "reach_no_takeover (?s1, ?r1)" by (rule step' [OF start']) simp
  moreover have "?r1 0 = Leading 7" by simp
  moreover have "?r1 1 = Leading 7 \<longrightarrow> (1 :: nat) = 0" using single_leader [OF r] by auto
  ultimately show ?thesis by blast
qed

end
