(* ===== verification/Adaptive_Concurrency.thy ===== *)
theory Adaptive_Concurrency
  imports Gauge_Spec F64
begin

text \<open>
  The gradient limiter of one upstream, \<open>rust-ext/src/adaptive_concurrency.rs\<close>: admission, the two
  ways a permit ends (dropping it, completing it with a round-trip time), the adjustment of the
  limit, and the registry of limiters. Counters are 64-bit words and wrap.
\<close>

definition MIN_LIMIT :: usize where [simp]: "MIN_LIMIT = 1"
definition MAX_LIMIT :: usize where [simp]: "MAX_LIMIT = 10000"
definition ALPHA_GROW :: f64 where "ALPHA_GROW = Fin 1"
definition BETA_SHRINK :: f64 where "BETA_SHRINK = lit (75 / 100)"
definition RTT_DECAY :: f64 where "RTT_DECAY = lit (99 / 100)"

record GradientLimiter =
  gl_limit :: usize
  gl_in_flight :: usize
  gl_min_rtt_us :: u64
  gl_total_admitted :: u64
  gl_total_sheds :: u64

definition GradientLimiter_new :: "usize \<Rightarrow> GradientLimiter" where
  "GradientLimiter_new initial_limit =
     \<lparr>gl_limit = clamp MIN_LIMIT MAX_LIMIT initial_limit, gl_in_flight = 0, gl_min_rtt_us = - 1,
      gl_total_admitted = 0, gl_total_sheds = 0\<rparr>"

definition try_acquire :: "GradientLimiter \<Rightarrow> bool \<times> GradientLimiter" where
  "try_acquire g =
     (let limit = gl_limit g; inflight = gl_in_flight g; g1 = g\<lparr>gl_in_flight := inflight + 1\<rparr> in
      if limit \<le> inflight
      then (False, g1\<lparr>gl_in_flight := gl_in_flight g1 - 1, gl_total_sheds := gl_total_sheds g1 + 1\<rparr>)
      else (True, g1\<lparr>gl_total_admitted := gl_total_admitted g1 + 1\<rparr>))"

definition decayed_rtt :: "u64 \<Rightarrow> u64 \<Rightarrow> u64" where
  "decayed_rtt old_min rtt_us =
     (if rtt_us < old_min then rtt_us
      else f_to_word (f_add (f_mul (f_of_word old_min) RTT_DECAY)
                       (f_mul (f_of_word rtt_us) (f_sub (Fin 1) RTT_DECAY))))"

definition next_limit :: "usize \<Rightarrow> usize \<Rightarrow> u64 \<Rightarrow> u64 \<Rightarrow> usize" where
  "next_limit limit inflight new_min rtt_us =
     (let expected = f_mul (f_of_word limit) (f_div (f_of_word new_min) (f_of_word (max rtt_us 1))) in
      clamp MIN_LIMIT MAX_LIMIT
        (if f_lt (f_of_word inflight) expected then f_to_word (f_add (f_of_word limit) ALPHA_GROW)
         else f_to_word (f_mul (f_of_word limit) BETA_SHRINK)))"

definition update_gradient :: "u64 \<Rightarrow> GradientLimiter \<Rightarrow> GradientLimiter" where
  "update_gradient rtt_us g =
     (let old_min = gl_min_rtt_us g; new_min = decayed_rtt old_min rtt_us;
          g1 = g\<lparr>gl_min_rtt_us := max (min new_min old_min) new_min\<rparr> in
      if new_min = 0 \<or> new_min = - 1 then g1
      else
        (let clamped = next_limit (gl_limit g1) (gl_in_flight g1) new_min rtt_us in
         if clamped \<noteq> gl_limit g1 then g1\<lparr>gl_limit := clamped\<rparr> else g1))"

definition complete :: "u64 \<Rightarrow> GradientLimiter \<Rightarrow> GradientLimiter" where
  "complete rtt_us g = update_gradient rtt_us (g\<lparr>gl_in_flight := gl_in_flight g - 1\<rparr>)"

definition permit_drop :: "GradientLimiter \<Rightarrow> GradientLimiter" where
  "permit_drop g = g\<lparr>gl_in_flight := gl_in_flight g - 1\<rparr>"

text \<open>The registry: the limiters by address, in order of creation.\<close>

definition get_limiter ::
    "string \<Rightarrow> (string \<times> GradientLimiter) list \<Rightarrow> GradientLimiter \<times> (string \<times> GradientLimiter) list" where
  "get_limiter address reg =
     (case map_of reg address of
        Some existing \<Rightarrow> (existing, reg)
      | None \<Rightarrow> (let l = GradientLimiter_new 100 in (l, reg @ [(address, l)])))"

section \<open>Permits as a gauge\<close>

lemma try_acquire_cases:
  "try_acquire g =
     (if gl_limit g \<le> gl_in_flight g then (False, g\<lparr>gl_total_sheds := gl_total_sheds g + 1\<rparr>)
      else (True, g\<lparr>gl_in_flight := gl_in_flight g + 1, gl_total_admitted := gl_total_admitted g + 1\<rparr>))"
  by (simp add: try_acquire_def Let_def)

text \<open>With permits that are only dropped, the limiter is a gauge.\<close>

interpretation gl: gauge "\<lambda>g. int (unat (gl_in_flight g))" "\<lambda>g. int (unat (gl_limit g))" try_acquire permit_drop
proof
  fix g
  show "fst (try_acquire g) \<Longrightarrow> int (unat (gl_in_flight g)) < int (unat (gl_limit g))"
    by (simp add: try_acquire_cases not_le word_less_def split: if_splits)
  show "int (unat (gl_in_flight (snd (try_acquire g))))
      = (if fst (try_acquire g) then int (unat (gl_in_flight g)) + 1 else int (unat (gl_in_flight g)))"
  proof (cases "gl_limit g \<le> gl_in_flight g")
    case False
    then have "unat (gl_in_flight g + 1) = unat (gl_in_flight g) + 1"
      using word_less_inc_unat [of "gl_in_flight g" "gl_limit g"] by simp
    then have "int (unat (gl_in_flight g + 1)) = int (unat (gl_in_flight g)) + 1" by linarith
    then show ?thesis using False by (simp only: try_acquire_cases) simp
  qed (simp add: try_acquire_cases)
  show "0 < int (unat (gl_in_flight g)) \<Longrightarrow> int (unat (gl_in_flight (permit_drop g))) = int (unat (gl_in_flight g)) - 1"
  proof -
    assume "0 < int (unat (gl_in_flight g))"
    then have pos: "0 < unat (gl_in_flight g)" by linarith
    then have "unat (gl_in_flight g - 1) = unat (gl_in_flight g) - 1" by (intro unat_minus_one) auto
    with pos have "int (unat (gl_in_flight g - 1)) = int (unat (gl_in_flight g)) - 1" by linarith
    then show ?thesis by (simp only: permit_drop_def) simp
  qed
qed (simp_all add: try_acquire_cases permit_drop_def)

section \<open>The limit stays in its range\<close>

datatype limiter_event = LAcquire | LComplete u64 | LDrop

fun limiter_step :: "GradientLimiter \<Rightarrow> limiter_event \<Rightarrow> GradientLimiter" where
  "limiter_step g LAcquire = snd (try_acquire g)"
| "limiter_step g (LComplete rtt) = complete rtt g"
| "limiter_step g LDrop = permit_drop g"

lemma update_gradient_frame:
  "gl_in_flight (update_gradient rtt g) = gl_in_flight g"
  "gl_limit (update_gradient rtt g) = gl_limit g \<or> (1 \<le> gl_limit (update_gradient rtt g) \<and> gl_limit (update_gradient rtt g) \<le> 10000)"
  by (simp_all add: update_gradient_def next_limit_def Let_def)

text \<open>The adaptive limit never leaves its range: whatever the initial guess and whatever sequence of
  admissions, completions with any round-trip times and dropped permits, it lies between 1 and
  10000, so an upstream is never shut off and never unlimited.
\<close>
lemma limit_in_range:
  "1 \<le> gl_limit (run limiter_step (GradientLimiter_new initial) es)
   \<and> gl_limit (run limiter_step (GradientLimiter_new initial) es) \<le> 10000"
proof (rule run_inv [where I = "\<lambda>g. 1 \<le> gl_limit g \<and> gl_limit g \<le> 10000"])
  fix g :: GradientLimiter and e assume i: "1 \<le> gl_limit g \<and> gl_limit g \<le> (10000 :: usize)"
  show "1 \<le> gl_limit (limiter_step g e) \<and> gl_limit (limiter_step g e) \<le> 10000"
  proof (cases e)
    case (LComplete rtt)
    then show ?thesis
      using i update_gradient_frame(2) [of rtt "g\<lparr>gl_in_flight := gl_in_flight g - 1\<rparr>"] by (auto simp: complete_def)
  qed (use i in \<open>simp_all add: try_acquire_cases permit_drop_def\<close>)
qed (simp add: GradientLimiter_new_def)

text \<open>Completing a permit and then dropping it releases it twice. On an idle limiter one admitted
  request that is completed (as the gradient needs) and whose permit then goes out of scope
  leaves the counter at its greatest value, and from then on every admission is refused.
\<close>
lemma complete_and_drop_wedges:
  assumes "1 \<le> gl_limit g" and "gl_limit g \<le> 10000" and "gl_in_flight g = 0"
  shows "gl_in_flight (run limiter_step g [LAcquire, LComplete rtt, LDrop]) = - 1
    \<and> \<not> fst (try_acquire (run limiter_step g [LAcquire, LComplete rtt, LDrop]))"
proof -
  let ?g1 = "snd (try_acquire g)"
  have "\<not> gl_limit g \<le> gl_in_flight g" using assms(1,3) by (auto simp: word_le_nat_alt)
  then have a: "gl_in_flight ?g1 = 1" "gl_limit ?g1 = gl_limit g" using assms(3) by (simp_all add: try_acquire_cases)
  let ?g3 = "run limiter_step g [LAcquire, LComplete rtt, LDrop]"
  have f: "gl_in_flight ?g3 = - 1" using a by (simp add: complete_def permit_drop_def update_gradient_frame(1))
  have "gl_limit ?g3 \<le> - 1" by (rule word_order.extremum)
  then show ?thesis using f by (simp add: try_acquire_cases del: run.simps)
qed

lemma complete_and_drop_wedges_witness:
  "\<not> fst (try_acquire (run limiter_step (GradientLimiter_new 100) [LAcquire, LComplete 500, LDrop]))"
  using complete_and_drop_wedges [of "GradientLimiter_new 100" 500]
  by (simp add: GradientLimiter_new_def clamp_def del: run.simps)

end
