(* ===== verification/Spec2Isabelle.thy ===== *)
theory Spec2Isabelle
  imports Lua_Handler Shared_Memory Lifecycle Sidecar Single_Flight Adaptive_Concurrency
begin

text \<open>
  \<^bold>\<open>A verification library for the edge gateway\<close>

  \<^bold>\<open>The program.\<close> \<open>rust-ext\<close> is a native extension of an NGINX worker. For every request the Lua layer
  calls \<open>process_request\<close> (\<open>lib.rs\<close>), which runs the stages in a fixed order: backpressure slot,
  firewall, token validation, routing with data residency, shedding by the sentinel posture, body
  validation, required identity, per-user rate limit, daily quota, choice of an upstream. After the
  response it calls \<open>report_telemetry\<close>, which feeds the counters, the trace channel, the latency
  averages, the debt ledger and the circuit breakers, and \<open>release_slot\<close>. Background threads reload
  the configuration, synchronise rate limits and revocations with Redis, probe upstreams, compute
  the posture and export telemetry. Workers share memory-mapped tables of atomics. A second program,
  \<open>config-sidecar\<close>, polls the control plane and replaces the configuration file that the gateway
  watches.

  \<^bold>\<open>Theories and sources\<close> (paths under \<open>src/rust-ext/src\<close>).
  \<^item> \<open>Gateway_Prelude\<close>: machine integers of Rust as words that wrap (release build), saturating
    operations, runs of step functions with the invariant rule, interference of other workers,
    compare-exchange loops as lists of events, strings as UTF-8 bytes, environment variables.
    \<open>F64\<close>: binary64 with round-to-nearest-even on rationals, and the casts of \<open>as\<close>. \<open>Std_Parse\<close>,
    \<open>Rust_Str\<close>, \<open>Utf8\<close>, \<open>Civil_Date\<close>: parsing, trimming, splitting, formatting, decoding, calendar.
  \<^item> \<open>Breaker_Spec\<close>, \<open>Circuit_Breaker\<close> (\<open>load_balancing/circuit_breaker.rs\<close>): the upstream breaker
    refines the abstract machine of the locale; its races, threshold, confidence.
  \<^item> \<open>Gauge_Spec\<close>, \<open>Backpressure\<close> (\<open>backpressure.rs\<close>), \<open>Adaptive_Concurrency\<close>
    (\<open>adaptive_concurrency.rs\<close>): two providers of the gauge contract.
  \<^item> \<open>Redis_Window\<close>, \<open>Redis_CB\<close> (\<open>redis_cb.rs\<close>): rolling window, detectors, the state machine with
    its probe budget, cooldown and races, and the wrapper around protected calls.
  \<^item> \<open>Window_Counter\<close>, \<open>Rate_Limit\<close> (\<open>rate_limit.rs\<close>): the packed window word, the hot path under
    interference, the fleet synchronisation.
  \<^item> \<open>Ring_Buffer\<close>, \<open>Baselines\<close> (\<open>baselines.rs\<close>, \<open>entropy.rs\<close>), \<open>Sentinel\<close> (\<open>sentinel.rs\<close>).
  \<^item> \<open>Waf\<close> (\<open>waf.rs\<close>), \<open>Validate\<close> (\<open>validate.rs\<close>), \<open>Config\<close> (\<open>config.rs\<close>), \<open>Cors\<close> (\<open>cors.rs\<close>),
    \<open>Router\<close> (\<open>router.rs\<close>), \<open>Health\<close> (\<open>health.rs\<close>), \<open>Load_Balancing\<close> (\<open>load_balancing/\<close>),
    \<open>Quota\<close> (\<open>quota.rs\<close>), \<open>Revocation\<close> (\<open>revocation.rs\<close>), \<open>Auth\<close> (\<open>auth.rs\<close>), \<open>Debt\<close> (\<open>debt.rs\<close>),
    \<open>Cache\<close> (\<open>cache.rs\<close>), \<open>Single_Flight\<close> (\<open>single_flight.rs\<close>), \<open>Telemetry\<close> (\<open>telemetry.rs\<close>),
    \<open>Otlp\<close> (\<open>otlp.rs\<close>).
  \<^item> \<open>Prom_Text\<close>: the text format of the scrape endpoints with a reader for it. \<open>Exposition\<close>: the metrics
    page of the gateway (\<open>prometheus_text\<close> of \<open>telemetry.rs\<close>, \<open>prometheus_fragment\<close> of \<open>health.rs\<close>,
    \<open>get_metrics_string\<close> of \<open>lib.rs\<close>).
  \<^item> \<open>Sidecar\<close> (\<open>config-sidecar/src/main.rs\<close>, \<open>metrics.rs\<close>): settings, polls, the replacement of the file
    with every state a reader may find on disk, and the sidecar's own metrics.
  \<^item> \<open>Gateway\<close> (\<open>lib.rs\<close>): the state of a worker and the entry points, composed from the components
    the way the code composes them. \<open>Gateway_Pipeline\<close>: the properties of the composition. The property
    of this theory spans the sidecar and the gateway's watcher.
  \<^item> \<open>Lua_Handler\<close> (\<open>src/lua/gateway.lua\<close>, \<open>src/gateway-locations.conf\<close>): the handlers that call the entry
    points, with the buffers of the module, and a worker between NGINX and the upstreams as a step
    function on arrivals and finished requests.
  \<^item> \<open>Shared_Memory\<close>: the six \<open>init_shm\<close>, the \<open>repr(C)\<close> layouts and the slot arithmetic under the tables of
    the component theories (\<open>load_balancing/circuit_breaker.rs\<close>, \<open>debt.rs\<close>, \<open>health.rs\<close>, \<open>telemetry.rs\<close>,
    \<open>waf.rs\<close>, \<open>rate_limit.rs\<close>); the contract of a layout is the locale \<open>record_layout\<close>, interpreted on
    each of the five record types.
  \<^item> \<open>Lifecycle\<close> (\<open>lib.rs\<close> and the \<open>start\<close> functions): clocks, the threads of a worker, the receive loop
    of the rate limit thread.

  \<^bold>\<open>How state and effects are modelled.\<close> A struct is a record, an enum a datatype, a shared table a
  function from slots starting zeroed (what that means for the bytes of the mapped file, and for a
  file that is already there, is in \<open>Shared_Memory\<close>). A method is a function from the state to its result and the
  new state. Operations that make several atomic accesses take an interference or a list of
  exchange events; loops over them are recursive on that list and therefore return for every finite
  interference. Clocks, the published configuration and other reads of a call are arguments, one
  per read (one clock value, in seconds, serves all breaker checks of a selection). The mutex of the
  sentinel's baselines is part of the state of its thread, and code that waits for ever is a value
  (\<open>Waits\<close>); the stores of a configuration reload are listed one by one, because requests read
  between them. Errors are option or sum values; the abort of a panic is a value too. Third-party code
  (hashes, the Aho-Corasick automaton, base64, JSON, HMAC, SHA-256, the LRU cache, the radix tree,
  Redis, \<open>powf\<close>, \<open>log2\<close>) is a parameter; where a property needs a law of it, the law is a named
  predicate with a concrete instance in the witness.

  \<^bold>\<open>Bounds and fuel.\<close> No definition takes fuel except the bounded loops of the code itself (two
  quota attempts, three decoding passes, 128 spans). A follower of a collapsed request is shown to
  return within 4009 polls. The in-flight gauges are integers: an \<open>i64\<close> would wrap only with \<open>2^63\<close>
  requests in flight.

  \<^bold>\<open>What the lemmas show.\<close> For the pipeline: an admitted request passed every check and its
  outputs are the values checked; the slot is held exactly by admitted requests; quotas are only
  spent within the rate limit; and two defects, the global breaker that never recovers and the
  header that escapes both limiters. For the components: refinement of specification machines
  (breaker, health thresholds, cache), exactness of limits, quotas, windows, counters and
  selections, soundness of authentication over any history of the cache, delivery of revocations,
  linearizability of the rate limiter, budgets and recovery of the Redis breaker, termination of
  waiting loops, the first violation of a body, round trips of encodings and of every sample of the
  metrics page; and two more defects, the sampling thread of the sentinel that waits for its own lock
  in its first second, and the revocations that are lost while the scan fallback is off. For the
  distribution of the configuration: the gateway only ever runs a whole document, the sidecar's
  version is the one on disk, and a request never routes with a router older than its configuration
  (a newer one is possible, and can answer 404). For the Lua layer: which headers a CORS policy produces, and what the hand-over to the
  proxy locations does to the worker: slots are never released because \<open>ngx.ctx\<close> does not survive
  \<open>ngx.exec\<close> (the hypothesis on \<open>exec_ctx\<close> is what OpenResty documents), fifty refusals in a row
  during an overload open the global breaker for good, and an anonymous request inherits the user of the last one that had a
  user. For the shared memory: the tables are what the bytes say, no access leaves the file its
  set-up made, and the contents survive a restart.

  \<^bold>\<open>Not modelled.\<close> The sleeps between iterations of the background threads (their bodies are
  modelled); HTTP and socket traffic (its results are arguments); log output; NGINX itself: proxying,
  its response cache, timeouts, static headers and the server configuration of \<open>nginx.conf\<close>; the
  shell and container files.
\<close>

section \<open>From the control plane to the worker\<close>

text \<open>Sidecar and gateway agree on the file when they see the same environment.\<close>

lemma same_config_file:
  assumes "unwrap_or (env ''TMPDIR'') ''/tmp'' = tmp" and "tmp \<noteq> []" and "last tmp \<noteq> CHR ''/''"
  shows "config_path env tmp = sidecar_target env"
  using assms by (simp add: config_path_def sidecar_target_def non_empty_def path_join_def split: option.split)

text \<open>What the watcher may read: at every attempt the contents of the target in a state of the disk.\<close>

definition reads_disk :: "string \<Rightarrow> files list \<Rightarrow> (env \<times> config_file) list \<Rightarrow> bool" where
  "reads_disk path states attempts \<longleftrightarrow>
     list_all (\<lambda>(_, file). case file of Some (_, Some txt) \<Rightarrow> list_ex (\<lambda>fs. fs path = Some txt) states | _ \<Rightarrow> True) attempts"

lemma reads_diskD:
  "reads_disk path states attempts \<Longrightarrow> (e, Some (m, Some tx)) \<in> set attempts \<Longrightarrow> \<exists>fs \<in> set states. fs path = Some tx"
  unfolding reads_disk_def list_all_iff list_ex_iff by (drule (1) bspec) simp

lemma reload_adopts:
  "cs_config (reload_step from_json keys_json build st (e, file)) = cs_config st
   \<or> (\<exists>m txt parsed. file = Some (m, Some txt) \<and> from_json txt = Some parsed
        \<and> cs_config (reload_step from_json keys_json build st (e, file)) = apply_secret_overrides keys_json e parsed)"
  by (auto simp: reload_step_def try_reload_config_def Let_def split: option.splits prod.splits)

text \<open>The configurations of a set of texts, with the overrides of some environment, and the default.\<close>

definition adopted_from ::
    "string set \<Rightarrow> (string \<Rightarrow> GatewayConfig option) \<Rightarrow> (string \<Rightarrow> (string \<rightharpoonup> string) option) \<Rightarrow> GatewayConfig \<Rightarrow> bool" where
  "adopted_from texts from_json keys_json cfg \<longleftrightarrow>
     cfg = GatewayConfig_default
     \<or> (\<exists>e. \<exists>t \<in> texts. \<exists>parsed. from_json t = Some parsed \<and> cfg = apply_secret_overrides keys_json e parsed)"

definition whole_texts :: "(json \<Rightarrow> string) \<Rightarrow> env \<Rightarrow> poll_event list \<Rightarrow> files \<Rightarrow> string set" where
  "whole_texts render env evs fs =
     {t. fs (sidecar_target env) = Some t} \<union> render ` polled_docs (sidecar_settings env) evs"

lemma disk_texts_whole:
  assumes "file_name (sidecar_target env) \<noteq> None"
    and "fs' \<in> set (fs # snd (sidecar_run render (sidecar_settings env) evs (sidecar_start fs)))"
    and "fs' (sidecar_target env) = Some t"
  shows "t \<in> whole_texts render env evs fs"
proof -
  have d: "sd_target (sidecar_settings env) = sidecar_target env" by (simp add: sidecar_settings_def Let_def)
  have "sc_files (sidecar_start fs) = fs" by (simp add: sidecar_start_def)
  then have "fs' (sidecar_target env) = fs (sidecar_target env)
      \<or> (\<exists>j \<in> polled_docs (sidecar_settings env) evs. fs' (sidecar_target env) = Some (render j))"
    using run_whole_documents [OF sidecar_paths [OF assms(1)], of render evs "sidecar_start fs"] assms(2)
    unfolding d by (metis set_ConsD)
  then show ?thesis using assms(3) by (auto simp: whole_texts_def)
qed

text \<open>(C18)
  No worker ever runs a torn configuration. The watcher reads the file at arbitrary moments while
  the sidecar replaces it, including in the middle of a write and after failed or interrupted ones.
  The configuration it publishes is the default, or that of the file found at the start, or that of
  the whole text of one document which the control plane sent with a version, with the overrides of
  the worker's environment.
\<close>
theorem gateway_adopts_whole_documents:
  fixes build :: "GatewayConfig \<Rightarrow> 'r"
  assumes "file_name (sidecar_target env) \<noteq> None"
    and "reads_disk (sidecar_target env)
      (fs # snd (sidecar_run render (sidecar_settings env) evs (sidecar_start fs))) attempts"
  shows "adopted_from (whole_texts render env evs fs) from_json keys_json
    (cs_config (run (reload_step from_json keys_json build) (config_start build) attempts))"
proof (rule run_inv [where I = "\<lambda>st. adopted_from (whole_texts render env evs fs) from_json keys_json (cs_config st)"])
  fix st :: "'r config_state" and ef
  assume I: "adopted_from (whole_texts render env evs fs) from_json keys_json (cs_config st)" and i: "ef \<in> set attempts"
  obtain e cf where ef: "ef = (e, cf)" by (cases ef)
  show "adopted_from (whole_texts render env evs fs) from_json keys_json (cs_config (reload_step from_json keys_json build st ef))"
    using reload_adopts [of from_json keys_json build st e cf]
  proof (elim disjE exE conjE)
    fix m tx parsed
    assume "cf = Some (m, Some tx)" and p: "from_json tx = Some parsed"
      "cs_config (reload_step from_json keys_json build st (e, cf)) = apply_secret_overrides keys_json e parsed"
    then have "tx \<in> whole_texts render env evs fs"
      using reads_diskD [OF assms(2)] disk_texts_whole [OF assms(1)] i ef by metis
    then show ?thesis using p unfolding ef adopted_from_def by blast
  qed (use I ef in simp)
qed (simp add: config_start_def adopted_from_def)

text \<open>
  A worker whose watcher looks once in the middle of the first write, and once after the rename.
\<close>

definition demo_document :: json where
  "demo_document = JObject [(''version'', JString ''v7'')]"

definition demo_reply :: poll_event where
  "demo_reply = \<lparr>pe_fetch = (\<lambda>_ _. Document demo_document), pe_write = Wrote, pe_renamed = True\<rparr>"

definition demo_parse :: "string \<Rightarrow> GatewayConfig option" where
  "demo_parse t = (if t = ''{7}'' then Some (GatewayConfig_default\<lparr>version := ''v7''\<rparr>) else None)"

theorem gateway_adopts_whole_documents_witness:
  "\<exists>e parsed. demo_parse ''{7}'' = Some parsed
     \<and> cs_config (run (reload_step demo_parse (\<lambda>_. None) id) (config_start id)
         [(Map.empty, None), (Map.empty, Some (1, Some ''{7}''))]) = apply_secret_overrides (\<lambda>_. None) e parsed"
proof -
  let ?cfg = "sidecar_settings Map.empty" and ?fs = "Map.empty :: files"
  let ?as = "[(Map.empty, None), (Map.empty, Some (1, Some ''{7}''))] :: (env \<times> config_file) list"
  let ?st = "run (reload_step demo_parse (\<lambda>_. None) id) (config_start id) ?as"
  have n: "file_name (sidecar_target Map.empty) \<noteq> None" by (simp add: demo_target)
  have d: "doc_version demo_document = ''v7''" by (simp add: demo_document_def doc_version_def)
  have "snd (sidecar_run (\<lambda>_. ''{7}'') ?cfg [demo_reply] (sidecar_start ?fs))
      = write_states (sd_temp ?cfg) ''{7}'' 3 ?fs @ [rename_file (sd_temp ?cfg) (sd_target ?cfg) (?fs(sd_temp ?cfg \<mapsto> ''{7}''))]"
    by (simp add: sidecar_poll_def demo_reply_def d should_update_config_def sidecar_start_def inc_polls_def
        write_config_atomically_def Let_def numeral_3_eq_3)
  then have r: "reads_disk (sidecar_target Map.empty) (?fs # snd (sidecar_run (\<lambda>_. ''{7}'') ?cfg [demo_reply] (sidecar_start ?fs))) ?as"
    by (simp add: reads_disk_def rename_file_def sidecar_settings_def Let_def demo_target)
  have "version (cs_config ?st) = ''v7''"
    by (simp add: reload_step_def try_reload_config_def config_start_def demo_parse_def Let_def override_secrets)
  then have "cs_config ?st \<noteq> GatewayConfig_default" by (auto simp: GatewayConfig_default_def)
  then show ?thesis
    using gateway_adopts_whole_documents [OF n r, where from_json = demo_parse and keys_json = "\<lambda>_. None" and build = id]
    by (auto simp: adopted_from_def whole_texts_def)
qed

end
